(* ===== verification/Nemo_Prelude.thy ===== *)
theory Nemo_Prelude
  imports Main "HOL-Library.Word"
begin

text \<open>
  The shared vocabulary of the development: the machine integers of the kernel
  (i386, so pointers and \<open>unsigned int\<close> are 32 bits wide), the result type of
  operations that can fail to return, byte-addressed memory with little-endian
  32-bit accesses, and the generic facts the components share.

  An operation that always returns is a plain HOL function. An operation that
  may not return has a result in \<open>'a res\<close>: \<open>Inr\<close> is a normal return, and
  \<open>Inl\<close> says why there is none, namely the kernel's \<open>PANIC\<close> macro (which halts
  the CPU), an access outside an array or to no object, a loop or recursion that
  never ends, an access to an address that the page tables do not map, or a
  division by zero.
\<close>

unbundle bit_operations_syntax

named_theorems mem_simps "reading memory after writing it"
named_theorems res_simps "sequencing of operations that may not return"

section \<open>Types\<close>

type_synonym u8 = "8 word"
type_synonym u16 = "16 word"
type_synonym u32 = "32 word"

type_synonym memory = "u32 \<Rightarrow> u8"

datatype fault = Panic string | Out_of_bounds | Diverges | Page_fault u32 | Divide_error

type_synonym 'a res = "fault + 'a"

abbreviation nullptr :: u32 where
  "nullptr \<equiv> 0"

section \<open>Sequencing operations that may not return\<close>

definition bindR :: "'a res \<Rightarrow> ('a \<Rightarrow> 'b res) \<Rightarrow> 'b res" where
  "bindR m f = (case m of Inl e \<Rightarrow> Inl e | Inr x \<Rightarrow> f x)"

lemma bindR_Inl [simp, res_simps]: "bindR (Inl e) f = Inl e"
  by (simp add: bindR_def)

lemma bindR_Inr [simp, res_simps]: "bindR (Inr x) f = f x"
  by (simp add: bindR_def)

lemma bindR_eq_Inr [res_simps]:
  "(bindR m f = Inr y) = (\<exists>x. m = Inr x \<and> f x = Inr y)"
  by (cases m) auto

lemma bindR_assoc: "bindR (bindR m f) g = bindR m (\<lambda>x. bindR (f x) g)"
  by (cases m) auto

text \<open>A loop that may never end is a \<open>partial_function\<close> into \<open>option\<close>; its
  \<open>None\<close> is the fault \<open>Diverges\<close> of the caller.\<close>

definition returns :: "'a option \<Rightarrow> 'a res" where
  "returns r = (case r of None \<Rightarrow> Inl Diverges | Some x \<Rightarrow> Inr x)"

lemma returns_simps [simp, res_simps]:
  "returns None = Inl Diverges" "returns (Some x) = Inr x"
  by (simp_all add: returns_def)

section \<open>Arrays with checked indices\<close>

definition array_get :: "'a list \<Rightarrow> nat \<Rightarrow> 'a res" where
  "array_get xs i = (if i < length xs then Inr (xs ! i) else Inl Out_of_bounds)"

definition array_set :: "'a list \<Rightarrow> nat \<Rightarrow> 'a \<Rightarrow> 'a list res" where
  "array_set xs i v = (if i < length xs then Inr (xs[i := v]) else Inl Out_of_bounds)"

lemma array_get_ok [simp]: "i < length xs \<Longrightarrow> array_get xs i = Inr (xs ! i)"
  by (simp add: array_get_def)

lemma array_set_ok [simp]: "i < length xs \<Longrightarrow> array_set xs i v = Inr (xs[i := v])"
  by (simp add: array_set_def)

lemma array_get_bad [simp]: "length xs \<le> i \<Longrightarrow> array_get xs i = Inl Out_of_bounds"
  by (simp add: array_get_def)

lemma array_set_bad [simp]: "length xs \<le> i \<Longrightarrow> array_set xs i v = Inl Out_of_bounds"
  by (simp add: array_set_def)

section \<open>Byte-addressed memory\<close>

definition rd32 :: "memory \<Rightarrow> u32 \<Rightarrow> u32" where
  "rd32 m a = ucast (m a) OR push_bit 8 (ucast (m (a + 1)))
     OR push_bit 16 (ucast (m (a + 2))) OR push_bit 24 (ucast (m (a + 3)))"

definition wr32 :: "memory \<Rightarrow> u32 \<Rightarrow> u32 \<Rightarrow> memory" where
  "wr32 m a v = m(a := ucast v, a + 1 := ucast (drop_bit 8 v),
     a + 2 := ucast (drop_bit 16 v), a + 3 := ucast (drop_bit 24 v))"

lemma word32_join_bytes:
  "(ucast (ucast v :: u8) OR push_bit 8 (ucast (ucast (drop_bit 8 v) :: u8))
     OR push_bit 16 (ucast (ucast (drop_bit 16 v) :: u8))
     OR push_bit 24 (ucast (ucast (drop_bit 24 v) :: u8)) :: u32) = v"
proof (rule bit_word_eqI)
  fix n
  assume n: "n < LENGTH(32)"
  then consider "n < 8" | "8 \<le> n \<and> n < 16" | "16 \<le> n \<and> n < 24" | "24 \<le> n \<and> n < 32"
    by fastforce
  then show "bit (ucast (ucast v :: u8) OR push_bit 8 (ucast (ucast (drop_bit 8 v) :: u8))
     OR push_bit 16 (ucast (ucast (drop_bit 16 v) :: u8))
     OR push_bit 24 (ucast (ucast (drop_bit 24 v) :: u8)) :: u32) n = bit v n"
    by cases (use n in \<open>auto simp: bit_simps\<close>)
qed

lemma rd32_wr32_same [simp, mem_simps]: "rd32 (wr32 m a v) a = v"
proof -
  have "a + 1 \<noteq> a" "a + 2 \<noteq> a" "a + 3 \<noteq> a" "a + 2 \<noteq> a + 1" "a + 3 \<noteq> a + 1" "a + 3 \<noteq> a + 2"
    by simp_all
  then show ?thesis
    by (simp add: rd32_def wr32_def word32_join_bytes)
qed

text \<open>Two 4-byte accesses are apart when neither address is within three bytes
  of the other; then one does not see the other's write.\<close>

definition apart :: "u32 \<Rightarrow> u32 \<Rightarrow> bool" where
  "apart a b \<longleftrightarrow> 4 \<le> unat (a - b) \<and> 4 \<le> unat (b - a)"

lemma apart_sym: "apart a b = apart b a"
  by (auto simp: apart_def)

lemma wr32_other:
  assumes "4 \<le> unat (b - a)"
  shows "wr32 m a v b = m b"
proof -
  have "b \<noteq> a + k" if "unat k < 4" for k
    using assms that by auto
  from this[of 0] this[of 1] this[of 2] this[of 3] show ?thesis
    by (simp add: wr32_def)
qed

lemma rd32_cong:
  assumes "m a = m' a" "m (a + 1) = m' (a + 1)" "m (a + 2) = m' (a + 2)" "m (a + 3) = m' (a + 3)"
  shows "rd32 m a = rd32 m' a"
  using assms by (simp add: rd32_def)

lemma word32_split_bytes:
  fixes b0 b1 b2 b3 :: u8
  defines "v \<equiv> ucast b0 OR push_bit 8 (ucast b1) OR push_bit 16 (ucast b2) OR push_bit 24 (ucast b3) :: u32"
  shows "ucast v = b0" "ucast (drop_bit 8 v) = b1" "ucast (drop_bit 16 v) = b2" "ucast (drop_bit 24 v) = b3"
  unfolding v_def by (rule bit_word_eqI; auto simp: bit_simps dest: bit_imp_le_length)+

lemma wr32_rd32 [simp]: "wr32 m a (rd32 m a) = m"
  unfolding wr32_def rd32_def word32_split_bytes by simp

text \<open>\<open>only A m m'\<close>: going from \<open>m\<close> to \<open>m'\<close> changes at most the bytes with addresses in \<open>A\<close>.\<close>

definition only :: "nat set \<Rightarrow> memory \<Rightarrow> memory \<Rightarrow> bool" where
  "only A m m' \<longleftrightarrow> (\<forall>a. unat a \<notin> A \<longrightarrow> m' a = m a)"

lemma only_refl [simp]: "only A m m"
  by (simp add: only_def)

lemma only_trans: "only A m m' \<Longrightarrow> only A m' m'' \<Longrightarrow> only A m m''"
  by (simp add: only_def)

lemma only_mono: "only A m m' \<Longrightarrow> A \<subseteq> B \<Longrightarrow> only B m m'"
  by (auto simp: only_def)

lemma unat_offset: "unat (a :: u32) + k < 2 ^ 32 \<Longrightarrow> unat (a + of_nat k) = unat a + k"
  by (simp add: unat_word_ariths unat_of_nat)

lemma unat_add_small: "unat (a :: u32) + unat b < 2 ^ 32 \<Longrightarrow> unat (a + b) = unat a + unat b"
  by (simp add: unat_word_ariths)

lemma rd32_only:
  assumes "only A m m'" and "unat r + 4 \<le> 2 ^ 32" and "{unat r..<unat r + 4} \<inter> A = {}"
  shows "rd32 m' r = rd32 m r"
proof (rule rd32_cong)
  have *: "m' (r + of_nat k) = m (r + of_nat k)" if "k < 4" for k
  proof -
    have "unat (r + of_nat k) = unat r + k" using assms(2) that by (intro unat_offset) simp
    then have "unat (r + of_nat k) \<notin> A" using assms(3) that by (simp add: disjoint_iff)
    then show ?thesis using assms(1) by (simp add: only_def)
  qed
  show "m' r = m r" "m' (r + 1) = m (r + 1)" "m' (r + 2) = m (r + 2)" "m' (r + 3) = m (r + 3)"
    using *[of 0] *[of 1] *[of 2] *[of 3] by simp_all
qed

lemma wr32_only:
  assumes "unat w + 4 \<le> 2 ^ 32"
  shows "only {unat w..<unat w + 4} m (wr32 m w v)"
  unfolding only_def
proof (intro allI impI)
  fix a :: u32
  assume a: "unat a \<notin> {unat w..<unat w + 4}"
  have "4 \<le> unat (a - w)"
    using a assms unat_sub_if'[of a w] unsigned_less[of a, where 'a = nat]
    by (auto split: if_splits)
  then show "wr32 m w v a = m a" by (rule wr32_other)
qed

text \<open>The same for addresses that both fit below the top of memory.\<close>

lemma rd32_wr32_disjoint:
  assumes "unat w + 4 \<le> 2 ^ 32" and "unat r + 4 \<le> 2 ^ 32"
    and "unat w + 4 \<le> unat r \<or> unat r + 4 \<le> unat w"
  shows "rd32 (wr32 m w v) r = rd32 m r"
  using assms by (intro rd32_only[OF wr32_only]) auto

end
