(* ===== verification/Pmm.thy ===== *)
theory Pmm
  imports Nemo_Prelude
begin

text \<open>
  The physical page allocator, \<open>src/src/memory/pmm_bitmap.cpp\<close>: one bit per
  4096-byte page in a static byte array, a count of pages and a count of used
  pages. The state is a record that the later components extend with their own
  static variables, so every operation here is defined on its extensions too.
  Array indices are checked: an index outside \<open>bitmap\<close> is the fault
  \<open>Out_of_bounds\<close>.
\<close>

section \<open>State and operations\<close>

definition PAGE_SIZE :: u32 where
  "PAGE_SIZE = 4096"

definition MAX_PAGES :: nat where
  "MAX_PAGES = (1024 * 1024 * 1024) div 4096"

record pmm_state =
  bitmap :: "u8 list"
  total_pages :: u32
  used_pages :: u32

definition pmm_set_bit :: "u8 list \<Rightarrow> u32 \<Rightarrow> u8 list res" where
  "pmm_set_bit bm b =
     bindR (array_get bm (unat (b div 8))) (\<lambda>x.
     array_set bm (unat (b div 8)) (x OR push_bit (unat (b mod 8)) 1))"

definition pmm_clear_bit :: "u8 list \<Rightarrow> u32 \<Rightarrow> u8 list res" where
  "pmm_clear_bit bm b =
     bindR (array_get bm (unat (b div 8))) (\<lambda>x.
     array_set bm (unat (b div 8)) (x AND NOT (push_bit (unat (b mod 8)) 1)))"

definition pmm_test_bit :: "u8 list \<Rightarrow> u32 \<Rightarrow> bool res" where
  "pmm_test_bit bm b =
     bindR (array_get bm (unat (b div 8))) (\<lambda>x.
     Inr (x AND push_bit (unat (b mod 8)) 1 \<noteq> 0))"

definition RESERVED_PAGES :: u32 where
  "RESERVED_PAGES = 1024"

text \<open>The second loop of \<open>pmm_init\<close>: \<open>for(i = 0; i < used_pages; i++) set_bit(i)\<close>.\<close>

function pmm_reserve :: "u32 \<Rightarrow> u32 \<Rightarrow> u8 list \<Rightarrow> u8 list res" where
  "pmm_reserve i n bm =
     (if i < n then bindR (pmm_set_bit bm i) (pmm_reserve (i + 1) n) else Inr bm)"
  by pat_completeness auto
termination
proof (relation "measure (\<lambda>(i, n, bm). unat n - unat i)")
  fix i n :: u32 and bm x :: "u8 list"
  assume "i < n"
  then show "((i + 1, n, x), (i, n, bm)) \<in> measure (\<lambda>(i, n, bm). unat n - unat i)"
    by simp unat_arith
qed simp

definition pmm_init :: "u32 \<Rightarrow> 'z pmm_state_scheme \<Rightarrow> 'z pmm_state_scheme res" where
  "pmm_init memory_mb s =
     (let pages = (memory_mb * 1024 * 1024) div PAGE_SIZE;
          used = (if RESERVED_PAGES > pages then pages else RESERVED_PAGES)
      in bindR (pmm_reserve 0 used (replicate (MAX_PAGES div 8) 0)) (\<lambda>bm.
         Inr (s\<lparr>bitmap := bm, total_pages := pages, used_pages := used\<rparr>)))"

text \<open>The search loop of \<open>pmm_alloc_page\<close>: the first page index from \<open>i\<close> on
  whose bit is clear.\<close>

function pmm_scan :: "u32 \<Rightarrow> u32 \<Rightarrow> u8 list \<Rightarrow> u32 option res" where
  "pmm_scan i n bm =
     (if i < n
      then bindR (pmm_test_bit bm i) (\<lambda>used.
           if \<not> used then Inr (Some i) else pmm_scan (i + 1) n bm)
      else Inr None)"
  by pat_completeness auto
termination
proof (relation "measure (\<lambda>(i, n, bm). unat n - unat i)")
  fix i n :: u32 and bm :: "u8 list" and x :: bool
  assume "i < n"
  then show "((i + 1, n, bm), (i, n, bm)) \<in> measure (\<lambda>(i, n, bm). unat n - unat i)"
    by simp unat_arith
qed simp

declare pmm_reserve.simps [simp del] pmm_scan.simps [simp del]

definition pmm_alloc_page :: "'z pmm_state_scheme \<Rightarrow> (u32 \<times> 'z pmm_state_scheme) res" where
  "pmm_alloc_page s =
     bindR (pmm_scan 0 (total_pages s) (bitmap s)) (\<lambda>found.
     case found of
       None \<Rightarrow> Inr (nullptr, s)
     | Some i \<Rightarrow>
         bindR (pmm_set_bit (bitmap s) i) (\<lambda>bm.
         Inr (i * PAGE_SIZE, s\<lparr>bitmap := bm, used_pages := used_pages s + 1\<rparr>)))"

definition pmm_free_page :: "u32 \<Rightarrow> 'z pmm_state_scheme \<Rightarrow> 'z pmm_state_scheme res" where
  "pmm_free_page page s =
     (let index = page div PAGE_SIZE
      in if index \<ge> total_pages s then Inr s
         else bindR (pmm_test_bit (bitmap s) index) (\<lambda>used.
              if used
              then bindR (pmm_clear_bit (bitmap s) index) (\<lambda>bm.
                   Inr (s\<lparr>bitmap := bm, used_pages := used_pages s - 1\<rparr>))
              else Inr s))"

definition pmm_free_pages :: "'z pmm_state_scheme \<Rightarrow> u32" where
  "pmm_free_pages s = total_pages s - used_pages s"

definition pmm_used_pages :: "'z pmm_state_scheme \<Rightarrow> u32" where
  "pmm_used_pages s = used_pages s"

definition pmm_total_pages :: "'z pmm_state_scheme \<Rightarrow> u32" where
  "pmm_total_pages s = total_pages s"

section \<open>Bits of the bitmap\<close>

text \<open>The abstract reading of the bitmap: page \<open>i\<close> is in use when its bit is set.\<close>

definition page_used :: "u8 list \<Rightarrow> nat \<Rightarrow> bool" where
  "page_used bm i = bit (bm ! (i div 8)) (i mod 8)"

definition used_set :: "'z pmm_state_scheme \<Rightarrow> nat set" where
  "used_set s = {i. i < unat (total_pages s) \<and> page_used (bitmap s) i}"

lemma index_in_bitmap: "(unat b div 8 < length (bm :: u8 list)) = (unat b < 8 * length bm)"
  by (simp add: div_less_iff_less_mult mult.commute)

lemma unat_div8 [simp]: "unat ((b :: u32) div 8) = unat b div 8"
  by (simp add: unat_div)

lemma unat_mod8 [simp]: "unat ((b :: u32) mod 8) = unat b mod 8"
  by (simp add: unat_mod)

lemma pmm_test_bit_eq:
  "unat b < 8 * length bm \<Longrightarrow> pmm_test_bit bm b = Inr (page_used bm (unat b))"
  by (simp add: pmm_test_bit_def index_in_bitmap page_used_def push_bit_eq_mult
      and_exp_eq_0_iff_not_bit)

lemma page_used_set:
  assumes "i < 8 * length bm"
  shows "page_used (bm[i div 8 := bm ! (i div 8) OR push_bit (i mod 8) 1]) j
    = (j = i \<or> page_used bm j)"
proof (cases "j div 8 = i div 8")
  case True
  then have "j = i \<longleftrightarrow> j mod 8 = i mod 8"
    by (metis div_mod_decomp)
  then show ?thesis using assms True
    by (auto simp: page_used_def bit_simps div_less_iff_less_mult mult.commute)
next
  case False
  then show ?thesis by (auto simp: page_used_def)
qed

lemma page_used_clear:
  assumes "i < 8 * length bm"
  shows "page_used (bm[i div 8 := bm ! (i div 8) AND NOT (push_bit (i mod 8) 1)]) j
    = (j \<noteq> i \<and> page_used bm j)"
proof (cases "j div 8 = i div 8")
  case True
  then have "j = i \<longleftrightarrow> j mod 8 = i mod 8"
    by (metis div_mod_decomp)
  then show ?thesis using assms True
    by (auto simp: page_used_def bit_simps div_less_iff_less_mult mult.commute)
next
  case False
  then show ?thesis by (auto simp: page_used_def)
qed

lemma pmm_set_bit_ok:
  assumes "unat b < 8 * length bm"
  obtains bm' where "pmm_set_bit bm b = Inr bm'" and "length bm' = length bm"
    and "\<And>j. page_used bm' j = (j = unat b \<or> page_used bm j)"
  using assms by (simp add: pmm_set_bit_def index_in_bitmap page_used_set [simplified])

lemma pmm_clear_bit_ok:
  assumes "unat b < 8 * length bm"
  obtains bm' where "pmm_clear_bit bm b = Inr bm'" and "length bm' = length bm"
    and "\<And>j. page_used bm' j = (j \<noteq> unat b \<and> page_used bm j)"
  using assms by (simp add: pmm_clear_bit_def index_in_bitmap page_used_clear [simplified])

section \<open>The loops\<close>

lemma unat_Suc_less: "(i :: u32) < n \<Longrightarrow> unat (i + 1) = Suc (unat i)"
  by unat_arith

lemma pmm_scan_ok:
  assumes "unat n \<le> 8 * length bm"
  shows "case pmm_scan i n bm of
      Inl e \<Rightarrow> False
    | Inr None \<Rightarrow> \<forall>j. unat i \<le> j \<and> j < unat n \<longrightarrow> page_used bm j
    | Inr (Some k) \<Rightarrow> i \<le> k \<and> k < n \<and> \<not> page_used bm (unat k)
        \<and> (\<forall>j. unat i \<le> j \<and> j < unat k \<longrightarrow> page_used bm j)"
  using assms
proof (induction i n bm rule: pmm_scan.induct)
  case (1 i n bm)
  show ?case
  proof (cases "i < n")
    case False
    then show ?thesis
      by (auto simp: pmm_scan.simps[of i n bm] word_less_nat_alt)
  next
    case True
    then have t: "pmm_test_bit bm i = Inr (page_used bm (unat i))"
      using "1.prems" by (intro pmm_test_bit_eq) (auto simp: word_less_nat_alt)
    show ?thesis
    proof (cases "page_used bm (unat i)")
      case False
      then show ?thesis using True t by (auto simp: pmm_scan.simps[of i n bm])
    next
      case used: True
      have eq: "pmm_scan i n bm = pmm_scan (i + 1) n bm"
        using True t used by (simp add: pmm_scan.simps[of i n bm])
      have step: "unat i \<le> j \<longleftrightarrow> j = unat i \<or> unat (i + 1) \<le> j" for j
        using unat_Suc_less[OF True] by auto
      have le: "i + 1 \<le> k \<Longrightarrow> i \<le> k" for k
        using unat_Suc_less[OF True] by (simp add: word_le_nat_alt)
      show ?thesis
        using "1.IH"[OF True _ "1.prems", of True] used
        unfolding eq by (auto simp: step split: sum.splits option.splits intro: le)
    qed
  qed
qed

lemma pmm_reserve_ok:
  assumes "unat n \<le> 8 * length bm"
  shows "\<exists>bm'. pmm_reserve i n bm = Inr bm' \<and> length bm' = length bm
    \<and> (\<forall>j. page_used bm' j = (unat i \<le> j \<and> j < unat n \<or> page_used bm j))"
  using assms
proof (induction i n bm rule: pmm_reserve.induct)
  case (1 i n bm)
  show ?case
  proof (cases "i < n")
    case False
    then show ?thesis
      by (auto simp: pmm_reserve.simps[of i n bm] word_less_nat_alt)
  next
    case True
    then have "unat i < 8 * length bm"
      using "1.prems" by (auto simp: word_less_nat_alt)
    then obtain bm1 where b1: "pmm_set_bit bm i = Inr bm1" "length bm1 = length bm"
      "\<And>j. page_used bm1 j = (j = unat i \<or> page_used bm j)"
      by (rule pmm_set_bit_ok) blast
    have eq: "pmm_reserve i n bm = pmm_reserve (i + 1) n bm1"
      using True b1 by (simp add: pmm_reserve.simps[of i n bm])
    have step: "unat i \<le> j \<and> j < unat n \<longleftrightarrow> j = unat i \<or> unat (i + 1) \<le> j \<and> j < unat n" for j
      using True unat_Suc_less[OF True] by (auto simp: word_less_nat_alt)
    obtain bm' where "pmm_reserve (i + 1) n bm1 = Inr bm'" "length bm' = length bm1"
      "\<forall>j. page_used bm' j = (unat (i + 1) \<le> j \<and> j < unat n \<or> page_used bm1 j)"
      using "1.IH"[OF True, of bm1] "1.prems" b1(2) by auto
    then show ?thesis unfolding eq by (auto simp: b1 step)
  qed
qed

section \<open>The invariant and the operations\<close>

text \<open>
  The invariant: the array has its declared size, no page beyond it is managed,
  page 0 is in use (its address is the null pointer), and the counter agrees
  with the bitmap.
\<close>

definition pmm_inv :: "'z pmm_state_scheme \<Rightarrow> bool" where
  "pmm_inv s \<longleftrightarrow> length (bitmap s) = MAX_PAGES div 8 \<and> unat (total_pages s) \<le> MAX_PAGES
     \<and> 0 \<in> used_set s \<and> unat (used_pages s) = card (used_set s)"

lemma MAX_PAGES_eq [simp]: "MAX_PAGES = 262144"
  by (simp add: MAX_PAGES_def)

lemma bitmap_covers: "pmm_inv s \<Longrightarrow> unat (total_pages s) \<le> 8 * length (bitmap s)"
  by (simp add: pmm_inv_def)

lemma used_set_subset: "used_set s \<subseteq> {..<unat (total_pages s)}"
  by (auto simp: used_set_def)

lemma finite_used_set [simp]: "finite (used_set s)"
  by (rule finite_subset[OF used_set_subset]) simp

lemma card_used_set: "card (used_set s) \<le> unat (total_pages s)"
  using card_mono[OF _ used_set_subset] by auto

lemma pmm_init_ok:
  assumes "1 \<le> mb" and "mb \<le> 1024"
  shows "\<exists>s'. pmm_init mb s = Inr s' \<and> pmm_inv s' \<and> unat (total_pages s') = 256 * unat mb
    \<and> used_set s' = {..<min 1024 (256 * unat mb)}"
proof -
  define pages :: u32 where "pages = (mb * 1024 * 1024) div PAGE_SIZE"
  define used :: u32 where "used = (if RESERVED_PAGES > pages then pages else RESERVED_PAGES)"
  have mb: "1 \<le> unat mb" "unat mb \<le> 1024"
    using assms by (simp_all add: word_le_nat_alt)
  have "unat (mb * 1024 * 1024) = unat mb * 1048576"
    using mb by (simp add: unat_word_ariths)
  then have pages: "unat pages = 256 * unat mb"
    by (simp add: pages_def PAGE_SIZE_def unat_div)
  have used: "unat used = min 1024 (256 * unat mb)"
    using pages by (auto simp: used_def RESERVED_PAGES_def word_less_nat_alt)
  have "unat used \<le> 8 * length (replicate (MAX_PAGES div 8) (0 :: u8))"
    using used mb by simp
  from pmm_reserve_ok[OF this, of 0] obtain bm where
    bm: "pmm_reserve 0 used (replicate (MAX_PAGES div 8) 0) = Inr bm" "length bm = MAX_PAGES div 8"
    and pu: "\<forall>j. page_used bm j = (j < unat used \<or> page_used (replicate (MAX_PAGES div 8) 0) j)"
    by auto
  have zero: "\<not> page_used (replicate (MAX_PAGES div 8) 0) j" if "j < unat pages" for j
    using that pages mb by (simp add: page_used_def div_less_iff_less_mult)
  define s' where "s' = s\<lparr>bitmap := bm, total_pages := pages, used_pages := used\<rparr>"
  have us: "used_set s' = {..<min 1024 (256 * unat mb)}"
    using pages used pu zero by (auto simp: used_set_def s'_def)
  have "pmm_inv s'"
    using us bm pages used mb by (simp add: pmm_inv_def s'_def)
  moreover have "pmm_init mb s = Inr s'"
    using bm unfolding pmm_init_def Let_def pages_def[symmetric] used_def[symmetric]
    by (simp add: s'_def)
  ultimately show ?thesis using us pages by (auto simp: s'_def)
qed

lemma pmm_alloc_full:
  assumes "pmm_inv s" and "used_set s = {..<unat (total_pages s)}"
  shows "pmm_alloc_page s = Inr (nullptr, s)"
  using pmm_scan_ok[OF bitmap_covers[OF assms(1)], of 0] assms(2)
  by (auto simp: pmm_alloc_page_def used_set_def word_less_nat_alt split: sum.splits option.splits)

lemma pmm_alloc_lowest:
  assumes inv: "pmm_inv s" and free: "used_set s \<noteq> {..<unat (total_pages s)}"
  shows "\<exists>i bm. pmm_alloc_page s = Inr (i * PAGE_SIZE, s\<lparr>bitmap := bm, used_pages := used_pages s + 1\<rparr>)
    \<and> unat i = Min ({..<unat (total_pages s)} - used_set s) \<and> i < total_pages s
    \<and> used_set (s\<lparr>bitmap := bm, used_pages := used_pages s + 1\<rparr>) = insert (unat i) (used_set s)
    \<and> pmm_inv (s\<lparr>bitmap := bm, used_pages := used_pages s + 1\<rparr>)"
proof -
  let ?n = "total_pages s" and ?bm = "bitmap s"
  note scan = pmm_scan_ok[OF bitmap_covers[OF inv], of 0]
  obtain r where r: "pmm_scan 0 ?n ?bm = Inr r"
    using scan by (cases "pmm_scan 0 ?n ?bm") auto
  obtain i where i: "r = Some i"
    using scan free by (cases r) (auto simp: r used_set_def)
  have lt: "i < ?n" and unused: "\<not> page_used ?bm (unat i)"
    and below: "\<And>j. j < unat i \<Longrightarrow> page_used ?bm j"
    using scan by (auto simp: r i)
  have iu: "unat i < unat ?n" using lt by (simp add: word_less_nat_alt)
  then have "unat i < 8 * length ?bm" using bitmap_covers[OF inv] by simp
  then obtain bm where bm: "pmm_set_bit ?bm i = Inr bm" "length bm = length ?bm"
    "\<And>j. page_used bm j = (j = unat i \<or> page_used ?bm j)"
    by (rule pmm_set_bit_ok) blast
  let ?s = "s\<lparr>bitmap := bm, used_pages := used_pages s + 1\<rparr>"
  have min: "unat i = Min ({..<unat ?n} - used_set s)"
    using iu unused below
    by (intro Min_eqI[symmetric]) (auto simp: used_set_def not_less[symmetric])
  have us: "used_set ?s = insert (unat i) (used_set s)"
    using iu bm(3) by (auto simp: used_set_def)
  have notin: "unat i \<notin> used_set s" using unused by (simp add: used_set_def)
  have "card (used_set s) < unat ?n"
    using psubset_card_mono[of "{..<unat ?n}" "used_set s"] used_set_subset[of s] free by auto
  then have "unat (used_pages s + 1) = Suc (card (used_set s))"
    using inv by (simp add: pmm_inv_def unat_word_ariths)
  then have "pmm_inv ?s"
    using inv us notin bm(2) by (simp add: pmm_inv_def)
  moreover have "pmm_alloc_page s = Inr (i * PAGE_SIZE, ?s)"
    using r i bm(1) by (simp add: pmm_alloc_page_def)
  ultimately show ?thesis using min lt us by blast
qed

lemma pmm_free_used:
  assumes inv: "pmm_inv s" and used: "unat (p div PAGE_SIZE) \<in> used_set s"
    and nz: "unat (p div PAGE_SIZE) \<noteq> 0"
  shows "\<exists>bm. pmm_free_page p s = Inr (s\<lparr>bitmap := bm, used_pages := used_pages s - 1\<rparr>)
    \<and> used_set (s\<lparr>bitmap := bm, used_pages := used_pages s - 1\<rparr>)
        = used_set s - {unat (p div PAGE_SIZE)}
    \<and> pmm_inv (s\<lparr>bitmap := bm, used_pages := used_pages s - 1\<rparr>)"
proof -
  define i where "i = p div PAGE_SIZE"
  have i: "i < total_pages s" "page_used (bitmap s) (unat i)"
    using used by (auto simp: used_set_def i_def word_less_nat_alt)
  then have in_bm: "unat i < 8 * length (bitmap s)"
    using bitmap_covers[OF inv] by (auto simp: word_less_nat_alt)
  from in_bm obtain bm where bm: "pmm_clear_bit (bitmap s) i = Inr bm"
    "length bm = length (bitmap s)" "\<And>j. page_used bm j = (j \<noteq> unat i \<and> page_used (bitmap s) j)"
    by (rule pmm_clear_bit_ok) blast
  let ?s = "s\<lparr>bitmap := bm, used_pages := used_pages s - 1\<rparr>"
  have us: "used_set ?s = used_set s - {unat i}"
    using bm(3) by (auto simp: used_set_def)
  have "0 < card (used_set s)"
    using inv by (auto simp: card_gt_0_iff pmm_inv_def)
  then have "unat (used_pages s - 1) = card (used_set s) - 1"
    using inv by (simp add: pmm_inv_def unat_sub_if' word_le_nat_alt)
  then have "pmm_inv ?s"
    using inv us used nz bm(2) by (simp add: pmm_inv_def i_def card_Diff_singleton)
  moreover have "pmm_free_page p s = Inr ?s"
    using i pmm_test_bit_eq[OF in_bm] bm(1)
    by (simp add: pmm_free_page_def Let_def i_def)
  ultimately show ?thesis using us by (auto simp: i_def)
qed

lemma pmm_free_unused:
  assumes "pmm_inv s" and "unat (p div PAGE_SIZE) \<notin> used_set s"
  shows "pmm_free_page p s = Inr s"
proof (cases "p div PAGE_SIZE < total_pages s")
  case True
  then have "unat (p div PAGE_SIZE) < 8 * length (bitmap s)"
    using bitmap_covers[OF assms(1)] by (auto simp: word_less_nat_alt)
  from pmm_test_bit_eq[OF this] True assms(2) show ?thesis
    by (auto simp: pmm_free_page_def Let_def used_set_def word_less_nat_alt)
next
  case False
  then show ?thesis by (simp add: pmm_free_page_def Let_def not_less)
qed

section \<open>The allocator's contract\<close>

text \<open>
  What the clients (the heap, the page tables, kernel stacks and user pages) rely
  on, over addresses of pages: a fresh page is one that was free, the lowest one;
  the null pointer is returned only when nothing is free; freeing an allocated
  page makes exactly that page free.
\<close>

locale page_allocator =
  fixes alloc :: "'s \<Rightarrow> (u32 \<times> 's) res"
    and free :: "u32 \<Rightarrow> 's \<Rightarrow> 's res"
    and inv :: "'s \<Rightarrow> bool"
    and pages :: "'s \<Rightarrow> u32 set"
    and allocated :: "'s \<Rightarrow> u32 set"
  assumes null_allocated: "inv s \<Longrightarrow> nullptr \<in> allocated s"
    and allocated_pages: "allocated s \<subseteq> pages s"
    and alloc_none: "inv s \<Longrightarrow> allocated s = pages s \<Longrightarrow> alloc s = Inr (nullptr, s)"
    and alloc_some: "inv s \<Longrightarrow> allocated s \<noteq> pages s \<Longrightarrow>
      \<exists>p s'. alloc s = Inr (p, s') \<and> p \<in> pages s - allocated s
        \<and> (\<forall>q \<in> pages s - allocated s. p \<le> q)
        \<and> inv s' \<and> pages s' = pages s \<and> allocated s' = insert p (allocated s)"
    and free_allocated: "inv s \<Longrightarrow> p \<in> allocated s \<Longrightarrow> p \<noteq> nullptr \<Longrightarrow>
      \<exists>s'. free p s = Inr s' \<and> inv s' \<and> pages s' = pages s \<and> allocated s' = allocated s - {p}"
begin

lemma alloc_returns:
  assumes "inv s"
  obtains p s' where "alloc s = Inr (p, s')" and "inv s'" and "pages s' = pages s"
  using alloc_none[OF assms] alloc_some[OF assms] assms by (metis Diff_iff)

lemma alloc_fresh:
  assumes "inv s" and "alloc s = Inr (p, s')" and "p \<noteq> nullptr"
  shows "p \<in> pages s - allocated s" and "inv s'" and "pages s' = pages s"
    and "allocated s' = insert p (allocated s)" and "\<forall>q \<in> pages s - allocated s. p \<le> q"
  using alloc_none[OF assms(1)] alloc_some[OF assms(1)] assms(2,3)
  by (cases "allocated s = pages s"; force)+

lemma alloc_null:
  assumes "inv s" and "alloc s = Inr (nullptr, s')"
  shows "allocated s = pages s" and "s' = s"
  using alloc_none[OF assms(1)] alloc_some[OF assms(1)] assms(2) null_allocated[OF assms(1)]
  by (cases "allocated s = pages s"; force)+

text \<open>Two pages in hand are different pages.\<close>

lemma alloc_twice:
  assumes "inv s" and "alloc s = Inr (p, s1)" and "alloc s1 = Inr (q, s2)" and "q \<noteq> nullptr"
  shows "p \<noteq> nullptr" and "p \<noteq> q" and "p < q" and "inv s2" and "pages s2 = pages s"
    and "allocated s2 = insert q (insert p (allocated s))"
proof -
  show p: "p \<noteq> nullptr"
    using alloc_null[OF assms(1)] alloc_none[OF assms(1)] assms by auto
  note fp = alloc_fresh[OF assms(1,2) p]
  note fq = alloc_fresh[OF fp(2) assms(3,4)]
  show "p \<noteq> q" using fp fq by auto
  moreover have "p \<le> q" using fp fq by auto
  ultimately show "p < q" by simp
  show "inv s2" "pages s2 = pages s" "allocated s2 = insert q (insert p (allocated s))"
    using fp fq by simp_all
qed

text \<open>The choice of page depends on nothing but which pages are allocated.\<close>

lemma alloc_same_choice:
  assumes "inv s" and "inv t" and "pages t = pages s" and "allocated t = allocated s"
    and "alloc s = Inr (p, s')" and "alloc t = Inr (q, t')"
  shows "q = p \<and> allocated t' = allocated s'"
proof (cases "allocated s = pages s")
  case True
  then show ?thesis using alloc_none assms by (metis Inr_inject prod.inject)
next
  case False
  then show ?thesis
    using alloc_some[OF assms(1)] alloc_some[OF assms(2)] assms(3-6)
    by (auto intro: order.antisym)
qed

lemma free_after_alloc:
  assumes "inv s" and "alloc s = Inr (p, s1)" and "p \<noteq> nullptr"
  obtains s2 where "free p s1 = Inr s2" and "inv s2" and "pages s2 = pages s"
    and "allocated s2 = allocated s"
proof -
  note f = alloc_fresh[OF assms]
  have "p \<in> allocated s1" using f by simp
  from free_allocated[OF f(2) this assms(3)] f show ?thesis
    by (auto intro: that)
qed

end

definition page_addr :: "nat \<Rightarrow> u32" where
  "page_addr i = of_nat i * PAGE_SIZE"

definition pmm_pages :: "'z pmm_state_scheme \<Rightarrow> u32 set" where
  "pmm_pages s = page_addr ` {..<unat (total_pages s)}"

definition pmm_allocated :: "'z pmm_state_scheme \<Rightarrow> u32 set" where
  "pmm_allocated s = page_addr ` used_set s"

lemma unat_page_addr: "i < 1048576 \<Longrightarrow> unat (page_addr i) = i * 4096"
  by (simp add: page_addr_def PAGE_SIZE_def unat_word_ariths unat_of_nat)

lemma page_addr_inject: "i < 1048576 \<Longrightarrow> j < 1048576 \<Longrightarrow> page_addr i = page_addr j \<longleftrightarrow> i = j"
  by (metis unat_page_addr mult_cancel2 zero_neq_numeral)

lemma page_addr_index: "i < 1048576 \<Longrightarrow> unat (page_addr i div PAGE_SIZE) = i"
  by (simp add: unat_div unat_page_addr PAGE_SIZE_def)

lemma page_addr_unat: "page_addr (unat i) = i * PAGE_SIZE"
  by (simp add: page_addr_def)

lemma pmm_total_bound: "pmm_inv s \<Longrightarrow> i < unat (total_pages s) \<Longrightarrow> i < 1048576"
  by (simp add: pmm_inv_def)

lemma pmm_all_allocated_iff:
  assumes "pmm_inv s"
  shows "pmm_allocated s = pmm_pages s \<longleftrightarrow> used_set s = {..<unat (total_pages s)}"
proof
  assume eq: "pmm_allocated s = pmm_pages s"
  show "used_set s = {..<unat (total_pages s)}"
  proof (rule equalityI[OF used_set_subset], rule subsetI)
    fix i assume i: "i \<in> {..<unat (total_pages s)}"
    then have "page_addr i \<in> pmm_allocated s" using eq by (auto simp: pmm_pages_def)
    then obtain j where j: "j \<in> used_set s" "page_addr i = page_addr j"
      by (auto simp: pmm_allocated_def)
    then have "j < unat (total_pages s)" using used_set_subset by auto
    then show "i \<in> used_set s"
      using i j page_addr_inject[of i j] pmm_total_bound[OF assms] by auto
  qed
qed (simp add: pmm_allocated_def pmm_pages_def)

lemma pmm_frame [simp]:
  "total_pages (s\<lparr>bitmap := bm, used_pages := u\<rparr>) = total_pages s"
  "pmm_pages (s\<lparr>bitmap := bm, used_pages := u\<rparr>) = pmm_pages s"
  by (simp_all add: pmm_pages_def)

lemma pmm_allocated_frame: "used_set t = A \<Longrightarrow> pmm_allocated t = page_addr ` A"
  by (simp add: pmm_allocated_def)

lemma pmm_unallocated:
  assumes "pmm_inv s"
  shows "pmm_pages s - pmm_allocated s = page_addr ` ({..<unat (total_pages s)} - used_set s)"
proof -
  have "inj_on page_addr {..<unat (total_pages s)}"
    using page_addr_inject pmm_total_bound[OF assms] by (auto intro!: inj_onI)
  then show ?thesis
    using used_set_subset[of s] by (auto simp: pmm_pages_def pmm_allocated_def inj_on_image_set_diff)
qed

interpretation pmm: page_allocator pmm_alloc_page pmm_free_page pmm_inv pmm_pages pmm_allocated
proof
  fix s :: "'z pmm_state_scheme"
  show "pmm_allocated s \<subseteq> pmm_pages s"
    using used_set_subset[of s] by (auto simp: pmm_allocated_def pmm_pages_def)
  assume inv: "pmm_inv s"
  then have "page_addr 0 \<in> pmm_allocated s"
    unfolding pmm_allocated_def by (intro imageI) (simp add: pmm_inv_def)
  then show "nullptr \<in> pmm_allocated s"
    by (simp add: page_addr_def)
  show "pmm_alloc_page s = Inr (nullptr, s)" if "pmm_allocated s = pmm_pages s"
    using pmm_alloc_full[OF inv] that by (simp add: pmm_all_allocated_iff[OF inv])
  show "\<exists>p s'. pmm_alloc_page s = Inr (p, s') \<and> p \<in> pmm_pages s - pmm_allocated s
      \<and> (\<forall>q \<in> pmm_pages s - pmm_allocated s. p \<le> q)
      \<and> pmm_inv s' \<and> pmm_pages s' = pmm_pages s \<and> pmm_allocated s' = insert p (pmm_allocated s)"
    if "pmm_allocated s \<noteq> pmm_pages s"
  proof -
    let ?F = "{..<unat (total_pages s)} - used_set s"
    have ne: "used_set s \<noteq> {..<unat (total_pages s)}"
      using that by (simp add: pmm_all_allocated_iff[OF inv])
    then have "?F \<noteq> {}" using used_set_subset[of s] by blast
    then have min: "Min ?F \<in> ?F" "\<forall>j \<in> ?F. Min ?F \<le> j"
      using Min_in[of ?F] by auto
    have le: "page_addr (Min ?F) \<le> page_addr j" if "j \<in> ?F" for j
      using that min pmm_total_bound[OF inv]
      by (simp add: word_le_nat_alt unat_page_addr)
    from pmm_alloc_lowest[OF inv ne] obtain i bm where a:
      "pmm_alloc_page s = Inr (i * PAGE_SIZE, s\<lparr>bitmap := bm, used_pages := used_pages s + 1\<rparr>)"
      "unat i = Min ?F"
      "used_set (s\<lparr>bitmap := bm, used_pages := used_pages s + 1\<rparr>) = insert (unat i) (used_set s)"
      "pmm_inv (s\<lparr>bitmap := bm, used_pages := used_pages s + 1\<rparr>)" by blast
    have addr: "i * PAGE_SIZE = page_addr (Min ?F)"
      using a(2) page_addr_unat[of i] by simp
    then have "i * PAGE_SIZE \<in> pmm_pages s - pmm_allocated s"
      and "\<forall>q \<in> pmm_pages s - pmm_allocated s. i * PAGE_SIZE \<le> q"
      using min le unfolding pmm_unallocated[OF inv] by auto
    then show ?thesis
      using a(1,3,4) by (auto simp: pmm_allocated_def page_addr_unat)
  qed
  show "\<exists>s'. pmm_free_page p s = Inr s' \<and> pmm_inv s' \<and> pmm_pages s' = pmm_pages s
      \<and> pmm_allocated s' = pmm_allocated s - {p}"
    if "p \<in> pmm_allocated s" and "p \<noteq> nullptr" for p
  proof -
    from that obtain i where i: "i \<in> used_set s" "p = page_addr i"
      by (auto simp: pmm_allocated_def)
    have "i \<noteq> 0"
      using that(2) unfolding i(2) by (intro notI) (simp add: page_addr_def)
    note i = i this
    have lt: "j < 1048576" if "j \<in> used_set s" for j
      using that used_set_subset[of s] pmm_total_bound[OF inv] by blast
    have idx: "unat (p div PAGE_SIZE) = i"
      using i lt by (simp add: page_addr_index)
    have "page_addr ` (used_set s - {i}) = page_addr ` used_set s - {p}"
      using i lt page_addr_inject by auto
    then show ?thesis
      using pmm_free_used[OF inv, of p] i idx by (auto simp: pmm_allocated_def)
  qed
qed

text \<open>No operation touches the components that extend the allocator's state.\<close>

lemma pmm_alloc_more: "pmm_alloc_page s = Inr (p, s') \<Longrightarrow>
    \<exists>bm u. s' = s\<lparr>bitmap := bm, used_pages := u\<rparr>"
proof -
  assume "pmm_alloc_page s = Inr (p, s')"
  then show ?thesis
    by (auto simp: pmm_alloc_page_def res_simps split: option.splits)
      (metis pmm_state.surjective pmm_state.update_convs(1,3))+
qed

lemma pmm_free_more: "pmm_free_page p s = Inr s' \<Longrightarrow>
    \<exists>bm u. s' = s\<lparr>bitmap := bm, used_pages := u\<rparr>"
proof -
  assume "pmm_free_page p s = Inr s'"
  then show ?thesis
    by (auto simp: pmm_free_page_def Let_def res_simps split: if_splits)
      (metis pmm_state.surjective pmm_state.update_convs(1,3))+
qed

section \<open>Sequences of calls\<close>

datatype pmm_call = Alloc_page | Free_page u32

primrec pmm_call_step :: "pmm_call \<Rightarrow> 'z pmm_state_scheme \<Rightarrow> 'z pmm_state_scheme res" where
  "pmm_call_step Alloc_page s = bindR (pmm_alloc_page s) (\<lambda>(p, s'). Inr s')"
| "pmm_call_step (Free_page p) s = pmm_free_page p s"

fun pmm_calls :: "pmm_call list \<Rightarrow> 'z pmm_state_scheme \<Rightarrow> 'z pmm_state_scheme res" where
  "pmm_calls [] s = Inr s"
| "pmm_calls (c # cs) s = bindR (pmm_call_step c s) (pmm_calls cs)"

definition frees_no_null :: "pmm_call list \<Rightarrow> bool" where
  "frees_no_null cs \<longleftrightarrow> (\<forall>p. Free_page p \<in> set cs \<longrightarrow> PAGE_SIZE \<le> p)"

lemma page_index_nonzero: "PAGE_SIZE \<le> p \<Longrightarrow> unat (p div PAGE_SIZE) \<noteq> 0"
  by (simp add: unat_div PAGE_SIZE_def word_le_nat_alt div_eq_0_iff)

lemma pmm_call_step_inv:
  assumes "pmm_inv s" and "\<And>p. c = Free_page p \<Longrightarrow> PAGE_SIZE \<le> p"
  shows "\<exists>s'. pmm_call_step c s = Inr s' \<and> pmm_inv s' \<and> total_pages s' = total_pages s"
proof (cases c)
  case Alloc_page
  show ?thesis
  proof (cases "used_set s = {..<unat (total_pages s)}")
    case True
    then show ?thesis using pmm_alloc_full[OF assms(1)] assms(1) Alloc_page by simp
  next
    case False
    then show ?thesis using pmm_alloc_lowest[OF assms(1)] Alloc_page by fastforce
  qed
next
  case (Free_page p)
  then have nz: "unat (p div PAGE_SIZE) \<noteq> 0"
    using assms(2) by (intro page_index_nonzero) simp
  show ?thesis
  proof (cases "unat (p div PAGE_SIZE) \<in> used_set s")
    case True
    then show ?thesis using pmm_free_used[OF assms(1) True nz] Free_page by fastforce
  next
    case False
    then show ?thesis using pmm_free_unused[OF assms(1)] assms(1) Free_page by simp
  qed
qed

lemma pmm_calls_inv:
  "pmm_inv s \<Longrightarrow> frees_no_null cs \<Longrightarrow>
     \<exists>s'. pmm_calls cs s = Inr s' \<and> pmm_inv s' \<and> total_pages s' = total_pages s"
proof (induction cs arbitrary: s)
  case Nil
  then show ?case by simp
next
  case (Cons c cs)
  from Cons.prems obtain s1 where s1: "pmm_call_step c s = Inr s1" "pmm_inv s1"
    "total_pages s1 = total_pages s"
    using pmm_call_step_inv[of s c] by (auto simp: frees_no_null_def)
  moreover have "frees_no_null cs" using Cons.prems(2) by (simp add: frees_no_null_def)
  ultimately show ?case using Cons.IH[of s1] by auto
qed

section \<open>Properties\<close>

text \<open>C11: Booting the allocator with 1 to 1024 MB establishes the invariant: the bitmap
  covers every managed page, there are 256 pages per megabyte, and exactly the
  first 1024 pages (or all of them, if there are fewer) are in use.\<close>

theorem pmm_init_establishes:
  assumes "1 \<le> mb" and "mb \<le> 1024"
  shows "\<exists>s'. pmm_init mb s = Inr s' \<and> pmm_inv s' \<and> unat (total_pages s') = 256 * unat mb
    \<and> used_set s' = {..<min 1024 (256 * unat mb)}"
  using assms by (rule pmm_init_ok)

theorem pmm_init_establishes_witness:
  "\<exists>s'. pmm_init 32 \<lparr>bitmap = [], total_pages = 0, used_pages = 0\<rparr> = Inr s' \<and> pmm_inv s'
    \<and> unat (total_pages s') = 8192 \<and> used_set s' = {..<1024}"
  using pmm_init_establishes[of 32 "\<lparr>bitmap = [], total_pages = 0, used_pages = 0\<rparr>"] by simp

text \<open>C2: \<open>pmm_alloc_page\<close> always returns. When every page is in use it returns the null
  pointer and changes nothing; otherwise it returns the address of the lowest
  free page, which is not null, marks exactly that page, and the invariant
  (with its exact page count) is kept.\<close>

theorem pmm_alloc_page_lowest_free:
  assumes "pmm_inv s"
  shows "if used_set s = {..<unat (total_pages s)}
    then pmm_alloc_page s = Inr (nullptr, s)
    else \<exists>s'. pmm_alloc_page s = Inr (page_addr (Min ({..<unat (total_pages s)} - used_set s)), s')
      \<and> page_addr (Min ({..<unat (total_pages s)} - used_set s)) \<noteq> nullptr
      \<and> used_set s' = insert (Min ({..<unat (total_pages s)} - used_set s)) (used_set s)
      \<and> pmm_free_pages s' = pmm_free_pages s - 1 \<and> pmm_inv s'"
proof (cases "used_set s = {..<unat (total_pages s)}")
  case True
  then show ?thesis using pmm_alloc_full[OF assms] by simp
next
  case False
  let ?F = "{..<unat (total_pages s)} - used_set s"
  from pmm_alloc_lowest[OF assms False] obtain i bm where a:
    "pmm_alloc_page s = Inr (i * PAGE_SIZE, s\<lparr>bitmap := bm, used_pages := used_pages s + 1\<rparr>)"
    "unat i = Min ?F" "i < total_pages s"
    "used_set (s\<lparr>bitmap := bm, used_pages := used_pages s + 1\<rparr>) = insert (unat i) (used_set s)"
    "pmm_inv (s\<lparr>bitmap := bm, used_pages := used_pages s + 1\<rparr>)" by blast
  have addr: "i * PAGE_SIZE = page_addr (Min ?F)"
    using a(2) page_addr_unat[of i] by simp
  have "i * PAGE_SIZE \<notin> pmm_allocated s"
    using pmm.alloc_some[OF assms] a(1) False by (auto simp: pmm_all_allocated_iff[OF assms])
  then have "page_addr (Min ?F) \<noteq> nullptr"
    using pmm.null_allocated[OF assms] addr by auto
  then show ?thesis using a addr False by (auto simp: pmm_free_pages_def)
qed

theorem pmm_alloc_page_lowest_free_witness:
  "\<exists>s s'. pmm_init 8 \<lparr>bitmap = [], total_pages = 0, used_pages = 0\<rparr> = Inr s
    \<and> pmm_alloc_page s = Inr (0x400000, s')"
proof -
  obtain s where s: "pmm_init 8 \<lparr>bitmap = [], total_pages = 0, used_pages = 0\<rparr> = Inr s"
    "pmm_inv s" "unat (total_pages s) = 2048" "used_set s = {..<1024}"
    using pmm_init_ok[of 8 "\<lparr>bitmap = [], total_pages = 0, used_pages = 0\<rparr>"] by auto
  have "({..<2048} - {..<1024} :: nat set) = {1024..<2048}" by auto
  then have "Min ({..<2048} - {..<1024} :: nat set) = 1024"
    by (simp add: Min_eq_iff)
  then have "\<exists>s'. pmm_alloc_page s = Inr (page_addr 1024, s')"
    using pmm_alloc_page_lowest_free[OF s(2)] s(3,4) by (auto split: if_splits)
  then show ?thesis using s(1) by (auto simp: page_addr_def PAGE_SIZE_def)
qed

text \<open>C19: Freeing the page just allocated succeeds and restores the allocator: the same
  pages are in use as before, with the same count.\<close>

theorem pmm_alloc_free_roundtrip:
  assumes "pmm_inv s" and "pmm_alloc_page s = Inr (p, s1)" and "p \<noteq> nullptr"
  shows "\<exists>s2. pmm_free_page p s1 = Inr s2 \<and> pmm_inv s2 \<and> pmm_allocated s2 = pmm_allocated s
    \<and> pmm_used_pages s2 = pmm_used_pages s \<and> pmm_total_pages s2 = pmm_total_pages s"
proof -
  obtain s2 where s2: "pmm_free_page p s1 = Inr s2" "pmm_inv s2" "pmm_allocated s2 = pmm_allocated s"
    using pmm.free_after_alloc[OF assms] by blast
  have tot: "total_pages s2 = total_pages s"
    using pmm_alloc_more[OF assms(2)] pmm_free_more[OF s2(1)] by auto
  have inj: "inj_on page_addr {..<unat (total_pages s)}"
    using page_addr_inject pmm_total_bound[OF assms(1)] by (auto intro!: inj_onI)
  have "used_set s2 = used_set s"
    using s2(3) tot used_set_subset[of s] used_set_subset[of s2] inj_on_image_eq_iff[OF inj]
    by (simp add: pmm_allocated_def)
  then have "used_pages s2 = used_pages s"
    using assms(1) s2(2) by (simp add: pmm_inv_def word_unat_eq_iff)
  then show ?thesis using s2 tot by (simp add: pmm_used_pages_def pmm_total_pages_def)
qed

theorem pmm_alloc_free_roundtrip_witness:
  "\<exists>s p s1 s2. pmm_init 8 \<lparr>bitmap = [], total_pages = 0, used_pages = 0\<rparr> = Inr s
    \<and> pmm_alloc_page s = Inr (p, s1) \<and> p \<noteq> nullptr \<and> pmm_free_page p s1 = Inr s2
    \<and> pmm_allocated s2 = pmm_allocated s"
proof -
  obtain s where s: "pmm_init 8 \<lparr>bitmap = [], total_pages = 0, used_pages = 0\<rparr> = Inr s"
    "pmm_inv s" "unat (total_pages s) = 2048" "used_set s = {..<1024}"
    using pmm_init_ok[of 8 "\<lparr>bitmap = [], total_pages = 0, used_pages = 0\<rparr>"] by auto
  have "used_set s \<noteq> {..<unat (total_pages s)}"
    unfolding s(3,4) lessThan_eq_iff by simp
  then have "pmm_allocated s \<noteq> pmm_pages s"
    by (simp only: pmm_all_allocated_iff[OF s(2)] not_False_eq_True)
  then obtain p s1 where p: "pmm_alloc_page s = Inr (p, s1)" "p \<notin> pmm_allocated s"
    using pmm.alloc_some[OF s(2)] by auto
  then have nz: "p \<noteq> nullptr" using pmm.null_allocated[OF s(2)] by auto
  show ?thesis
    using pmm_alloc_free_roundtrip[OF s(2) p(1) nz] s(1) p(1) nz by blast
qed

text \<open>C6: After a boot with 1 to 1024 MB, no sequence of allocations and of frees of
  addresses outside page 0 ever indexes outside the bitmap or breaks the
  invariant; in particular the used-page counter stays equal to the number of
  set bits.\<close>

theorem pmm_calls_safe:
  assumes "1 \<le> mb" and "mb \<le> 1024" and "frees_no_null cs"
  shows "\<exists>s'. bindR (pmm_init mb s) (pmm_calls cs) = Inr s' \<and> pmm_inv s'
    \<and> unat (pmm_used_pages s') = card (used_set s')"
proof -
  obtain s1 where "pmm_init mb s = Inr s1" "pmm_inv s1"
    using pmm_init_ok[OF assms(1,2)] by blast
  then show ?thesis
    using pmm_calls_inv[OF _ assms(3), of s1] by (auto simp: pmm_inv_def pmm_used_pages_def)
qed

theorem pmm_calls_safe_witness:
  "\<exists>s'. bindR (pmm_init 32 \<lparr>bitmap = [], total_pages = 0, used_pages = 0\<rparr>)
      (pmm_calls [Alloc_page, Alloc_page, Free_page 0x400000, Alloc_page]) = Inr s' \<and> pmm_inv s'"
  using pmm_calls_safe[of 32 "[Alloc_page, Alloc_page, Free_page 0x400000, Alloc_page]"]
  by (auto simp: frees_no_null_def PAGE_SIZE_def)

text \<open>The caller's obligation not to free the null pointer is real: freeing address 0
  (page 0 is marked reserved, so its bit is set) makes the next allocation hand
  out page 0, whose address every caller takes for "out of memory", although
  other pages may be free.\<close>

theorem pmm_free_null_breaks_alloc:
  assumes "pmm_inv s"
  shows "\<exists>s1 s2. pmm_free_page nullptr s = Inr s1 \<and> pmm_alloc_page s1 = Inr (nullptr, s2)
    \<and> used_set s2 = used_set s"
proof -
  have in_bm: "unat (0 :: u32) < 8 * length (bitmap s)"
    using assms by (simp add: pmm_inv_def)
  have zero: "0 \<in> used_set s" using assms by (simp add: pmm_inv_def)
  from in_bm obtain bm where bm: "pmm_clear_bit (bitmap s) 0 = Inr bm"
    "length bm = length (bitmap s)" "\<And>j. page_used bm j = (j \<noteq> 0 \<and> page_used (bitmap s) j)"
    by (rule pmm_clear_bit_ok) auto
  let ?s1 = "s\<lparr>bitmap := bm, used_pages := used_pages s - 1\<rparr>"
  have tp: "0 < total_pages s" "\<not> total_pages s \<le> 0"
    using zero by (auto simp: used_set_def word_less_nat_alt word_le_nat_alt)
  have f: "pmm_free_page nullptr s = Inr ?s1"
    using pmm_test_bit_eq[OF in_bm] zero bm(1) tp(2)
    by (simp add: pmm_free_page_def Let_def used_set_def)
  have t: "pmm_test_bit bm 0 = Inr False"
    using pmm_test_bit_eq[of 0 bm] in_bm bm by simp
  have "unat (0 :: u32) < 8 * length bm" using in_bm bm(2) by simp
  then obtain bm2 where bm2: "pmm_set_bit bm 0 = Inr bm2"
    "\<And>j. page_used bm2 j = (j = 0 \<or> page_used bm j)"
    by (rule pmm_set_bit_ok) auto
  have "pmm_alloc_page ?s1 = Inr (nullptr, ?s1\<lparr>bitmap := bm2, used_pages := used_pages s\<rparr>)"
    using tp(1) t bm2(1) by (simp add: pmm_alloc_page_def pmm_scan.simps[of 0])
  moreover have "used_set (?s1\<lparr>bitmap := bm2, used_pages := used_pages s\<rparr>) = used_set s"
    using zero bm(3) bm2(2) by (auto simp: used_set_def)
  ultimately show ?thesis using f by blast
qed

theorem pmm_free_null_breaks_alloc_witness:
  "\<exists>s s1 s2. pmm_init 8 \<lparr>bitmap = [], total_pages = 0, used_pages = 0\<rparr> = Inr s
    \<and> used_set s \<noteq> {..<unat (total_pages s)} \<and> pmm_free_page nullptr s = Inr s1
    \<and> pmm_alloc_page s1 = Inr (nullptr, s2)"
proof -
  obtain s where s: "pmm_init 8 \<lparr>bitmap = [], total_pages = 0, used_pages = 0\<rparr> = Inr s"
    "pmm_inv s" "unat (total_pages s) = 2048" "used_set s = {..<1024}"
    using pmm_init_ok[of 8 "\<lparr>bitmap = [], total_pages = 0, used_pages = 0\<rparr>"] by auto
  moreover have "used_set s \<noteq> {..<unat (total_pages s)}"
    unfolding s(3,4) lessThan_eq_iff by simp
  ultimately show ?thesis using pmm_free_null_breaks_alloc[OF s(2)] by blast
qed

text \<open>C39: The bitmap is sized for 1024 MB and \<open>pmm_init\<close> does not check: with 1025 MB the
  first page beyond the bitmap is considered managed, and freeing it indexes
  outside the array.\<close>

theorem pmm_init_beyond_1GB:
  "\<exists>s'. pmm_init 1025 s = Inr s' \<and> pmm_total_pages s' = 262400
    \<and> pmm_free_page 0x40000000 s' = Inl Out_of_bounds"
proof -
  have pages: "(1025 * 1024 * 1024) div PAGE_SIZE = 262400"
    by (simp add: PAGE_SIZE_def)
  have used: "\<not> RESERVED_PAGES > 262400"
    by (simp add: RESERVED_PAGES_def)
  have "unat RESERVED_PAGES \<le> 8 * length (replicate (MAX_PAGES div 8) (0 :: u8))"
    by (simp add: RESERVED_PAGES_def)
  from pmm_reserve_ok[OF this, of 0] obtain bm where
    bm: "pmm_reserve 0 RESERVED_PAGES (replicate (MAX_PAGES div 8) 0) = Inr bm"
      "length bm = MAX_PAGES div 8" by auto
  define s' where "s' = s\<lparr>bitmap := bm, total_pages := 262400, used_pages := RESERVED_PAGES\<rparr>"
  have "pmm_init 1025 s = Inr s'"
    unfolding pmm_init_def Let_def pages if_not_P[OF used] bm(1) s'_def bindR_Inr ..
  moreover have "pmm_test_bit bm 262144 = Inl Out_of_bounds"
    using bm(2) by (simp add: pmm_test_bit_def)
  then have "pmm_free_page 0x40000000 s' = Inl Out_of_bounds"
    by (simp add: pmm_free_page_def s'_def PAGE_SIZE_def)
  ultimately show ?thesis
    by (simp add: s'_def pmm_total_pages_def)
qed

end
