(* ===== verification/Libk.thy ===== *)
theory Libk
  imports Nemo_Prelude
begin

text \<open>
  The kernel's C library, \<open>src/src/libk\<close>: \<open>memcpy\<close> and \<open>memset\<close> on byte memory,
  the string functions on NUL-terminated strings in byte memory, and \<open>itoa\<close>.
  The string loops stop only at a NUL byte, so they are partial functions. Each
  string function also has a version on HOL strings (the text before the NUL),
  which the components above use; the lemmas show that the memory version
  computes it.
\<close>

section \<open>memory.cpp\<close>

definition memcpy :: "memory \<Rightarrow> u32 \<Rightarrow> u32 \<Rightarrow> u32 \<Rightarrow> memory" where
  "memcpy m dest src n =
     fold (\<lambda>i m. m(dest + of_nat i := m (src + of_nat i))) [0..<unat n] m"

definition memset :: "memory \<Rightarrow> u32 \<Rightarrow> u8 \<Rightarrow> u32 \<Rightarrow> memory" where
  "memset m dest v n = fold (\<lambda>i m. m(dest + of_nat i := v)) [0..<unat n] m"

lemma unat_minus_lt_Suc:
  "Suc n < 2 ^ 32 \<Longrightarrow> (unat (a - d :: u32) < Suc n) = (unat (a - d) < n \<or> a = d + of_nat n)"
proof -
  assume n: "Suc n < 2 ^ 32"
  have "a = d + of_nat n \<longleftrightarrow> a - d = of_nat n"
    by (auto simp: algebra_simps)
  also have "\<dots> \<longleftrightarrow> unat (a - d) = n"
    using n by (auto simp: unat_of_nat word_unat_eq_iff)
  finally show ?thesis by auto
qed

lemma fold_upt_Suc: "fold f [0..<Suc n] m = f n (fold f [0..<n] m)"
  by simp

lemma memset_fold:
  "n < 2 ^ 32 \<Longrightarrow> fold (\<lambda>i m. m(d + of_nat i := v)) [0..<n] m
     = (\<lambda>a. if unat (a - d :: u32) < n then v else m a)"
proof (induction n)
  case 0
  then show ?case by simp
next
  case (Suc n)
  then show ?case
    by (auto simp: unat_minus_lt_Suc fun_eq_iff simp del: upt_Suc simp: fold_upt_Suc)
qed

lemma unat_less_pow: "unat (n :: u32) < 2 ^ 32"
  using unsigned_less[of n, where 'a = nat] by simp

lemma memset_apply [mem_simps]:
  "memset m d v n a = (if unat (a - d) < unat n then v else m a)"
  by (simp add: memset_def memset_fold[OF unat_less_pow])

text \<open>A destination that does not start inside the source after its first byte
  receives a copy of the source.\<close>

lemma memcpy_fold:
  "n < 2 ^ 32 \<Longrightarrow> (\<forall>i < n. \<forall>j < i. (s :: u32) + of_nat i \<noteq> d + of_nat j) \<Longrightarrow>
     fold (\<lambda>i m. m(d + of_nat i := m (s + of_nat i))) [0..<n] m
     = (\<lambda>a. if unat (a - d) < n then m (s + (a - d)) else m a)"
proof (induction n)
  case 0
  then show ?case by simp
next
  case (Suc n)
  have "\<not> unat (s + of_nat n - d) < n"
  proof
    assume lt: "unat (s + of_nat n - d) < n"
    have "s + of_nat n \<noteq> d + of_nat (unat (s + of_nat n - d))"
      using Suc.prems(2) lt by blast
    then show False by simp
  qed
  then show ?case using Suc
    by (auto simp: unat_minus_lt_Suc fun_eq_iff less_Suc_eq unat_of_nat simp del: upt_Suc
        simp: fold_upt_Suc)
qed

lemma memcpy_apply [mem_simps]:
  assumes "\<forall>i < unat n. \<forall>j < i. s + of_nat i \<noteq> d + of_nat j"
  shows "memcpy m d s n a = (if unat (a - d) < unat n then m (s + (a - d)) else m a)"
  using assms by (simp add: memcpy_def memcpy_fold[OF unat_less_pow])

section \<open>string.cpp\<close>

partial_function (option) strcmp_mem :: "memory \<Rightarrow> u32 \<Rightarrow> u32 \<Rightarrow> int option" where
  "strcmp_mem m a b =
     (if m a \<noteq> 0 \<and> m a = m b then strcmp_mem m (a + 1) (b + 1)
      else Some (int (unat (m a)) - int (unat (m b))))"

function strncmp_loop :: "memory \<Rightarrow> u32 \<Rightarrow> u32 \<Rightarrow> u32 \<Rightarrow> u32 \<Rightarrow> int" where
  "strncmp_loop m a b n i =
     (if i < n
      then if m (a + i) \<noteq> m (b + i) \<or> m (a + i) = 0 \<or> m (b + i) = 0
           then int (unat (m (a + i))) - int (unat (m (b + i)))
           else strncmp_loop m a b n (i + 1)
      else 0)"
  by pat_completeness auto
termination
proof (relation "measure (\<lambda>(m, a, b, n, i). unat n - unat i)")
  fix m :: memory and a b n i :: u32
  assume "i < n"
  then show "((m, a, b, n, i + 1), (m, a, b, n, i)) \<in> measure (\<lambda>(m, a, b, n, i). unat n - unat i)"
    by simp unat_arith
qed simp

declare strncmp_loop.simps [simp del]

definition strncmp_mem :: "memory \<Rightarrow> u32 \<Rightarrow> u32 \<Rightarrow> u32 \<Rightarrow> int" where
  "strncmp_mem m a b n = strncmp_loop m a b n 0"

partial_function (option) strcpy_mem :: "memory \<Rightarrow> u32 \<Rightarrow> u32 \<Rightarrow> memory option" where
  "strcpy_mem m dst src =
     (if m src \<noteq> 0 then strcpy_mem (m(dst := m src)) (dst + 1) (src + 1)
      else Some (m(dst := 0)))"

partial_function (option) strlen_loop :: "memory \<Rightarrow> u32 \<Rightarrow> u32 \<Rightarrow> u32 option" where
  "strlen_loop m s len = (if m (s + len) \<noteq> 0 then strlen_loop m s (len + 1) else Some len)"

definition strlen_mem :: "memory \<Rightarrow> u32 \<Rightarrow> u32 option" where
  "strlen_mem m s = strlen_loop m s 0"

text \<open>The same functions on the text of the strings: the end of the list is the NUL.\<close>

fun strcmp :: "string \<Rightarrow> string \<Rightarrow> int" where
  "strcmp [] [] = 0"
| "strcmp [] (y # ys) = - of_char y"
| "strcmp (x # xs) [] = of_char x"
| "strcmp (x # xs) (y # ys) = (if x = y then strcmp xs ys else of_char x - of_char y)"

fun strncmp :: "string \<Rightarrow> string \<Rightarrow> nat \<Rightarrow> int" where
  "strncmp xs ys 0 = 0"
| "strncmp [] [] (Suc n) = 0"
| "strncmp [] (y # ys) (Suc n) = - of_char y"
| "strncmp (x # xs) [] (Suc n) = of_char x"
| "strncmp (x # xs) (y # ys) (Suc n) =
     (if x = y then strncmp xs ys n else of_char x - of_char y)"

section \<open>itoa.cpp\<close>

text \<open>The digit loop: \<open>temp\<close> has 16 elements, so a seventeenth digit is a fault.\<close>

function itoa_loop :: "u32 \<Rightarrow> string \<Rightarrow> string res" where
  "itoa_loop v temp =
     (if v > 0
      then if length temp < 16
           then itoa_loop (v div 10) (temp @ [char_of (48 + unat (v mod 10))])
           else Inl Out_of_bounds
      else Inr temp)"
  by pat_completeness auto
termination
proof (relation "measure (\<lambda>(v, t). unat v)")
  fix v :: u32 and t :: string
  assume "v > 0"
  then have "unat v div 10 < unat v" by (simp add: word_less_nat_alt)
  then show "((v div 10, t @ [char_of (48 + unat (v mod 10))]), (v, t))
      \<in> measure (\<lambda>(v, t). unat v)"
    by (simp add: unat_div)
qed simp

declare itoa_loop.simps [simp del]

text \<open>The second loop copies \<open>temp\<close> backwards into the caller's buffer.\<close>

definition itoa :: "u32 \<Rightarrow> string res" where
  "itoa v = (if v = 0 then Inr ''0'' else bindR (itoa_loop v []) (\<lambda>temp. Inr (rev temp)))"

section \<open>Strings in memory\<close>

text \<open>\<open>cstring m a s\<close>: the text \<open>s\<close>, which has no NUL, is at address \<open>a\<close> and a NUL follows.\<close>

primrec cstring :: "memory \<Rightarrow> u32 \<Rightarrow> string \<Rightarrow> bool" where
  "cstring m a [] \<longleftrightarrow> m a = 0"
| "cstring m a (c # cs) \<longleftrightarrow> m a = of_char c \<and> m a \<noteq> 0 \<and> cstring m (a + 1) cs"

lemma uint_of_char [simp]: "uint (of_char c :: u8) = of_char c"
proof -
  have "uint (of_char c :: u8) = uint (word_of_int (of_char c) :: u8)"
    by (simp add: of_int_of_char)
  also have "\<dots> = of_char c"
    by (simp only: uint_word_of_int_eq take_bit_eq_mod) simp
  finally show ?thesis .
qed

lemma of_char_u8_eq [simp]: "((of_char c :: u8) = of_char d) = (c = d)"
  by (metis uint_of_char of_char_eq_iff)

definition nul_free :: "string \<Rightarrow> bool" where
  "nul_free s \<longleftrightarrow> (\<forall>c \<in> set s. (of_char c :: int) \<noteq> 0)"

lemma nul_free_simps [simp]:
  "nul_free []" "nul_free (c # cs) \<longleftrightarrow> (of_char c :: int) \<noteq> 0 \<and> nul_free cs"
  by (auto simp: nul_free_def)

lemma cstring_nul_free: "cstring m a s \<Longrightarrow> nul_free s"
proof (induction s arbitrary: a)
  case (Cons c cs)
  then have "(of_char c :: u8) \<noteq> 0" by auto
  then have "(of_char c :: int) \<noteq> 0" by (metis uint_0_iff uint_of_char)
  with Cons show ?case by auto
qed simp

lemma cstring_cong:
  "(\<And>i. i \<le> length s \<Longrightarrow> m (a + of_nat i) = m' (a + of_nat i)) \<Longrightarrow> cstring m a s = cstring m' a s"
proof (induction s arbitrary: a)
  case Nil
  from Nil[of 0] show ?case by simp
next
  case (Cons c cs)
  have "m (a + 1 + of_nat i) = m' (a + 1 + of_nat i)" if "i \<le> length cs" for i
    using Cons.prems[of "Suc i"] that by (simp add: algebra_simps)
  with Cons.IH[of "a + 1"] Cons.prems[of 0] show ?case by simp
qed

lemma strcmp_mem_eq:
  "cstring m a s \<Longrightarrow> cstring m b t \<Longrightarrow> strcmp_mem m a b = Some (strcmp s t)"
  by (induction s t arbitrary: a b rule: strcmp.induct) (auto simp: strcmp_mem.simps)

lemma strcmp_zero: "nul_free s \<Longrightarrow> nul_free t \<Longrightarrow> (strcmp s t = 0) = (s = t)"
  by (induction s t rule: strcmp.induct) auto

lemma strncmp_zero:
  "nul_free s \<Longrightarrow> nul_free t \<Longrightarrow> (strncmp s t n = 0) = (take n s = take n t)"
  by (induction s t n rule: strncmp.induct) auto

lemma strlen_loop_eq:
  "cstring m (a + len) s \<Longrightarrow> strlen_loop m a len = Some (len + of_nat (length s))"
proof (induction s arbitrary: len)
  case Nil
  then show ?case by (simp add: strlen_loop.simps[of m a len])
next
  case (Cons c cs)
  then have "strlen_loop m a (len + 1) = Some (len + 1 + of_nat (length cs))"
    by (intro Cons.IH) (simp add: add.assoc)
  with Cons.prems show ?case
    by (auto simp: strlen_loop.simps[of m a len] add.assoc)
qed

lemma strlen_mem_eq: "cstring m a s \<Longrightarrow> strlen_mem m a = Some (of_nat (length s))"
  using strlen_loop_eq[of m a 0 s] by (simp add: strlen_mem_def)

lemma strncmp_loop_eq:
  "cstring m (a + i) s \<Longrightarrow> cstring m (b + i) t \<Longrightarrow> unat n = unat i + k \<Longrightarrow>
     strncmp_loop m a b n i = strncmp s t k"
proof (induction s t k arbitrary: i rule: strncmp.induct)
  case (5 x xs y ys k)
  then have lt: "i < n" by (simp add: word_less_nat_alt)
  then have "unat n = unat (i + 1) + k"
    using "5.prems"(3) by unat_arith
  then show ?case
    using "5" lt by (auto simp: strncmp_loop.simps[of m a b n i] algebra_simps)
qed (subst strncmp_loop.simps, simp add: word_less_nat_alt)+

lemma strncmp_mem_eq:
  "cstring m a s \<Longrightarrow> cstring m b t \<Longrightarrow> strncmp_mem m a b n = strncmp s t (unat n)"
  using strncmp_loop_eq[of m a 0 s b t n "unat n"] by (simp add: strncmp_mem_def)

text \<open>Copying to a place that does not overlap the source.\<close>

lemma strcpy_mem_ok:
  assumes "cstring m src s" and "length s < 2 ^ 32"
    and "\<And>i j. i \<le> length s \<Longrightarrow> j \<le> length s \<Longrightarrow> dst + of_nat i \<noteq> src + of_nat j"
  shows "\<exists>m'. strcpy_mem m dst src = Some m' \<and> cstring m' dst s
    \<and> (\<forall>a. length s < unat (a - dst) \<longrightarrow> m' a = m a)"
  using assms
proof (induction s arbitrary: m dst src)
  case Nil
  then show ?case by (auto simp: strcpy_mem.simps)
next
  case (Cons c cs)
  let ?m = "m(dst := m src)"
  have c: "m src = of_char c" "m src \<noteq> 0" "cstring m (src + 1) cs" using Cons.prems(1) by auto
  have nz: "dst + 1 + of_nat i \<noteq> dst" if "i \<le> length cs" for i
  proof
    assume "dst + 1 + of_nat i = dst"
    then have "of_nat (Suc i) = (0 :: u32)" by (simp add: algebra_simps)
    then have "unat (of_nat (Suc i) :: u32) = 0" by simp
    then show False using that Cons.prems(2) by (simp only: unat_of_nat) simp
  qed
  have eq: "cstring ?m (src + 1) cs = cstring m (src + 1) cs"
  proof (rule cstring_cong)
    fix i assume "i \<le> length cs"
    then show "?m (src + 1 + of_nat i) = m (src + 1 + of_nat i)"
      using Cons.prems(3)[of 0 "Suc i"] by (simp add: algebra_simps)
  qed
  have ne: "dst + 1 + of_nat i \<noteq> src + 1 + of_nat j"
    if "i \<le> length cs" "j \<le> length cs" for i j
    using Cons.prems(3)[of "Suc i" "Suc j"] that by (simp add: algebra_simps)
  have len: "length cs < 2 ^ 32" using Cons.prems(2) by simp
  from Cons.IH[OF iffD2[OF eq c(3)] len ne] obtain m' where m': "strcpy_mem ?m (dst + 1) (src + 1) = Some m'"
    "cstring m' (dst + 1) cs" "\<forall>a. length cs < unat (a - (dst + 1)) \<longrightarrow> m' a = ?m a"
    by blast
  have far: "length cs < unat (a - (dst + 1)) \<and> a \<noteq> dst" if "length (c # cs) < unat (a - dst)" for a
  proof -
    have "1 \<le> a - dst" using that by (simp add: word_le_nat_alt)
    then have "unat (a - dst - 1) = unat (a - dst) - 1" by (simp add: unat_sub)
    moreover have "a - (dst + 1) = a - dst - 1" by (simp add: algebra_simps)
    ultimately have "unat (a - (dst + 1)) = unat (a - dst) - 1" by (simp only:)
    then show ?thesis using that by auto
  qed
  have "unat (dst - (dst + 1)) = 2 ^ 32 - 1"
    by (simp add: unsigned_minus_1_eq_mask mask_eq_exp_minus_1)
  then have "length cs < unat (dst - (dst + 1))"
    using Cons.prems(2) by (simp only:) simp
  then have "m' dst = m src" using m'(3) by (simp only: fun_upd_same)
  then have "cstring m' dst (c # cs)" using m'(2) c by simp
  moreover have "\<forall>a. length (c # cs) < unat (a - dst) \<longrightarrow> m' a = m a"
    using m'(3) far by (metis fun_upd_other)
  moreover have "strcpy_mem m dst src = Some m'"
    using m'(1) c(2) by (subst strcpy_mem.simps) (simp only: if_True simp_thms)
  ultimately show ?case by blast
qed

section \<open>Decimal digits\<close>

definition digits_value :: "string \<Rightarrow> nat" where
  "digits_value s = foldl (\<lambda>n c. n * 10 + (of_char c - 48)) 0 s"

definition is_decimal :: "string \<Rightarrow> bool" where
  "is_decimal s \<longleftrightarrow> s \<noteq> [] \<and> (\<forall>c \<in> set s. 48 \<le> (of_char c :: nat) \<and> (of_char c :: nat) \<le> 57)
     \<and> (hd s = CHR ''0'' \<longrightarrow> s = ''0'')"


lemma digits_value_snoc [simp]: "digits_value (s @ [c]) = digits_value s * 10 + (of_char c - 48)"
  by (simp add: digits_value_def)

lemma digit_code: "d < 10 \<Longrightarrow> of_char (char_of (48 + d)) = (48 + d :: nat)"
  by simp

text \<open>The loop emits the digits of \<open>v\<close> after those in \<open>temp\<close>, least significant first.\<close>

lemma itoa_loop_ok:
  "unat v < 10 ^ k \<Longrightarrow> length temp + k \<le> 16 \<Longrightarrow>
     \<exists>ds. itoa_loop v temp = Inr (temp @ ds) \<and> length ds \<le> k \<and> digits_value (rev ds) = unat v
       \<and> (\<forall>c \<in> set ds. 48 \<le> (of_char c :: nat) \<and> (of_char c :: nat) \<le> 57)
       \<and> (if v = 0 then ds = [] else ds \<noteq> [] \<and> last ds \<noteq> CHR ''0'')"
proof (induction k arbitrary: v temp)
  case 0
  then have "v = 0" by (simp add: unat_0_iff)
  then show ?case by (simp add: itoa_loop.simps[of 0 temp] digits_value_def)
next
  case (Suc k)
  show ?case
  proof (cases "v = 0")
    case True
    then show ?thesis by (simp add: itoa_loop.simps[of 0 temp] digits_value_def)
  next
    case False
    define d where "d = char_of (48 + unat (v mod 10))"
    have m10: "unat (v mod 10) < 10" by (simp add: unat_mod)
    then have code: "of_char d = (48 + unat (v mod 10) :: nat)"
      unfolding d_def by (rule digit_code)
    have q: "unat (v div 10) < 10 ^ k" and len: "length (temp @ [d]) + k \<le> 16"
      using Suc.prems by (simp_all add: unat_div div_less_iff_less_mult mult.commute)
    have step: "itoa_loop v temp = itoa_loop (v div 10) (temp @ [d])"
      using False Suc.prems(2) by (simp add: itoa_loop.simps[of v temp] d_def word_neq_0_conv)
    from Suc.IH[OF q len] obtain ds where ds:
      "itoa_loop (v div 10) (temp @ [d]) = Inr ((temp @ [d]) @ ds)" "length ds \<le> k"
      "digits_value (rev ds) = unat (v div 10)"
      "\<forall>c \<in> set ds. 48 \<le> (of_char c :: nat) \<and> (of_char c :: nat) \<le> 57"
      "if v div 10 = 0 then ds = [] else ds \<noteq> [] \<and> last ds \<noteq> CHR ''0''" by blast
    have val: "digits_value (rev (d # ds)) = unat v"
      using ds(3) code by (simp add: unat_div unat_mod)
    have "d \<noteq> CHR ''0''" if "v div 10 = 0"
    proof -
      have "unat v = unat (v div 10) * 10 + unat (v mod 10)" by (simp add: unat_div unat_mod)
      moreover have "unat v \<noteq> 0" using False by (simp add: unat_0_iff)
      ultimately have "unat (v mod 10) \<noteq> 0" using that by (metis add_0 mult_0 unat_0)
      then show ?thesis using code by auto
    qed
    then have "last (d # ds) \<noteq> CHR ''0''" using ds(5) by (auto split: if_splits)
    moreover have "\<forall>c \<in> set (d # ds). 48 \<le> (of_char c :: nat) \<and> (of_char c :: nat) \<le> 57"
      using ds(4) code m10 by simp
    moreover have "itoa_loop v temp = Inr (temp @ d # ds)" "length (d # ds) \<le> Suc k"
      unfolding step using ds(1,2) by simp_all
    ultimately show ?thesis
      using val False by (intro exI[of _ "d # ds"] conjI) simp_all
  qed
qed

lemma itoa_ok:
  "\<exists>s. itoa v = Inr s \<and> is_decimal s \<and> digits_value s = unat v \<and> length s \<le> 10"
proof (cases "v = 0")
  case True
  then show ?thesis by (simp add: itoa_def is_decimal_def digits_value_def)
next
  case False
  have "unat v < 10 ^ 10" using unat_less_pow[of v] by simp
  from itoa_loop_ok[OF this, of "[]"] False obtain ds where
    "itoa_loop v [] = Inr ds" "length ds \<le> 10" "digits_value (rev ds) = unat v"
    "\<forall>c \<in> set ds. 48 \<le> (of_char c :: nat) \<and> (of_char c :: nat) \<le> 57"
    "ds \<noteq> []" "last ds \<noteq> CHR ''0''" by auto
  then show ?thesis using False
    by (auto simp: itoa_def is_decimal_def hd_rev)
qed

section \<open>Properties\<close>

text \<open>On two NUL-terminated strings in memory \<open>strcmp\<close> returns, and returns zero exactly
  when the strings are equal.\<close>

theorem strcmp_decides_equality:
  assumes "cstring m a s" and "cstring m b t"
  shows "\<exists>d. strcmp_mem m a b = Some d \<and> (d = 0 \<longleftrightarrow> s = t)"
  using strcmp_mem_eq[OF assms] strcmp_zero cstring_nul_free assms by blast

theorem strcmp_decides_equality_witness:
  "\<exists>d. strcmp_mem ((\<lambda>_. 0)(1 := 108, 2 := 115)) 1 2 = Some d \<and> d \<noteq> 0"
  using strcmp_decides_equality[of "(\<lambda>_. 0)(1 := 108, 2 := 115)" 1 "''ls''" 2 "''s''"] by auto

text \<open>Copying a NUL-terminated string to a place that does not overlap it returns, leaves
  the same string at the destination, and changes no byte beyond the
  destination's \<open>strlen + 1\<close> bytes.\<close>

theorem strcpy_copies:
  assumes "cstring m src s" and "length s < 2 ^ 32"
    and "\<And>i j. i \<le> length s \<Longrightarrow> j \<le> length s \<Longrightarrow> dst + of_nat i \<noteq> src + of_nat j"
  shows "\<exists>m'. strcpy_mem m dst src = Some m' \<and> cstring m' dst s
    \<and> strlen_mem m' dst = Some (of_nat (length s))
    \<and> (\<forall>a. length s < unat (a - dst) \<longrightarrow> m' a = m a)"
  using strcpy_mem_ok[OF assms] strlen_mem_eq by blast

theorem strcpy_copies_witness:
  "\<exists>m'. strcpy_mem ((\<lambda>_. 7)(1 := 108, 2 := 0)) 8 1 = Some m' \<and> cstring m' 8 ''l'' \<and> m' 10 = 7"
proof -
  have "\<exists>m'. strcpy_mem ((\<lambda>_. 7)(1 := 108, 2 := 0)) 8 1 = Some m' \<and> cstring m' 8 ''l''
    \<and> strlen_mem m' 8 = Some (of_nat (length ''l''))
    \<and> (\<forall>a. length ''l'' < unat (a - 8) \<longrightarrow> m' a = ((\<lambda>_. 7)(1 := 108, 2 := 0)) a)"
  proof (rule strcpy_copies)
    fix i j :: nat
    assume "i \<le> length ''l''" "j \<le> length ''l''"
    then have "i = 0 \<or> i = 1" "j = 0 \<or> j = 1" by auto
    then show "8 + of_nat i \<noteq> (1 + of_nat j :: u32)" by auto
  qed simp_all
  then show ?thesis by auto
qed

text \<open>C33: \<open>itoa\<close> never overruns its 16-byte scratch array; it produces at most ten decimal
  digits, without leading zeros, whose value is the argument.\<close>

theorem itoa_decimal:
  "\<exists>s. itoa v = Inr s \<and> is_decimal s \<and> digits_value s = unat v \<and> length s \<le> 10"
  by (rule itoa_ok)

end
