(* ===== verification/Kmalloc.thy ===== *)
theory Kmalloc
  imports Pmm Libk
begin

text \<open>
  The kernel heap, \<open>src/src/memory/kmalloc.cpp\<close>: a doubly linked free list of
  blocks in byte memory. A block has a 16-byte header (size, magic, next, prev)
  and its size again in its last four bytes (the footer). The state adds the
  physical memory and the two static variables to the page allocator's state.
  Following the list may never end if the list is cyclic, so the two list walks
  are partial functions.
\<close>

section \<open>State and header fields\<close>

record machine = pmm_state +
  mem :: memory

record heap_state = machine +
  free_list :: u32
  heap_end :: u32

definition HEAP_MAGIC :: u32 where "HEAP_MAGIC = 0xDEAD"
definition MIN_BLOCK :: u32 where "MIN_BLOCK = 32"
definition HEAP_GROW :: u32 where "HEAP_GROW = 64 * 1024"
definition HEADER_SIZE :: u32 where "HEADER_SIZE = 16"

lemmas heap_consts = HEAP_MAGIC_def MIN_BLOCK_def HEAP_GROW_def HEADER_SIZE_def

text \<open>The fields of \<open>heap_header\<close> at an address.\<close>

definition h_size :: "memory \<Rightarrow> u32 \<Rightarrow> u32" where "h_size m h = rd32 m h"
definition h_magic :: "memory \<Rightarrow> u32 \<Rightarrow> u32" where "h_magic m h = rd32 m (h + 4)"
definition h_next :: "memory \<Rightarrow> u32 \<Rightarrow> u32" where "h_next m h = rd32 m (h + 8)"
definition h_prev :: "memory \<Rightarrow> u32 \<Rightarrow> u32" where "h_prev m h = rd32 m (h + 12)"

definition set_size :: "u32 \<Rightarrow> u32 \<Rightarrow> memory \<Rightarrow> memory" where "set_size h v m = wr32 m h v"
definition set_magic :: "u32 \<Rightarrow> u32 \<Rightarrow> memory \<Rightarrow> memory" where "set_magic h v m = wr32 m (h + 4) v"
definition set_next :: "u32 \<Rightarrow> u32 \<Rightarrow> memory \<Rightarrow> memory" where "set_next h v m = wr32 m (h + 8) v"
definition set_prev :: "u32 \<Rightarrow> u32 \<Rightarrow> memory \<Rightarrow> memory" where "set_prev h v m = wr32 m (h + 12) v"

lemmas field_defs = h_size_def h_magic_def h_next_def h_prev_def
  set_size_def set_magic_def set_next_def set_prev_def

section \<open>Helpers\<close>

definition is_valid :: "memory \<Rightarrow> u32 \<Rightarrow> bool" where
  "is_valid m h \<longleftrightarrow> h_magic m h = HEAP_MAGIC"

definition header_from_ptr :: "u32 \<Rightarrow> u32" where
  "header_from_ptr p = p - HEADER_SIZE"

definition ptr_from_header :: "u32 \<Rightarrow> u32" where
  "ptr_from_header h = h + HEADER_SIZE"

definition set_footer :: "u32 \<Rightarrow> memory \<Rightarrow> memory" where
  "set_footer h m = wr32 m (h + h_size m h - 4) (h_size m h)"

definition next_block :: "memory \<Rightarrow> u32 \<Rightarrow> u32" where
  "next_block m h = h + h_size m h"

definition prev_block :: "memory \<Rightarrow> u32 \<Rightarrow> u32" where
  "prev_block m h = (let prev_size = rd32 m (h - 4) in h - prev_size)"

definition has_next :: "'z heap_state_scheme \<Rightarrow> u32 \<Rightarrow> bool" where
  "has_next s h \<longleftrightarrow> h + h_size (mem s) h < heap_end s"

definition has_prev :: "'z heap_state_scheme \<Rightarrow> u32 \<Rightarrow> bool" where
  "has_prev s h \<longleftrightarrow> h > heap_end s - HEAP_GROW"

definition list_remove :: "u32 \<Rightarrow> 'z heap_state_scheme \<Rightarrow> 'z heap_state_scheme" where
  "list_remove h s =
     (let m0 = mem s;
          m1 = (if h_prev m0 h \<noteq> 0 then set_next (h_prev m0 h) (h_next m0 h) m0 else m0);
          m2 = (if h_next m1 h \<noteq> 0 then set_prev (h_next m1 h) (h_prev m1 h) m1 else m1)
      in s\<lparr>mem := m2, free_list := (if free_list s = h then h_next m2 h else free_list s)\<rparr>)"

text \<open>\<open>while(last->next) last = last->next;\<close>\<close>

partial_function (option) list_last :: "memory \<Rightarrow> u32 \<Rightarrow> u32 option" where
  "list_last m l = (if h_next m l \<noteq> 0 then list_last m (h_next m l) else Some l)"

definition list_append :: "u32 \<Rightarrow> 'z heap_state_scheme \<Rightarrow> 'z heap_state_scheme res" where
  "list_append h s =
     (let m = set_prev h nullptr (set_next h nullptr (mem s))
      in if free_list s = nullptr then Inr (s\<lparr>mem := m, free_list := h\<rparr>)
         else bindR (returns (list_last m (free_list s))) (\<lambda>last.
              Inr (s\<lparr>mem := set_prev h last (set_next last h m)\<rparr>)))"

section \<open>Initialisation and growth\<close>

definition kmalloc_init :: "'z heap_state_scheme \<Rightarrow> 'z heap_state_scheme res" where
  "kmalloc_init s =
     bindR (pmm_alloc_page s) (\<lambda>(initial, s).
     if initial = nullptr then Inl (Panic ''kmalloc_init: OOM'')
     else
       let m1 = set_magic initial HEAP_MAGIC (set_size initial 4096 (mem s));
           m2 = set_footer initial m1;
           m3 = set_prev initial nullptr (set_next initial nullptr m2)
       in Inr (s\<lparr>mem := m3, heap_end := initial + 4096, free_list := initial\<rparr>))"

text \<open>The first loop of \<open>heap_grow\<close>, over the indices \<open>is\<close> still to visit:
  whether every page so far follows the one before.\<close>

fun grow_contiguous :: "u32 \<Rightarrow> u32 list \<Rightarrow> 'z heap_state_scheme \<Rightarrow> (bool \<times> 'z heap_state_scheme) res" where
  "grow_contiguous first [] s = Inr (True, s)"
| "grow_contiguous first (i # is) s =
     bindR (pmm_alloc_page s) (\<lambda>(page, s).
     if page = nullptr then Inr (False, s)
     else if page \<noteq> first + i * 4096 then bindR (pmm_free_page page s) (\<lambda>s. Inr (False, s))
     else grow_contiguous first is s)"

text \<open>The second loop: up to \<open>n\<close> single-page blocks.\<close>

primrec grow_single_pages :: "nat \<Rightarrow> 'z heap_state_scheme \<Rightarrow> 'z heap_state_scheme res" where
  "grow_single_pages 0 s = Inr s"
| "grow_single_pages (Suc n) s =
     bindR (pmm_alloc_page s) (\<lambda>(page, s).
     if page = nullptr then Inr s
     else
       let m1 = set_magic page HEAP_MAGIC (set_size page 4096 (mem s));
           m2 = set_footer page m1
       in bindR (list_append page (s\<lparr>mem := m2, heap_end := page + 4096\<rparr>)) (grow_single_pages n))"

definition heap_grow :: "'z heap_state_scheme \<Rightarrow> 'z heap_state_scheme res" where
  "heap_grow s =
     (let pages = (HEAP_GROW + 4095) div 4096 in
      bindR (pmm_alloc_page s) (\<lambda>(first, s).
      if first = nullptr then Inr s
      else bindR (grow_contiguous first (map of_nat [1..<unat pages]) s) (\<lambda>(contiguous, s).
      if \<not> contiguous then grow_single_pages (unat pages) s
      else
        let m1 = set_magic first HEAP_MAGIC (set_size first (pages * 4096) (mem s));
            m2 = set_footer first m1
        in list_append first (s\<lparr>mem := m2, heap_end := first + h_size m1 first\<rparr>))))"

section \<open>Allocation\<close>

text \<open>The list search of \<open>kmalloc\<close>: the first block of at least \<open>needed\<close> bytes, or null.\<close>

partial_function (option) find_fit :: "memory \<Rightarrow> u32 \<Rightarrow> u32 \<Rightarrow> u32 option" where
  "find_fit m needed h =
     (if h = nullptr then Some nullptr
      else if h_size m h \<ge> needed then Some h
      else find_fit m needed (h_next m h))"

text \<open>The body of both search loops once a block \<open>h\<close> fits: split it or unlink it, write its
  footer, clear its payload and return the payload's address.\<close>

definition kmalloc_take :: "u32 \<Rightarrow> u32 \<Rightarrow> 'z heap_state_scheme \<Rightarrow> u32 \<times> 'z heap_state_scheme" where
  "kmalloc_take needed h s =
     (let leftover = h_size (mem s) h - needed;
          s1 = (if leftover \<ge> MIN_BLOCK then
                  let split = h + needed;
                      m1 = set_magic split HEAP_MAGIC (set_size split leftover (mem s));
                      m2 = set_footer split m1;
                      m3 = set_next split (h_next m2 h) m2;
                      m4 = set_prev split (h_prev m3 h) m3;
                      m5 = (if h_next m4 h \<noteq> 0 then set_prev (h_next m4 h) split m4 else m4);
                      m6 = (if h_prev m5 h \<noteq> 0 then set_next (h_prev m5 h) split m5 else m5);
                      fl = (if h_prev m5 h \<noteq> 0 then free_list s else split);
                      m7 = set_size h needed m6
                  in s\<lparr>mem := m7, free_list := fl\<rparr>
                else list_remove h s);
          m8 = set_footer h (mem s1);
          m9 = memset m8 (ptr_from_header h) 0 (h_size m8 h - HEADER_SIZE - 4)
      in (ptr_from_header h, s1\<lparr>mem := m9\<rparr>))"

definition needed_bytes :: "u32 \<Rightarrow> u32" where
  "needed_bytes sz =
     (let sz' = (sz + 7) AND NOT 7; needed = sz' + HEADER_SIZE + 4
      in if needed < MIN_BLOCK then MIN_BLOCK else needed)"

definition kmalloc :: "u32 \<Rightarrow> 'z heap_state_scheme \<Rightarrow> (u32 \<times> 'z heap_state_scheme) res" where
  "kmalloc sz s =
     (if sz = 0 then Inr (nullptr, s)
      else let needed = needed_bytes sz in
        bindR (returns (find_fit (mem s) needed (free_list s))) (\<lambda>h.
        if h \<noteq> nullptr then Inr (kmalloc_take needed h s)
        else
          bindR (heap_grow s) (\<lambda>s.
          bindR (returns (find_fit (mem s) needed (free_list s))) (\<lambda>h.
          if h \<noteq> nullptr then Inr (kmalloc_take needed h s)
          else Inr (nullptr, s)))))"

section \<open>Release\<close>

definition kfree :: "u32 \<Rightarrow> 'z heap_state_scheme \<Rightarrow> 'z heap_state_scheme res" where
  "kfree p s =
     (if p = nullptr then Inr s
      else let h = header_from_ptr p; m = mem s in
        if \<not> is_valid m h then Inr s
        else
          let merge_prev = (has_prev s h \<and> h_magic m (prev_block m h) = HEAP_MAGIC);
              merge_next = (has_next s h \<and> h_magic m (next_block m h) = HEAP_MAGIC)
          in if merge_prev \<and> merge_next then
               let p = prev_block m h; n = next_block m h;
                   s1 = list_remove n (list_remove p s);
                   m1 = set_size p (h_size (mem s1) p + (h_size (mem s1) h + h_size (mem s1) n)) (mem s1);
                   m2 = set_footer p m1
               in list_append p (s1\<lparr>mem := m2\<rparr>)
             else if merge_prev then
               let p = prev_block m h;
                   s1 = list_remove p s;
                   m1 = set_size p (h_size (mem s1) p + h_size (mem s1) h) (mem s1)
               in Inr (s1\<lparr>mem := set_footer p m1\<rparr>)
             else if merge_next then
               let n = next_block m h;
                   s1 = list_remove n s;
                   m1 = set_size h (h_size (mem s1) h + h_size (mem s1) n) (mem s1)
               in list_append h (s1\<lparr>mem := set_footer h m1\<rparr>)
             else
               list_append h (s\<lparr>mem := set_footer h (set_magic h HEAP_MAGIC m)\<rparr>))"

end
