(* ===== verification/Dll.thy ===== *)
theory Dll
  imports Nemo_Prelude
begin

text \<open>
  Doubly linked lists, as the kernel heap keeps its free blocks: \<open>nx\<close> and \<open>pv\<close>
  read the two link fields of a node. The lemmas say what the list becomes when
  a node is unlinked, replaced by another one in place, or appended, for any
  new link functions that differ from the old ones only where such an operation
  writes.
\<close>

primrec dll :: "(u32 \<Rightarrow> u32) \<Rightarrow> (u32 \<Rightarrow> u32) \<Rightarrow> u32 \<Rightarrow> u32 \<Rightarrow> u32 list \<Rightarrow> bool" where
  "dll nx pv q p [] \<longleftrightarrow> p = nullptr"
| "dll nx pv q p (h # hs) \<longleftrightarrow> p = h \<and> h \<noteq> nullptr \<and> pv h = q \<and> dll nx pv h (nx h) hs"

lemma dll_cong:
  "\<forall>h \<in> set hs. nx' h = nx h \<and> pv' h = pv h \<Longrightarrow> dll nx' pv' q p hs = dll nx pv q p hs"
  by (induction hs arbitrary: q p) auto

lemma dll_nonnull: "dll nx pv q p hs \<Longrightarrow> nullptr \<notin> set hs"
  by (induction hs arbitrary: q p) auto

lemma dll_first: "dll nx pv q p hs \<Longrightarrow> p = (if hs = [] then nullptr else hd hs)"
  by (cases hs) auto

lemma dll_links:
  "dll nx pv q p (as @ h # bs) \<Longrightarrow>
     pv h = (if as = [] then q else last as) \<and> nx h = (if bs = [] then nullptr else hd bs)"
proof (induction as arbitrary: q p)
  case Nil
  then have "pv h = q" and *: "dll nx pv h (nx h) bs" by simp_all
  then show ?case using dll_first[OF *] by metis
next
  case (Cons a as)
  then have "dll nx pv a (nx a) (as @ h # bs)" by simp
  from Cons.IH[OF this] show ?case by (cases "as = []") simp_all
qed

lemma dll_remove:
  assumes "dll nx pv q p (as @ h # bs)" and "distinct (as @ h # bs)"
    and "\<forall>x \<in> set as \<union> set bs. nx' x = (if as \<noteq> [] \<and> x = last as then nx h else nx x)"
    and "\<forall>x \<in> set as \<union> set bs. pv' x = (if bs \<noteq> [] \<and> x = hd bs then pv h else pv x)"
  shows "dll nx' pv' q (if as = [] then nx h else p) (as @ bs)"
  using assms
proof (induction as arbitrary: q p)
  case Nil
  note P = Nil
  show ?case
  proof (cases bs)
    case Nil
    then show ?thesis using P by simp
  next
    case (Cons b bs')
    then have "dll nx' pv' b (nx b) bs' = dll nx pv b (nx b) bs'"
      using P by (intro dll_cong) auto
    then show ?thesis using P Cons by simp
  qed
next
  case (Cons a as)
  note P = Cons.prems
  have d: "a \<notin> set as" "a \<notin> set bs" "distinct (as @ h # bs)" and l: "dll nx pv a (nx a) (as @ h # bs)"
    and a: "p = a" "a \<noteq> nullptr" "pv a = q"
    using P(1,2) by auto
  have n: "\<forall>x \<in> set as \<union> set bs. nx' x = (if as \<noteq> [] \<and> x = last as then nx h else nx x)"
    using P(3) d(1,2) by (cases "as = []") auto
  have v: "\<forall>x \<in> set as \<union> set bs. pv' x = (if bs \<noteq> [] \<and> x = hd bs then pv h else pv x)"
    using P(4) by auto
  have "dll nx' pv' a (if as = [] then nx h else nx a) (as @ bs)"
    using Cons.IH[OF l d(3) n v] .
  moreover have "nx' a = (if as = [] then nx h else nx a)"
    using P(3) d(1) by (cases "as = []") auto
  moreover have "pv' a = pv a"
    using P(4) d(2) by (cases bs) auto
  ultimately show ?case using a by simp
qed

lemma dll_replace:
  assumes "dll nx pv q p (as @ h # bs)" and "distinct (as @ h # bs)"
    and "s \<noteq> nullptr" and "s \<notin> set as \<union> set bs" and "nx' s = nx h" and "pv' s = pv h"
    and "\<forall>x \<in> set as \<union> set bs. nx' x = (if as \<noteq> [] \<and> x = last as then s else nx x)"
    and "\<forall>x \<in> set as \<union> set bs. pv' x = (if bs \<noteq> [] \<and> x = hd bs then s else pv x)"
  shows "dll nx' pv' q (if as = [] then s else p) (as @ s # bs)"
  using assms
proof (induction as arbitrary: q p)
  case Nil
  note P = Nil
  show ?case
  proof (cases bs)
    case Nil
    then show ?thesis using P by simp
  next
    case (Cons b bs')
    then have "dll nx' pv' b (nx b) bs' = dll nx pv b (nx b) bs'"
      using P by (intro dll_cong) auto
    then show ?thesis using P Cons by simp
  qed
next
  case (Cons a as)
  note P = Cons.prems
  have d: "a \<notin> set as" "a \<notin> set bs" "distinct (as @ h # bs)" and l: "dll nx pv a (nx a) (as @ h # bs)"
    and a: "p = a" "a \<noteq> nullptr" "pv a = q"
    using P(1,2) by auto
  have s: "s \<notin> set as \<union> set bs" using P(4) by simp
  have n: "\<forall>x \<in> set as \<union> set bs. nx' x = (if as \<noteq> [] \<and> x = last as then s else nx x)"
    using P(7) d(1,2) by (cases "as = []") auto
  have v: "\<forall>x \<in> set as \<union> set bs. pv' x = (if bs \<noteq> [] \<and> x = hd bs then s else pv x)"
    using P(8) by auto
  have "dll nx' pv' a (if as = [] then s else nx a) (as @ s # bs)"
    using Cons.IH[OF l d(3) P(3) s P(5,6) n v] .
  moreover have "nx' a = (if as = [] then s else nx a)"
    using P(7) d(1) by (cases "as = []") auto
  moreover have "pv' a = pv a"
    using P(8) d(2) by (cases bs) auto
  ultimately show ?case using a by simp
qed

lemma dll_snoc:
  assumes "dll nx pv q p hs" and "distinct hs" and "h \<noteq> nullptr" and "h \<notin> set hs"
    and "nx' h = nullptr" and "pv' h = (if hs = [] then q else last hs)"
    and "\<forall>x \<in> set hs. nx' x = (if x = last hs then h else nx x) \<and> pv' x = pv x"
  shows "dll nx' pv' q (if hs = [] then h else p) (hs @ [h])"
  using assms
proof (induction hs arbitrary: q p)
  case Nil
  then show ?case by simp
next
  case (Cons a as)
  have "dll nx' pv' a (if as = [] then h else nx a) (as @ [h])"
    using Cons.prems by (intro Cons.IH) (auto split: if_splits)
  then show ?case using Cons.prems by (auto split: if_splits)
qed

end
