(* ===== verification/Heap_Blocks.thy ===== *)
theory Heap_Blocks
  imports Kmalloc Dll
begin

text \<open>
  Blocks of the kernel heap in byte memory: what a well-formed block is, that
  writing one block leaves the others alone, and what the list operations,
  splitting a block and finishing an allocation do to the free list and to
  every other block.
\<close>

section \<open>Blocks in memory\<close>

definition extent :: "memory \<Rightarrow> u32 \<Rightarrow> nat set" where
  "extent m h = {unat h..<unat h + unat (h_size m h)}"

text \<open>A well-formed block: at least \<open>MIN_BLOCK\<close> bytes, not beyond the top of memory, with its
  magic number, and with its size repeated in its footer.\<close>

definition blk_ok :: "memory \<Rightarrow> u32 \<Rightarrow> bool" where
  "blk_ok m h \<longleftrightarrow> 32 \<le> unat (h_size m h) \<and> unat h + unat (h_size m h) \<le> 2 ^ 32
     \<and> h_magic m h = HEAP_MAGIC \<and> rd32 m (h + h_size m h - 4) = h_size m h"

definition blocks :: "memory \<Rightarrow> u32 set \<Rightarrow> bool" where
  "blocks m B \<longleftrightarrow> (\<forall>x \<in> B. blk_ok m x)
     \<and> (\<forall>x \<in> B. \<forall>y \<in> B. x \<noteq> y \<longrightarrow> extent m x \<inter> extent m y = {})"

lemma field_addr:
  assumes "unat (h :: u32) + 16 \<le> 2 ^ 32"
  shows "unat (h + 4) = unat h + 4" "unat (h + 8) = unat h + 8" "unat (h + 12) = unat h + 12"
  using assms by (simp_all add: unat_add_small)

lemma footer_addr:
  assumes "4 \<le> unat (n :: u32)" and "unat h + unat n \<le> 2 ^ 32"
  shows "unat (h + n - 4) = unat h + unat n - 4"
proof -
  have "unat (n - 4) = unat n - 4" using assms(1) by (simp add: unat_sub word_le_nat_alt)
  moreover from this have "unat (h + (n - 4)) = unat h + unat (n - 4)"
    using assms by (intro unat_add_small) simp
  ultimately show ?thesis using assms(1) by (simp add: add_diff_eq)
qed

lemma blk_okD:
  assumes "blk_ok m h"
  shows "32 \<le> unat (h_size m h)" "unat h + unat (h_size m h) \<le> 2 ^ 32" "unat h + 16 \<le> 2 ^ 32"
    "h_magic m h = HEAP_MAGIC" "rd32 m (h + h_size m h - 4) = h_size m h"
  using assms by (auto simp: blk_ok_def)

text \<open>A change outside a block's header leaves its fields, and one outside the block leaves
  the block well formed.\<close>

lemma fields_frame:
  assumes "only A m m'" and "unat h + 16 \<le> 2 ^ 32" and "{unat h..<unat h + 16} \<inter> A = {}"
  shows "h_size m' h = h_size m h" "h_magic m' h = h_magic m h"
    "h_next m' h = h_next m h" "h_prev m' h = h_prev m h"
  using assms field_addr[OF assms(2)] unfolding field_defs
  by (auto intro!: rd32_only[OF assms(1)] simp: disjoint_iff)

lemma blk_frame:
  assumes "only A m m'" and "blk_ok m h" and "extent m h \<inter> A = {}"
  shows "blk_ok m' h" "h_size m' h = h_size m h" "extent m' h = extent m h"
    "h_next m' h = h_next m h" "h_prev m' h = h_prev m h"
proof -
  note b = blk_okD[OF assms(2)]
  have d: "{unat h..<unat h + 16} \<inter> A = {}"
    using assms(3) b(1) by (auto simp: extent_def disjoint_iff)
  note f = fields_frame[OF assms(1) b(3) d]
  have a: "unat (h + h_size m h - 4) = unat h + unat (h_size m h) - 4"
    using b(1,2) by (intro footer_addr) auto
  have "rd32 m' (h + h_size m h - 4) = rd32 m (h + h_size m h - 4)"
    using assms(3) b(1,2) a by (intro rd32_only[OF assms(1)]) (auto simp: extent_def disjoint_iff)
  then show "blk_ok m' h" using b f by (simp add: blk_ok_def)
  show "h_size m' h = h_size m h" "extent m' h = extent m h"
    "h_next m' h = h_next m h" "h_prev m' h = h_prev m h"
    using f by (simp_all add: extent_def)
qed

lemma blocks_frame:
  assumes "only A m m'" and "blocks m B" and "\<And>x. x \<in> B \<Longrightarrow> extent m x \<inter> A = {}"
  shows "blocks m' B"
  using assms(2) blk_frame(1,3)[OF assms(1) _ assms(3)] by (simp add: blocks_def)

lemma blocks_mono: "blocks m B \<Longrightarrow> C \<subseteq> B \<Longrightarrow> blocks m C"
  unfolding blocks_def by (meson subsetD)

text \<open>Writing a link of a block changes that link only.\<close>

lemma link_addr:
  "blk_ok m x \<Longrightarrow> {unat x + 8..<unat x + 12} \<subseteq> extent m x \<and> {unat x + 12..<unat x + 16} \<subseteq> extent m x"
  by (auto simp: extent_def dest: blk_okD(1))

lemma set_next_self:
  assumes "blk_ok m x"
  shows "only {unat x + 8..<unat x + 12} m (set_next x v m)" "blk_ok (set_next x v m) x"
    "h_size (set_next x v m) x = h_size m x" "h_next (set_next x v m) x = v"
    "h_prev (set_next x v m) x = h_prev m x"
proof -
  note b = blk_okD[OF assms] and a = field_addr[OF blk_okD(3)[OF assms]]
  show o: "only {unat x + 8..<unat x + 12} m (set_next x v m)"
    using wr32_only[of "x + 8" m v] a b by (simp add: set_next_def add.assoc)
  have f: "unat (x + h_size m x - 4) = unat x + unat (h_size m x) - 4"
    using b by (intro footer_addr) auto
  show s: "h_size (set_next x v m) x = h_size m x"
    unfolding h_size_def using b by (intro rd32_only[OF o]) auto
  show "h_next (set_next x v m) x = v" by (simp add: h_next_def set_next_def)
  show "h_prev (set_next x v m) x = h_prev m x"
    unfolding h_prev_def using b a by (intro rd32_only[OF o]) auto
  have "h_magic (set_next x v m) x = h_magic m x"
    unfolding h_magic_def using b a by (intro rd32_only[OF o]) auto
  moreover have "rd32 (set_next x v m) (x + h_size m x - 4) = rd32 m (x + h_size m x - 4)"
    using b f by (intro rd32_only[OF o]) auto
  ultimately show "blk_ok (set_next x v m) x" using b s by (simp add: blk_ok_def)
qed

lemma set_prev_self:
  assumes "blk_ok m x"
  shows "only {unat x + 12..<unat x + 16} m (set_prev x v m)" "blk_ok (set_prev x v m) x"
    "h_size (set_prev x v m) x = h_size m x" "h_prev (set_prev x v m) x = v"
    "h_next (set_prev x v m) x = h_next m x"
proof -
  note b = blk_okD[OF assms] and a = field_addr[OF blk_okD(3)[OF assms]]
  show o: "only {unat x + 12..<unat x + 16} m (set_prev x v m)"
    using wr32_only[of "x + 12" m v] a b by (simp add: set_prev_def add.assoc)
  have f: "unat (x + h_size m x - 4) = unat x + unat (h_size m x) - 4"
    using b by (intro footer_addr) auto
  show s: "h_size (set_prev x v m) x = h_size m x"
    unfolding h_size_def using b by (intro rd32_only[OF o]) auto
  show "h_prev (set_prev x v m) x = v" by (simp add: h_prev_def set_prev_def)
  show "h_next (set_prev x v m) x = h_next m x"
    unfolding h_next_def using b a by (intro rd32_only[OF o]) auto
  have "h_magic (set_prev x v m) x = h_magic m x"
    unfolding h_magic_def using b a by (intro rd32_only[OF o]) auto
  moreover have "rd32 (set_prev x v m) (x + h_size m x - 4) = rd32 m (x + h_size m x - 4)"
    using b f by (intro rd32_only[OF o]) auto
  ultimately show "blk_ok (set_prev x v m) x" using b s by (simp add: blk_ok_def)
qed

lemma set_next_blocks:
  assumes "blocks m B" and "x \<in> B" and "y \<in> B"
  shows "h_size (set_next x v m) y = h_size m y" "extent (set_next x v m) y = extent m y"
    "h_next (set_next x v m) y = (if y = x then v else h_next m y)"
    "h_prev (set_next x v m) y = h_prev m y" "blk_ok (set_next x v m) y"
    "only (extent m x) m (set_next x v m)"
proof -
  have x: "blk_ok m x" and y: "blk_ok m y" using assms by (auto simp: blocks_def)
  note s = set_next_self[OF x, of v]
  show o: "only (extent m x) m (set_next x v m)"
    using only_mono[OF s(1)] link_addr[OF x] by blast
  have d: "extent m y \<inter> extent m x = {}" if "y \<noteq> x"
    using assms that by (auto simp: blocks_def)
  show "h_size (set_next x v m) y = h_size m y" "extent (set_next x v m) y = extent m y"
    "h_next (set_next x v m) y = (if y = x then v else h_next m y)"
    "h_prev (set_next x v m) y = h_prev m y" "blk_ok (set_next x v m) y"
    using s blk_frame[OF o y d] by (cases "y = x"; simp add: extent_def)+
qed

lemma set_prev_blocks:
  assumes "blocks m B" and "x \<in> B" and "y \<in> B"
  shows "h_size (set_prev x v m) y = h_size m y" "extent (set_prev x v m) y = extent m y"
    "h_prev (set_prev x v m) y = (if y = x then v else h_prev m y)"
    "h_next (set_prev x v m) y = h_next m y" "blk_ok (set_prev x v m) y"
    "only (extent m x) m (set_prev x v m)"
proof -
  have x: "blk_ok m x" and y: "blk_ok m y" using assms by (auto simp: blocks_def)
  note s = set_prev_self[OF x, of v]
  show o: "only (extent m x) m (set_prev x v m)"
    using only_mono[OF s(1)] link_addr[OF x] by blast
  have d: "extent m y \<inter> extent m x = {}" if "y \<noteq> x"
    using assms that by (auto simp: blocks_def)
  show "h_size (set_prev x v m) y = h_size m y" "extent (set_prev x v m) y = extent m y"
    "h_prev (set_prev x v m) y = (if y = x then v else h_prev m y)"
    "h_next (set_prev x v m) y = h_next m y" "blk_ok (set_prev x v m) y"
    using s blk_frame[OF o y d] by (cases "y = x"; simp add: extent_def)+
qed

lemma blocks_set_next: "blocks m B \<Longrightarrow> x \<in> B \<Longrightarrow> blocks (set_next x v m) B"
  using set_next_blocks(2,5) by (simp add: blocks_def)

lemma blocks_set_prev: "blocks m B \<Longrightarrow> x \<in> B \<Longrightarrow> blocks (set_prev x v m) B"
  using set_prev_blocks(2,5) by (simp add: blocks_def)

section \<open>The list operations\<close>

abbreviation list_of :: "memory \<Rightarrow> u32 \<Rightarrow> u32 list \<Rightarrow> bool" where
  "list_of m p hs \<equiv> dll (h_next m) (h_prev m) nullptr p hs \<and> distinct hs"

lemma list_last_dll:
  "dll (h_next m) pv q p hs \<Longrightarrow> hs \<noteq> [] \<Longrightarrow> list_last m p = Some (last hs)"
proof (induction hs arbitrary: q p)
  case (Cons h hs)
  then have d: "p = h" "dll (h_next m) pv h (h_next m h) hs" by simp_all
  show ?case
  proof (cases hs)
    case Nil
    then show ?thesis using d by (simp add: list_last.simps[of m h])
  next
    case (Cons b bs)
    then have "h_next m h \<noteq> nullptr" using d(2) by simp
    then show ?thesis using Cons.IH[OF d(2)] Cons d(1) by (simp add: list_last.simps[of m h])
  qed
qed simp

lemma find_fit_dll:
  "dll (h_next m) pv q p hs \<Longrightarrow>
     find_fit m n p = Some (case find (\<lambda>h. n \<le> h_size m h) hs of None \<Rightarrow> nullptr | Some h \<Rightarrow> h)"
proof (induction hs arbitrary: q p)
  case Nil
  then show ?case by (simp add: find_fit.simps[of m n])
next
  case (Cons h hs)
  then have d: "p = h" "h \<noteq> nullptr" "dll (h_next m) pv h (h_next m h) hs" by simp_all
  show ?case using Cons.IH[OF d(3)] d by (simp add: find_fit.simps[of m n h])
qed

text \<open>A conditional update of a link.\<close>

lemma set_next_if:
  assumes "blocks m B" and "c \<longrightarrow> x \<in> B" and "m' = (if c then set_next x v m else m)"
  shows "blocks m' B"
    and "y \<in> B \<Longrightarrow> h_size m' y = h_size m y \<and> extent m' y = extent m y
      \<and> h_prev m' y = h_prev m y \<and> h_next m' y = (if c \<and> y = x then v else h_next m y)"
    and "only (if c then extent m x else {}) m m'"
  using assms set_next_blocks[of m B x y v] set_next_blocks(6)[of m B x x v] blocks_set_next[of m B x v]
  by (cases c; simp)+

lemma set_prev_if:
  assumes "blocks m B" and "c \<longrightarrow> x \<in> B" and "m' = (if c then set_prev x v m else m)"
  shows "blocks m' B"
    and "y \<in> B \<Longrightarrow> h_size m' y = h_size m y \<and> extent m' y = extent m y
      \<and> h_next m' y = h_next m y \<and> h_prev m' y = (if c \<and> y = x then v else h_prev m y)"
    and "only (if c then extent m x else {}) m m'"
  using assms set_prev_blocks[of m B x y v] set_prev_blocks(6)[of m B x x v] blocks_set_prev[of m B x v]
  by (cases c; simp)+

text \<open>Both operations change only the links of blocks on the list.\<close>

lemma list_remove_ok:
  assumes l: "list_of (mem s) (free_list s) (as @ h # bs)" and B: "blocks (mem s) B"
    and sub: "set (as @ h # bs) \<subseteq> B"
  obtains m' where "list_remove h s = s\<lparr>mem := m', free_list := if as = [] then h_next (mem s) h else free_list s\<rparr>"
    "list_of m' (if as = [] then h_next (mem s) h else free_list s) (as @ bs)" "blocks m' B"
    "\<And>y. y \<in> B \<Longrightarrow> h_size m' y = h_size (mem s) y"
    "only (\<Union>x \<in> set as \<union> set bs. extent (mem s) x) (mem s) m'"
proof -
  define m where "m = mem s"
  define c where "c \<longleftrightarrow> as \<noteq> []"
  define d where "d \<longleftrightarrow> bs \<noteq> []"
  define m1 where "m1 = (if c then set_next (last as) (h_next m h) m else m)"
  define m2 where "m2 = (if d then set_prev (hd bs) (h_prev m h) m1 else m1)"
  have nz: "nullptr \<notin> set (as @ h # bs)" using l dll_nonnull by blast
  have ls: "c \<Longrightarrow> last as \<in> set as" "d \<Longrightarrow> hd bs \<in> set bs" by (simp_all add: c_def d_def)
  then have inB: "c \<longrightarrow> last as \<in> B" "d \<longrightarrow> hd bs \<in> B" "h \<in> B" using sub by auto
  have ne: "c \<Longrightarrow> last as \<noteq> nullptr \<and> last as \<noteq> h" "d \<Longrightarrow> hd bs \<noteq> nullptr \<and> hd bs \<noteq> h"
    using ls nz l by auto
  have links: "h_prev m h = (if c then last as else nullptr)" "h_next m h = (if d then hd bs else nullptr)"
    using dll_links[of "h_next m" "h_prev m" nullptr "free_list s" as h bs] l
    by (auto simp: m_def c_def d_def)
  have B0: "blocks m B" using B by (simp add: m_def)
  note u1 = set_next_if[OF B0 inB(1) m1_def]
  note u2 = set_prev_if[OF u1(1) inB(2) m2_def]
  have h1: "h_next m1 h = h_next m h" "h_prev m1 h = h_prev m h" "h_next m2 h = h_next m h"
    using u1(2)[OF inB(3)] u2(2)[OF inB(3)] ne by auto
  have first: "(free_list s = h) = (\<not> c)"
    using dll_first[of "h_next m" "h_prev m" nullptr "free_list s" "as @ h # bs"] l
    by (cases as) (auto simp: m_def c_def)
  have e1: "(if h_prev m h \<noteq> 0 then set_next (h_prev m h) (h_next m h) m else m) = m1"
    and e2: "(if h_next m1 h \<noteq> 0 then set_prev (h_next m1 h) (h_prev m1 h) m1 else m1) = m2"
    using links ne h1 by (simp_all add: m1_def m2_def)
  have eq: "list_remove h s = s\<lparr>mem := m2, free_list := if as = [] then h_next m h else free_list s\<rparr>"
    unfolding list_remove_def Let_def m_def[symmetric] e1 e2
    using first h1(3) by (simp add: c_def)
  have "dll (h_next m2) (h_prev m2) nullptr (if as = [] then h_next m h else free_list s) (as @ bs)"
  proof (rule dll_remove[of "h_next m" "h_prev m" nullptr "free_list s" as h bs])
    show "dll (h_next m) (h_prev m) nullptr (free_list s) (as @ h # bs)" "distinct (as @ h # bs)"
      using l by (simp_all add: m_def)
    show "\<forall>x \<in> set as \<union> set bs. h_next m2 x = (if as \<noteq> [] \<and> x = last as then h_next m h else h_next m x)"
      "\<forall>x \<in> set as \<union> set bs. h_prev m2 x = (if bs \<noteq> [] \<and> x = hd bs then h_prev m h else h_prev m x)"
      using u1(2) u2(2) sub by (auto simp: c_def d_def)
  qed
  then have lo: "list_of m2 (if as = [] then h_next m h else free_list s) (as @ bs)" using l by simp
  let ?A = "\<Union>x \<in> set as \<union> set bs. extent m x"
  have "only ?A m m1" by (rule only_mono[OF u1(3)]) (use ls(1) in \<open>auto split: if_splits\<close>)
  moreover have "only ?A m1 m2" by (rule only_mono[OF u2(3)]) (use ls(2) inB(2) u1(2) in \<open>auto split: if_splits\<close>)
  ultimately have o: "only ?A m m2" by (rule only_trans)
  show thesis
    using that[OF _ _ _ _ _] eq lo u2(1) u1(2) u2(2) o unfolding m_def by metis
qed

text \<open>Appending a block that is not on the list.\<close>

lemma list_append_ok:
  assumes l: "list_of (mem s) (free_list s) hs" and B: "blocks (mem s) B"
    and sub: "set hs \<subseteq> B" "h \<in> B" and h: "h \<noteq> nullptr" "h \<notin> set hs"
  obtains m' where "list_append h s = Inr (s\<lparr>mem := m', free_list := if hs = [] then h else free_list s\<rparr>)"
    "list_of m' (if hs = [] then h else free_list s) (hs @ [h])" "blocks m' B"
    "\<And>y. y \<in> B \<Longrightarrow> h_size m' y = h_size (mem s) y"
    "only (\<Union>x \<in> set hs \<union> {h}. extent (mem s) x) (mem s) m'"
proof -
  define m where "m = mem s"
  define m1 where "m1 = set_next h nullptr m"
  define m2 where "m2 = set_prev h nullptr m1"
  define c where "c \<longleftrightarrow> hs \<noteq> []"
  define m3 where "m3 = (if c then set_next (last hs) h m2 else m2)"
  define m4 where "m4 = (if c then set_prev h (last hs) m3 else m3)"
  have B0: "blocks m B" using B by (simp add: m_def)
  have inB: "c \<longrightarrow> last hs \<in> B" "c \<longrightarrow> h \<in> B" "True \<longrightarrow> h \<in> B" using sub by (auto simp: c_def)
  have ls: "c \<Longrightarrow> last hs \<in> set hs" by (simp add: c_def)
  note u1 = set_next_if[OF B0 inB(3), of m1 nullptr, simplified if_True m1_def[symmetric], OF refl]
  note u2 = set_prev_if[OF u1(1) inB(3), of m2 nullptr, simplified if_True m2_def[symmetric], OF refl]
  note u3 = set_next_if[OF u2(1) inB(1) m3_def]
  note u4 = set_prev_if[OF u3(1) inB(2) m4_def]
  have cong: "\<forall>x \<in> set hs. h_next m2 x = h_next m x \<and> h_prev m2 x = h_prev m x"
    using u1(2) u2(2) sub h by auto
  have l2: "dll (h_next m2) (h_prev m2) nullptr (free_list s) hs"
    using l dll_cong[OF cong] by (simp add: m_def)
  have fl: "(free_list s = nullptr) = (hs = [])" using l by (cases hs) auto
  have eq: "list_append h s = Inr (s\<lparr>mem := m4, free_list := if hs = [] then h else free_list s\<rparr>)"
    unfolding list_append_def Let_def m_def[symmetric] m1_def[symmetric] m2_def[symmetric]
    using fl list_last_dll[OF l2] by (simp add: m3_def m4_def c_def)
  have "dll (h_next m4) (h_prev m4) nullptr (if hs = [] then h else free_list s) (hs @ [h])"
  proof (rule dll_snoc[OF l2])
    show "h_next m4 h = nullptr" "h_prev m4 h = (if hs = [] then nullptr else last hs)"
      using u1(2)[OF sub(2)] u2(2)[OF sub(2)] u3(2)[OF sub(2)] u4(2)[OF sub(2)] ls h
      by (auto simp: c_def)
    show "\<forall>x \<in> set hs. h_next m4 x = (if x = last hs then h else h_next m2 x) \<and> h_prev m4 x = h_prev m2 x"
    proof
      fix x assume x: "x \<in> set hs"
      then have "x \<in> B" "x \<noteq> h" c using sub h by (auto simp: c_def)
      then show "h_next m4 x = (if x = last hs then h else h_next m2 x) \<and> h_prev m4 x = h_prev m2 x"
        using u3(2) u4(2) by simp
    qed
  qed (use l h in simp_all)
  then have lo: "list_of m4 (if hs = [] then h else free_list s) (hs @ [h])" using l h by simp
  have sz: "h_size m4 y = h_size m y \<and> extent m4 y = extent m y" if "y \<in> B" for y
    using u1(2)[OF that] u2(2)[OF that] u3(2)[OF that] u4(2)[OF that] by simp
  let ?A = "\<Union>x \<in> set hs \<union> {h}. extent m x"
  have "only ?A m m1" using u1(3) by (rule only_mono) auto
  moreover have "only ?A m1 m2" by (rule only_mono[OF u2(3)]) (use u1(2)[OF sub(2)] in auto)
  moreover have "only ?A m2 m3"
    by (rule only_mono[OF u3(3)]) (use ls u1(2) u2(2) inB(1) in \<open>auto split: if_splits\<close>)
  moreover have "only ?A m3 m4"
    by (rule only_mono[OF u4(3)]) (use u1(2)[OF sub(2)] u2(2)[OF sub(2)] u3(2)[OF sub(2)] in \<open>auto split: if_splits\<close>)
  ultimately have o: "only ?A m m4" using only_trans by blast
  show thesis
    using that eq lo u4(1) sz o unfolding m_def by metis
qed

section \<open>Making and finishing a block\<close>

definition new_block :: "u32 \<Rightarrow> u32 \<Rightarrow> memory \<Rightarrow> memory" where
  "new_block h n m = set_footer h (set_magic h HEAP_MAGIC (set_size h n m))"

lemma new_block_ok:
  assumes "32 \<le> unat n" and "unat h + unat n \<le> 2 ^ 32"
  shows "blk_ok (new_block h n m) h" "h_size (new_block h n m) h = n"
    "extent (new_block h n m) h = {unat h..<unat h + unat n}"
    "only {unat h..<unat h + unat n} m (new_block h n m)"
proof -
  let ?m1 = "set_size h n m" and ?m2 = "set_magic h HEAP_MAGIC (set_size h n m)"
  have h: "unat h + 16 \<le> 2 ^ 32" using assms by simp
  note a = field_addr[OF h] and f = footer_addr[of n h]
  have s2: "h_size ?m2 h = n"
    using h a by (simp add: field_defs rd32_wr32_disjoint)
  have g2: "h_magic ?m2 h = HEAP_MAGIC" by (simp add: field_defs)
  have eq: "new_block h n m = wr32 ?m2 (h + n - 4) n"
    by (simp add: new_block_def set_footer_def s2)
  have fa: "unat (h + n - 4) = unat h + unat n - 4" using f assms by simp
  have o3: "only {unat (h + n - 4)..<unat (h + n - 4) + 4} ?m2 (new_block h n m)"
    unfolding eq using fa assms by (intro wr32_only) simp
  have o1: "only {unat h..<unat h + 4} m ?m1"
    unfolding set_size_def using h by (intro wr32_only) simp
  have o2: "only {unat h + 4..<unat h + 8} ?m1 ?m2"
    unfolding set_magic_def using h a wr32_only[of "h + 4" ?m1 HEAP_MAGIC] by (simp add: add.assoc)
  show "only {unat h..<unat h + unat n} m (new_block h n m)"
    by (rule only_trans[OF only_mono[OF o1] only_trans[OF only_mono[OF o2] only_mono[OF o3]]])
      (use assms fa in auto)
  show sz: "h_size (new_block h n m) h = n"
    using s2 assms h fa rd32_only[OF o3, of h] by (simp add: h_size_def)
  have "h_magic (new_block h n m) h = HEAP_MAGIC"
    using g2 assms h fa a rd32_only[OF o3, of "h + 4"] by (simp add: h_magic_def)
  moreover have "rd32 (new_block h n m) (h + n - 4) = n" by (simp add: eq)
  ultimately show "blk_ok (new_block h n m) h" using sz assms by (simp add: blk_ok_def)
  show "extent (new_block h n m) h = {unat h..<unat h + unat n}" by (simp add: extent_def sz)
qed

text \<open>The end of an allocation: write the footer and clear the payload.\<close>

definition finish_block :: "u32 \<Rightarrow> memory \<Rightarrow> memory" where
  "finish_block h m = memset (set_footer h m) (h + 16) 0 (h_size (set_footer h m) h - 16 - 4)"

lemma finish_block_ok:
  assumes "32 \<le> unat (h_size m h)" and "unat h + unat (h_size m h) \<le> 2 ^ 32"
    and "h_magic m h = HEAP_MAGIC"
  shows "blk_ok (finish_block h m) h" "h_size (finish_block h m) h = h_size m h"
    "only {unat h + 16..<unat h + unat (h_size m h)} m (finish_block h m)"
    "\<And>a. unat h + 16 \<le> unat a \<Longrightarrow> unat a < unat h + unat (h_size m h) - 4 \<Longrightarrow> finish_block h m a = 0"
proof -
  define n where "n = h_size m h"
  define m1 where "m1 = set_footer h m"
  have h: "unat h + 16 \<le> 2 ^ 32" using assms by simp
  have fa: "unat (h + n - 4) = unat h + unat n - 4"
    using assms unfolding n_def by (intro footer_addr) auto
  have o1: "only {unat h + unat n - 4..<unat h + unat n} m m1"
    using wr32_only[of "h + n - 4" m n] fa assms by (simp add: m1_def set_footer_def n_def[symmetric])
  have s1: "h_size m1 h = n"
    using fields_frame(1)[OF o1 h] assms by (simp add: n_def)
  have n20: "unat (n - 16 - 4) = unat n - 20"
    using assms(1) by (simp add: n_def unat_sub word_le_nat_alt)
  have h16: "unat (h + 16) = unat h + 16" using assms by (intro unat_add_small[of h 16, simplified]) simp
  have fin: "finish_block h m = memset m1 (h + 16) 0 (n - 16 - 4)"
    by (simp add: finish_block_def m1_def[symmetric] s1)
  have inr: "(unat (a - (h + 16)) < unat n - 20) = (unat h + 16 \<le> unat a \<and> unat a < unat h + unat n - 4)" for a
    using h16 assms unat_sub_if'[of a "h + 16"] unat_less_pow[of a] unfolding n_def[symmetric]
    by auto
  have val: "finish_block h m a = (if unat h + 16 \<le> unat a \<and> unat a < unat h + unat n - 4 then 0 else m1 a)" for a
    unfolding fin memset_apply n20 inr ..
  then have o2: "only {unat h + 16..<unat h + unat n - 4} m1 (finish_block h m)" by (simp add: only_def)
  show o: "only {unat h + 16..<unat h + unat (h_size m h)} m (finish_block h m)"
    by (rule only_trans[OF only_mono[OF o1] only_mono[OF o2]]) (use assms in \<open>auto simp: n_def\<close>)
  show sz: "h_size (finish_block h m) h = h_size m h" by (rule fields_frame(1)[OF o h]) auto
  have "h_magic (finish_block h m) h = HEAP_MAGIC" using fields_frame(2)[OF o h] assms by auto
  moreover have "rd32 (finish_block h m) (h + n - 4) = rd32 m1 (h + n - 4)"
    using fa assms by (intro rd32_only[OF o2]) (auto simp: n_def)
  then have "rd32 (finish_block h m) (h + n - 4) = n"
    by (simp add: m1_def set_footer_def n_def)
  ultimately show "blk_ok (finish_block h m) h" using assms sz by (simp add: blk_ok_def n_def)
  show "finish_block h m a = 0" if "unat h + 16 \<le> unat a" "unat a < unat h + unat (h_size m h) - 4" for a
    using val that by (simp add: n_def)
qed

section \<open>Taking a block off the list\<close>

lemma blocksD: "blocks m B \<Longrightarrow> x \<in> B \<Longrightarrow> y \<in> B \<Longrightarrow> x \<noteq> y \<Longrightarrow> extent m x \<inter> extent m y = {}"
  by (simp add: blocks_def)

lemma blocks_prefix:
  assumes "blocks m B" and "x \<in> B - {h}" and "h \<in> B" and "k \<le> unat (h_size m h)"
  shows "extent m x \<inter> {unat h..<unat h + k} = {}"
proof -
  have "{unat h..<unat h + k} \<subseteq> extent m h" using assms(4) by (auto simp: extent_def)
  then show ?thesis using blocksD[OF assms(1), of x h] assms(2,3) by blast
qed

lemma blocks_insert:
  assumes "blocks m B" and "blk_ok m h" and "\<And>x. x \<in> B \<Longrightarrow> x \<noteq> h \<Longrightarrow> extent m x \<inter> extent m h = {}"
  shows "blocks m (insert h B)"
  unfolding blocks_def
proof (intro conjI ballI impI)
  show "blk_ok m x" if "x \<in> insert h B" for x
    using assms(1,2) that by (auto simp: blocks_def)
  show "extent m x \<inter> extent m y = {}" if "x \<in> insert h B" "y \<in> insert h B" "x \<noteq> y" for x y
    using assms(1,3) that blocksD[OF assms(1), of x y] by (cases "x = h"; cases "y = h") (auto simp: Int_commute)
qed

text \<open>Writing inside a block that is not in \<open>B\<close> leaves the blocks of \<open>B\<close>.\<close>

lemma blocks_outside:
  assumes "only A m m'" and "blocks m B" and "\<And>x. x \<in> B \<Longrightarrow> extent m x \<inter> A = {}"
  shows "blocks m' B" and "x \<in> B \<Longrightarrow> h_size m' x = h_size m x \<and> extent m' x = extent m x
    \<and> h_next m' x = h_next m x \<and> h_prev m' x = h_prev m x"
  using blocks_frame[OF assms] blk_frame[OF assms(1) _ assms(3)] assms(2) by (auto simp: blocks_def)

lemma list_of_outside:
  assumes "only A m m'" and "blocks m B" and "\<And>x. x \<in> B \<Longrightarrow> extent m x \<inter> A = {}"
    and "list_of m p hs" and "set hs \<subseteq> B"
  shows "list_of m' p hs"
  using dll_cong[of hs "h_next m'" "h_next m" "h_prev m'" "h_prev m" nullptr p]
    blocks_outside(2)[OF assms(1-3)] assms(4,5) by auto

text \<open>The links of the list after \<open>kmalloc\<close> replaces the block \<open>h\<close> by its second part \<open>sp\<close>.\<close>

lemma relink_ok:
  assumes l: "list_of m p (as @ h # bs)" and B: "blocks m2 (insert sp B)"
    and sub: "set as \<union> set bs \<subseteq> B" and sp: "sp \<noteq> nullptr" "sp \<notin> B"
    and same: "\<forall>x \<in> set as \<union> set bs. h_next m2 x = h_next m x \<and> h_prev m2 x = h_prev m x"
    and m3: "m3 = set_next sp (h_next m h) m2" and m4: "m4 = set_prev sp (h_prev m h) m3"
    and m5: "m5 = (if bs \<noteq> [] then set_prev (hd bs) sp m4 else m4)"
    and m6: "m6 = (if as \<noteq> [] then set_next (last as) sp m5 else m5)"
  shows "list_of m6 (if as = [] then sp else p) (as @ sp # bs)" "blocks m6 (insert sp B)"
    "\<And>x. x \<in> insert sp B \<Longrightarrow> h_size m6 x = h_size m2 x \<and> extent m6 x = extent m2 x"
    "only (\<Union>x \<in> set as \<union> set bs \<union> {sp}. extent m2 x) m2 m3"
    "only (\<Union>x \<in> set as \<union> set bs \<union> {sp}. extent m2 x) m3 m4"
    "only (\<Union>x \<in> set as \<union> set bs \<union> {sp}. extent m2 x) m4 m5"
    "only (\<Union>x \<in> set as \<union> set bs \<union> {sp}. extent m2 x) m5 m6"
proof -
  let ?B = "insert sp B" and ?A = "\<Union>x \<in> set as \<union> set bs \<union> {sp}. extent m2 x"
  have ls: "bs \<noteq> [] \<Longrightarrow> hd bs \<in> set bs" "as \<noteq> [] \<Longrightarrow> last as \<in> set as" by simp_all
  then have i: "True \<longrightarrow> sp \<in> ?B" "bs \<noteq> [] \<longrightarrow> hd bs \<in> ?B" "as \<noteq> [] \<longrightarrow> last as \<in> ?B"
    using sub by blast+
  have m3': "m3 = (if True then set_next sp (h_next m h) m2 else m2)"
    and m4': "m4 = (if True then set_prev sp (h_prev m h) m3 else m3)" using m3 m4 by simp_all
  note u3 = set_next_if[OF B i(1) m3'] note u4 = set_prev_if[OF u3(1) i(1) m4']
  note u5 = set_prev_if[OF u4(1) i(2) m5]
  note u6 = set_next_if[OF u5(1) i(3) m6]
  have ne: "bs \<noteq> [] \<Longrightarrow> sp \<noteq> hd bs" "as \<noteq> [] \<Longrightarrow> sp \<noteq> last as" using ls sub sp by blast+
  have "dll (h_next m6) (h_prev m6) nullptr (if as = [] then sp else p) (as @ sp # bs)"
  proof (rule dll_replace[of "h_next m" "h_prev m" nullptr p as h bs])
    show "h_next m6 sp = h_next m h" "h_prev m6 sp = h_prev m h"
      using u3(2)[of sp] u4(2)[of sp] u5(2)[of sp] u6(2)[of sp] ne by auto
    have *: "h_next m6 x = (if as \<noteq> [] \<and> x = last as then sp else h_next m x)
        \<and> h_prev m6 x = (if bs \<noteq> [] \<and> x = hd bs then sp else h_prev m x)" if "x \<in> set as \<union> set bs" for x
    proof -
      have x: "x \<in> ?B" "x \<noteq> sp" using that sub sp by auto
      have "h_next m5 x = h_next m x" "h_prev m4 x = h_prev m x"
        using x u3(2)[OF x(1)] u4(2)[OF x(1)] u5(2)[OF x(1)] bspec[OF same that] by simp_all
      then show ?thesis using conjunct2[OF u5(2)[OF x(1)]] u6(2)[OF x(1)] by (simp only:)
    qed
    then show "\<forall>x \<in> set as \<union> set bs. h_next m6 x = (if as \<noteq> [] \<and> x = last as then sp else h_next m x)"
      "\<forall>x \<in> set as \<union> set bs. h_prev m6 x = (if bs \<noteq> [] \<and> x = hd bs then sp else h_prev m x)" by auto
  qed (use l sub sp in auto)
  moreover have "distinct (as @ sp # bs)" using l sub sp by auto
  ultimately show "list_of m6 (if as = [] then sp else p) (as @ sp # bs)" by simp
  show "blocks m6 ?B" by (rule u6(1))
  show "h_size m6 x = h_size m2 x \<and> extent m6 x = extent m2 x" if "x \<in> ?B" for x
    using u3(2)[OF that] u4(2)[OF that] u5(2)[OF that] u6(2)[OF that] by simp
  show "only ?A m2 m3" by (rule only_mono[OF u3(3)]) auto
  show "only ?A m3 m4" by (rule only_mono[OF u4(3)]) (use u3(2)[of sp] in auto)
  show "only ?A m4 m5"
    by (rule only_mono[OF u5(3)]) (use ls u3(2) u4(2) i in \<open>auto split: if_splits\<close>)
  show "only ?A m5 m6"
    by (rule only_mono[OF u6(3)]) (use ls u3(2) u4(2) u5(2) i in \<open>auto split: if_splits\<close>)
qed

text \<open>What taking \<open>needed\<close> bytes of the block \<open>h\<close> does to the heap: the list with \<open>h\<close> replaced by
  the rest of the block, if there is one.\<close>

definition taken :: "memory \<Rightarrow> u32 set \<Rightarrow> u32 list \<Rightarrow> u32 \<Rightarrow> u32 list \<Rightarrow> u32 \<Rightarrow> u32 list \<Rightarrow> memory \<Rightarrow> u32 \<Rightarrow> bool" where
  "taken m B as h bs needed rest m' fl' \<longleftrightarrow>
     list_of m' fl' (as @ rest @ bs) \<and> blocks m' (B \<union> set rest) \<and> set rest \<inter> B = {}
   \<and> needed \<le> h_size m' h \<and> h_size m' h = (if rest = [] then h_size m h else needed) \<and> (\<forall>x \<in> B - {h}. h_size m' x = h_size m x)
   \<and> extent m' h \<subseteq> extent m h \<and> (\<forall>x \<in> set rest. extent m' x \<subseteq> extent m h)
   \<and> only (\<Union>x \<in> set (as @ h # bs). extent m x) m m'
   \<and> (\<forall>a. unat h + 16 \<le> unat a \<and> unat a < unat h + unat (h_size m' h) - 4 \<longrightarrow> m' a = 0)"

lemma take_whole_ok:
  assumes l: "list_of (mem s) (free_list s) (as @ h # bs)" and B: "blocks (mem s) B"
    and sub: "set (as @ h # bs) \<subseteq> B" and n: "needed \<le> h_size (mem s) h"
    and small: "\<not> h_size (mem s) h - needed \<ge> MIN_BLOCK"
  obtains m' fl' where "kmalloc_take needed h s = (h + 16, s\<lparr>mem := m', free_list := fl'\<rparr>)"
    "taken (mem s) B as h bs needed [] m' fl'"
proof -
  let ?m = "mem s" and ?fl = "if as = [] then h_next (mem s) h else free_list s"
  obtain m1 where m1: "list_remove h s = s\<lparr>mem := m1, free_list := ?fl\<rparr>" "list_of m1 ?fl (as @ bs)"
    "blocks m1 B" "\<And>y. y \<in> B \<Longrightarrow> h_size m1 y = h_size ?m y"
    "only (\<Union>x \<in> set as \<union> set bs. extent ?m x) ?m m1"
    using list_remove_ok[OF l B sub] by metis
  define m' where "m' = finish_block h m1"
  have hB: "h \<in> B" using sub by simp
  then have bo: "blk_ok m1 h" using m1(3) by (simp add: blocks_def)
  note f = finish_block_ok[OF blk_okD(1,2,4)[OF bo], folded m'_def]
  have o: "only (extent m1 h) m1 m'" by (rule only_mono[OF f(3)]) (auto simp: extent_def)
  have B1: "blocks m1 (B - {h})" using blocks_mono[OF m1(3)] by blast
  have d: "extent m1 x \<inter> extent m1 h = {}" if "x \<in> B - {h}" for x
    using blocksD[OF m1(3)] that hB by blast
  note u = blocks_outside[OF o B1 d]
  have s': "set (as @ bs) \<subseteq> B - {h}" using sub l by auto
  have e: "extent m' h = extent ?m h" using f(2) m1(4)[OF hB] by (simp add: extent_def)
  have e1: "extent m1 h = extent ?m h" using m1(4)[OF hB] by (simp add: extent_def)
  have "blocks m' (insert h (B - {h}))"
    using u(2) d f(2) by (intro blocks_insert u(1) f(1)) (auto simp: extent_def)
  moreover have "insert h (B - {h}) = B" using hB by blast
  moreover have "list_of m' ?fl (as @ bs)" by (rule list_of_outside[OF o B1 d m1(2) s'])
  moreover have "needed \<le> h_size m' h" "h_size m' h = h_size ?m h" using n f(2) m1(4)[OF hB] by simp_all
  moreover have "\<forall>x \<in> B - {h}. h_size m' x = h_size ?m x" using u(2) m1(4) by simp
  moreover have "only (\<Union>x \<in> set (as @ h # bs). extent ?m x) ?m m'"
    by (rule only_trans[OF only_mono[OF m1(5)] only_mono[OF o]]) (use e1 in auto)
  moreover have "\<forall>a. unat h + 16 \<le> unat a \<and> unat a < unat h + unat (h_size m' h) - 4 \<longrightarrow> m' a = 0"
    using f(2,4) by simp
  ultimately have "taken ?m B as h bs needed [] m' ?fl" using e by (simp add: taken_def)
  moreover have "kmalloc_take needed h s = (h + 16, s\<lparr>mem := m', free_list := ?fl\<rparr>)"
    using small m1(1) by (simp add: kmalloc_take_def ptr_from_header_def HEADER_SIZE_def
        m'_def finish_block_def Let_def)
  ultimately show thesis using that by blast
qed

text \<open>Cutting the second part off a block, and making a block of the first part.\<close>

lemma split_new_ok:
  assumes B: "blocks m B" and h: "h \<in> B"
    and n: "32 \<le> unat needed" "unat needed + 32 \<le> unat (h_size m h)"
    and sp: "sp = h + needed" and m2: "m2 = new_block sp (h_size m h - needed) m"
  shows "unat sp = unat h + unat needed" "sp \<noteq> nullptr" "sp \<notin> B" "blocks m2 (insert sp (B - {h}))"
    "extent m2 sp = {unat h + unat needed..<unat h + unat (h_size m h)}"
    "only (extent m2 sp) m m2"
    "\<And>x. x \<in> B - {h} \<Longrightarrow> h_size m2 x = h_size m x \<and> extent m2 x = extent m x
       \<and> h_next m2 x = h_next m x \<and> h_prev m2 x = h_prev m x"
proof -
  have bo: "blk_ok m h" using B h by (simp add: blocks_def)
  note b = blk_okD[OF bo]
  have lo: "unat (h_size m h - needed) = unat (h_size m h) - unat needed"
    using n by (simp add: unat_sub word_le_nat_alt)
  show u: "unat sp = unat h + unat needed" unfolding sp using b(2) n by (intro unat_add_small) simp
  then show z: "sp \<noteq> nullptr" using n(1) by auto
  have nb: "blk_ok m2 sp" "h_size m2 sp = h_size m h - needed"
    "extent m2 sp = {unat h + unat needed..<unat h + unat (h_size m h)}" "only (extent m2 sp) m m2"
    using new_block_ok[of "h_size m h - needed" sp m] lo u b(2) n by (simp_all add: m2)
  show "extent m2 sp = {unat h + unat needed..<unat h + unat (h_size m h)}" "only (extent m2 sp) m m2"
    by (rule nb)+
  have sub: "extent m2 sp \<subseteq> extent m h" by (auto simp: nb(3) extent_def[of m h])
  have d: "extent m x \<inter> extent m2 sp = {}" if "x \<in> B - {h}" for x
    using blocksD[OF B, of x h] that h sub by blast
  have B0: "blocks m (B - {h})" using blocks_mono[OF B] by blast
  note f = blocks_outside[OF nb(4) B0 d]
  show "blocks m2 (insert sp (B - {h}))"
    using f(2) d by (intro blocks_insert f(1) nb(1)) auto
  show "\<And>x. x \<in> B - {h} \<Longrightarrow> h_size m2 x = h_size m x \<and> extent m2 x = extent m x
       \<and> h_next m2 x = h_next m x \<and> h_prev m2 x = h_prev m x" by (rule f(2))
  show "sp \<notin> B"
  proof
    assume "sp \<in> B"
    then have "blk_ok m sp" "sp \<in> B - {h}" using B u n(1) by (auto simp: blocks_def)
    then have "unat sp \<in> extent m sp" "unat sp \<in> extent m2 sp"
      using blk_okD(1)[of m sp] u n by (auto simp: extent_def[of m sp] nb(3))
    then show False using d[OF \<open>sp \<in> B - {h}\<close>] by blast
  qed
qed

lemma finish_take_ok:
  assumes C: "blocks m C" and h: "32 \<le> unat n" "unat h + unat n \<le> 2 ^ 32" "h_magic m h = HEAP_MAGIC"
    and d: "\<And>x. x \<in> C \<Longrightarrow> extent m x \<inter> {unat h..<unat h + unat n} = {}"
    and m': "m' = finish_block h (set_size h n m)"
  shows "blocks m' (insert h C)" "h_size m' h = n" "only {unat h..<unat h + unat n} m m'"
    "\<And>x. x \<in> C \<Longrightarrow> h_size m' x = h_size m x \<and> extent m' x = extent m x
       \<and> h_next m' x = h_next m x \<and> h_prev m' x = h_prev m x"
    "\<And>a. unat h + 16 \<le> unat a \<Longrightarrow> unat a < unat h + unat n - 4 \<Longrightarrow> m' a = 0"
proof -
  let ?m1 = "set_size h n m"
  have h16: "unat h + 16 \<le> 2 ^ 32" using h by simp
  have o1: "only {unat h..<unat h + 4} m ?m1"
    unfolding set_size_def using h by (intro wr32_only) simp
  have s1: "h_size ?m1 h = n" by (simp add: h_size_def set_size_def)
  have g1: "h_magic ?m1 h = HEAP_MAGIC"
    using h field_addr[OF h16] rd32_only[OF o1, of "h + 4"] by (simp add: h_magic_def)
  note f = finish_block_ok[of ?m1 h, unfolded s1, OF h(1,2) g1, folded m']
  show o: "only {unat h..<unat h + unat n} m m'"
    by (rule only_trans[OF only_mono[OF o1] only_mono[OF f(3)]]) (use h in auto)
  show "h_size m' h = n" by (rule f(2))
  note u = blocks_outside[OF o C d]
  show "\<And>x. x \<in> C \<Longrightarrow> h_size m' x = h_size m x \<and> extent m' x = extent m x
       \<and> h_next m' x = h_next m x \<and> h_prev m' x = h_prev m x" by (rule u(2))
  show "blocks m' (insert h C)"
    using u(2) d f(2) by (intro blocks_insert u(1) f(1)) (auto simp: extent_def)
  show "\<And>a. unat h + 16 \<le> unat a \<Longrightarrow> unat a < unat h + unat n - 4 \<Longrightarrow> m' a = 0" by (rule f(4))
qed

lemma kmalloc_take_split:
  assumes m: "m = mem s" and sp: "sp = h + needed" and m2: "m2 = new_block sp (h_size m h - needed) m"
    and big: "h_size m h - needed \<ge> MIN_BLOCK"
    and m3: "m3 = set_next sp (h_next m h) m2" and m4: "m4 = set_prev sp (h_prev m h) m3"
    and f: "h_next m2 h = h_next m h" "h_prev m3 h = h_prev m h" "h_next m4 h = h_next m h" "h_prev m5 h = h_prev m h"
    and m5: "(if h_next m h \<noteq> nullptr then set_prev (h_next m h) sp m4 else m4) = m5"
    and m6: "(if h_prev m h \<noteq> nullptr then set_next (h_prev m h) sp m5 else m5) = m6"
  shows "kmalloc_take needed h s = (h + 16, s\<lparr>mem := finish_block h (set_size h needed m6),
    free_list := if h_prev m h \<noteq> nullptr then free_list s else sp\<rparr>)"
  unfolding kmalloc_take_def finish_block_def ptr_from_header_def HEADER_SIZE_def
  by (simp only: Let_def m[symmetric] sp[symmetric] new_block_def[symmetric] m2[symmetric] f m3[symmetric]
      m4[symmetric] m5 m6 if_P[OF big]) (simp add: big)

text \<open>The memory up to the point where the first part gets its new size.\<close>

lemma split_relink_ok:
  assumes l: "list_of m p (as @ h # bs)" and B: "blocks m B" and sub: "set (as @ h # bs) \<subseteq> B"
    and n: "32 \<le> unat needed" "unat needed + 32 \<le> unat (h_size m h)"
    and sp: "sp = h + needed" and m2: "m2 = new_block sp (h_size m h - needed) m"
    and m3: "m3 = set_next sp (h_next m h) m2" and m4: "m4 = set_prev sp (h_prev m h) m3"
    and m5: "m5 = (if bs \<noteq> [] then set_prev (hd bs) sp m4 else m4)"
    and m6: "m6 = (if as \<noteq> [] then set_next (last as) sp m5 else m5)"
  shows "list_of m6 (if as = [] then sp else p) (as @ sp # bs)" "blocks m6 (insert sp (B - {h}))" "sp \<notin> B"
    "h_next m2 h = h_next m h" "h_prev m3 h = h_prev m h" "h_next m4 h = h_next m h" "h_prev m5 h = h_prev m h"
    "h_magic m6 h = HEAP_MAGIC" "only (\<Union>x \<in> set (as @ h # bs). extent m x) m m6"
    "\<And>x. x \<in> B - {h} \<Longrightarrow> h_size m6 x = h_size m x \<and> extent m6 x = extent m x"
    "extent m6 sp = {unat h + unat needed..<unat h + unat (h_size m h)}"
proof -
  let ?H = "{unat h..<unat h + 16}" and ?X = "\<Union>x \<in> set (as @ h # bs). extent m x"
  have hB: "h \<in> B" using sub by simp
  then have bo: "blk_ok m h" using B by (simp add: blocks_def)
  note b = blk_okD[OF bo]
  note p = split_new_ok[OF B hB n sp m2]
  have s': "set as \<union> set bs \<subseteq> B - {h}" using sub l by auto
  have ex: "\<forall>x \<in> set as \<union> set bs. extent m2 x = extent m x" and
    same: "\<forall>x \<in> set as \<union> set bs. h_next m2 x = h_next m x \<and> h_prev m2 x = h_prev m x"
    using p(7) s' by blast+
  have spB: "sp \<notin> B - {h}" using p(3) by blast
  note r = relink_ok[OF l p(4) s' p(2) spB same m3 m4 m5 m6]
  define U where "U = (\<Union>x \<in> set as \<union> set bs \<union> {sp}. extent m2 x)"
  have HB: "extent m x \<inter> ?H = {}" if "x \<in> set as \<union> set bs" for x
    using blocks_prefix[OF B _ hB, of x 16] that s' b(1) by auto
  have HE: "?H \<inter> extent m2 sp = {}" using n(1) by (auto simp: p(5))
  have HU: "?H \<inter> U = {}" using HE HB ex by (auto simp: U_def)
  note fh = fields_frame[OF p(6) b(3) HE] fields_frame[OF r(4)[folded U_def] b(3) HU]
    fields_frame[OF r(5)[folded U_def] b(3) HU] fields_frame[OF r(6)[folded U_def] b(3) HU]
    fields_frame[OF r(7)[folded U_def] b(3) HU]
  show "h_next m2 h = h_next m h" "h_prev m3 h = h_prev m h" "h_next m4 h = h_next m h"
    "h_prev m5 h = h_prev m h" "h_magic m6 h = HEAP_MAGIC" using fh b(4) by simp_all
  have E: "extent m2 sp \<subseteq> ?X" by (auto simp: p(5) extent_def[of m h])
  then have U: "U \<subseteq> ?X" using ex by (auto simp: U_def)
  have "only U m2 m6" using r(4-7)[folded U_def] only_trans by blast
  then show "only ?X m m6" using only_trans[OF only_mono[OF p(6) E] only_mono[OF _ U]] by blast
  show "list_of m6 (if as = [] then sp else p) (as @ sp # bs)" "blocks m6 (insert sp (B - {h}))" "sp \<notin> B"
    by (rule r(1) r(2) p(3))+
  show "h_size m6 x = h_size m x \<and> extent m6 x = extent m x" if "x \<in> B - {h}" for x
    using r(3)[of x] p(7)[OF that] that by simp
  show "extent m6 sp = {unat h + unat needed..<unat h + unat (h_size m h)}" using r(3)[of sp] p(5) by simp
qed

lemma take_split_ok:
  assumes l: "list_of (mem s) (free_list s) (as @ h # bs)" and B: "blocks (mem s) B"
    and sub: "set (as @ h # bs) \<subseteq> B" and n: "32 \<le> unat needed" "needed \<le> h_size (mem s) h"
    and big: "h_size (mem s) h - needed \<ge> MIN_BLOCK"
  obtains m' fl' where "kmalloc_take needed h s = (h + 16, s\<lparr>mem := m', free_list := fl'\<rparr>)"
    "taken (mem s) B as h bs needed [h + needed] m' fl'"
proof -
  define m where "m = mem s"
  define sp where "sp = h + needed"
  define m2 where "m2 = new_block sp (h_size m h - needed) m"
  define m3 where "m3 = set_next sp (h_next m h) m2"
  define m4 where "m4 = set_prev sp (h_prev m h) m3"
  define m5 where "m5 = (if bs \<noteq> [] then set_prev (hd bs) sp m4 else m4)"
  define m6 where "m6 = (if as \<noteq> [] then set_next (last as) sp m5 else m5)"
  define m' where "m' = finish_block h (set_size h needed m6)"
  let ?fl = "if as = [] then sp else free_list s" and ?N = "{unat h..<unat h + unat needed}"
  have n': "unat needed + 32 \<le> unat (h_size m h)"
    using n(2) big by (simp add: m_def unat_sub word_le_nat_alt MIN_BLOCK_def)
  note l' = l[folded m_def] and B' = B[folded m_def]
  note r = split_relink_ok[OF l' B' sub n(1) n' sp_def m2_def m3_def m4_def m5_def m6_def]
  have hB: "h \<in> B" using sub by simp
  have links: "h_prev m h = (if as = [] then nullptr else last as)"
    "h_next m h = (if bs = [] then nullptr else hd bs)" "nullptr \<notin> set (as @ h # bs)"
    using dll_links[of "h_next m" "h_prev m" nullptr "free_list s" as h bs] dll_nonnull l' by blast+
  have "bs \<noteq> [] \<Longrightarrow> hd bs \<noteq> nullptr" "as \<noteq> [] \<Longrightarrow> last as \<noteq> nullptr"
    using links(3) by (metis UnCI hd_in_set last_in_set list.set_intros(2) set_append)+
  then have e: "(if h_next m h \<noteq> nullptr then set_prev (h_next m h) sp m4 else m4) = m5"
     "(if h_prev m h \<noteq> nullptr then set_next (h_prev m h) sp m5 else m5) = m6"
     "(if h_prev m h \<noteq> nullptr then free_list s else sp) = ?fl"
    using links(1,2) by (auto simp: m5_def m6_def)
  have eq: "kmalloc_take needed h s = (h + 16, s\<lparr>mem := m', free_list := ?fl\<rparr>)"
    unfolding m'_def e(3)[symmetric]
    by (rule kmalloc_take_split[OF m_def sp_def m2_def _ m3_def m4_def r(4-7) e(1,2)])
      (use big in \<open>simp add: m_def\<close>)
  have fit: "unat h + unat needed \<le> 2 ^ 32" using n' B' hB blk_okD(2)[of m h] by (simp add: blocks_def)
  have NB: "extent m x \<inter> ?N = {}" if "x \<in> B - {h}" for x
    using blocks_prefix[OF B' that hB] n' by simp
  have N6: "extent m6 x \<inter> ?N = {}" if "x \<in> insert sp (B - {h})" for x
    using NB[of x] r(10)[of x] r(11) that by (cases "x = sp") auto
  note q = finish_take_ok[OF r(2) n(1) fit r(8) N6 m'_def]
  have "?N \<subseteq> (\<Union>x \<in> set (as @ h # bs). extent m x)" using n' by (auto simp: extent_def[of m h])
  then have "only (\<Union>x \<in> set (as @ h # bs). extent m x) m m'"
    using only_trans[OF r(9) only_mono[OF q(3)]] by blast
  moreover have "insert h (insert sp (B - {h})) = B \<union> {sp}" using hB by blast
  then have "blocks m' (B \<union> {sp})" using q(1) by simp
  moreover have "extent m' h \<subseteq> extent m h" "extent m' sp \<subseteq> extent m h"
    using q(2) q(4)[of sp] n' by (auto simp: extent_def[of _ h] r(11))
  moreover have "list_of m' ?fl (as @ sp # bs)"
    by (rule list_of_outside[OF q(3) r(2) N6 r(1)]) (use sub l in auto)
  moreover have "\<forall>x \<in> B - {h}. h_size m' x = h_size m x" using q(4) r(10) by simp
  ultimately have "taken m B as h bs needed [sp] m' ?fl"
    using r(3) q(2,5) by (simp add: taken_def)
  with eq show thesis using that unfolding m_def sp_def by blast
qed

end
