(* ===== verification/Kmalloc_Correct.thy ===== *)
theory Kmalloc_Correct
  imports Heap_Blocks
begin

text \<open>
  Correctness of the kernel heap of \<open>Kmalloc\<close>. The invariant says that the free
  list is a doubly linked list of well-formed blocks, that free and allocated
  blocks do not overlap, and that they lie in pages the page allocator has
  handed out.
\<close>

section \<open>The heap invariant\<close>

text \<open>The bytes of the pages in use, and the invariant over the free list \<open>hs\<close> and the set \<open>al\<close> of
  allocated blocks.\<close>

definition used_bytes :: "'z pmm_state_scheme \<Rightarrow> nat set" where
  "used_bytes s = {n. n div 4096 \<in> used_set s}"

definition heap_inv :: "'z heap_state_scheme \<Rightarrow> u32 list \<Rightarrow> u32 set \<Rightarrow> bool" where
  "heap_inv s hs al \<longleftrightarrow> pmm_inv s \<and> list_of (mem s) (free_list s) hs
     \<and> blocks (mem s) (set hs \<union> al) \<and> set hs \<inter> al = {} \<and> nullptr \<notin> al
     \<and> (\<forall>x \<in> set hs \<union> al. extent (mem s) x \<subseteq> used_bytes s)"

text \<open>The contents of the allocated blocks are the same in two states.\<close>

definition keeps :: "u32 set \<Rightarrow> 'z heap_state_scheme \<Rightarrow> 'z heap_state_scheme \<Rightarrow> bool" where
  "keeps al s s' \<longleftrightarrow> (\<forall>x \<in> al. h_size (mem s') x = h_size (mem s) x
     \<and> (\<forall>a. unat a \<in> extent (mem s) x \<longrightarrow> mem s' a = mem s a))"

lemma keeps_refl [simp]: "keeps al s s"
  by (simp add: keeps_def)

lemma keeps_trans: "keeps al s s' \<Longrightarrow> keeps al s' s'' \<Longrightarrow> keeps al s s''"
  by (simp add: keeps_def extent_def)

lemma keeps_only:
  assumes "only A (mem s) (mem s')" and "blocks (mem s) al"
    and "\<And>x. x \<in> al \<Longrightarrow> extent (mem s) x \<inter> A = {}"
  shows "keeps al s s'"
  using blk_frame(2)[OF assms(1) _ assms(3)] assms
  by (auto simp: keeps_def only_def blocks_def disjoint_iff)

text \<open>A fresh page, as a range of bytes.\<close>

lemma alloc_page_bytes:
  assumes "pmm_inv s" and "pmm_alloc_page s = Inr (p, s')" and "p \<noteq> nullptr"
  obtains i where "unat p = i * 4096" "i \<notin> used_set s" "used_set s' = insert i (used_set s)"
    "pmm_inv s'" "i < 262144" "0 < i"
proof -
  have "used_set s \<noteq> {..<unat (total_pages s)}" using pmm_alloc_full[OF assms(1)] assms(2,3) by auto
  from pmm_alloc_lowest[OF assms(1) this] assms(2) obtain i where i:
    "p = i * PAGE_SIZE" "unat i = Min ({..<unat (total_pages s)} - used_set s)" "i < total_pages s"
    "used_set s' = insert (unat i) (used_set s)" "pmm_inv s'" by auto
  have ne: "{..<unat (total_pages s)} - used_set s \<noteq> {}"
    using \<open>used_set s \<noteq> _\<close> used_set_subset[of s] by blast
  have nu: "unat i \<notin> used_set s" using Min_in[OF _ ne] i(2) by simp
  have lt: "unat i < 262144" using i(3) assms(1) by (simp add: pmm_inv_def word_less_nat_alt)
  have "unat p = unat i * 4096" using i(1) lt by (simp add: PAGE_SIZE_def unat_word_ariths)
  moreover have "0 < unat i" using assms(3) i(1) by (auto simp: unat_gt_0)
  ultimately show thesis using that nu i(4,5) lt by blast
qed

lemma heap_inv_pmm:
  assumes "heap_inv s hs al" and "s' = s\<lparr>bitmap := bm, used_pages := u\<rparr>"
    and "pmm_inv s'" and "used_set s \<subseteq> used_set s'"
  shows "heap_inv s' hs al" "keeps al s s'"
  using assms by (auto simp: heap_inv_def used_bytes_def keeps_def)

text \<open>Turning a range of unused bytes into a block, and moving a block to the free list.\<close>

lemma new_block_inv:
  assumes inv: "heap_inv s hs al" and n: "32 \<le> unat n" "unat h + unat n \<le> 2 ^ 32" "h \<noteq> nullptr"
    and used: "{unat h..<unat h + unat n} \<subseteq> used_bytes s"
    and fresh: "\<And>x. x \<in> set hs \<union> al \<Longrightarrow> extent (mem s) x \<inter> {unat h..<unat h + unat n} = {}"
    and s': "s' = s\<lparr>mem := new_block h n (mem s), heap_end := e\<rparr>"
  shows "heap_inv s' hs (insert h al)" "keeps al s s'" "h \<notin> al" "used_set s' = used_set s"
proof -
  let ?m = "new_block h n (mem s)" and ?B = "set hs \<union> al"
  note nb = new_block_ok[OF n(1,2), of "mem s"]
  have i: "list_of (mem s) (free_list s) hs" "blocks (mem s) ?B" "set hs \<inter> al = {}" "nullptr \<notin> al"
    "\<And>x. x \<in> ?B \<Longrightarrow> extent (mem s) x \<subseteq> used_bytes s" "pmm_inv s"
    using inv by (auto simp: heap_inv_def)
  have o: "blocks ?m ?B" using blocks_outside(1)[OF nb(4) i(2)] fresh by blast
  have ex: "extent ?m x = extent (mem s) x" if "x \<in> ?B" for x
    using blocks_outside(2)[OF nb(4) i(2) _ that] fresh by blast
  have hB: "h \<notin> ?B"
  proof
    assume h: "h \<in> ?B"
    then have "blk_ok (mem s) h" using i(2) by (simp add: blocks_def)
    then have "unat h \<in> extent (mem s) h" using blk_okD(1)[of "mem s" h] by (auto simp: extent_def)
    then show False using fresh[OF h] n(1) by (auto simp: disjoint_iff)
  qed
  then show "h \<notin> al" by simp
  have B1: "blocks ?m (insert h ?B)"
    using ex fresh by (intro blocks_insert o nb(1)) (simp add: nb(3))
  have l1: "list_of ?m (free_list s) hs" using list_of_outside[OF nb(4) i(2) fresh i(1)] by simp
  show us: "used_set s' = used_set s" by (simp add: s' used_set_def)
  have ub: "used_bytes s' = used_bytes s" "pmm_inv s'"
    using i(6) us by (simp_all add: s' used_bytes_def pmm_inv_def)
  have "extent ?m x \<subseteq> used_bytes s" if "x \<in> insert h ?B" for x
    using nb(3) ex[of x] i(5)[of x] used that by (cases "x = h") simp_all
  then show "heap_inv s' hs (insert h al)"
    using ub l1 B1 hB i(3,4) n(3) by (simp add: heap_inv_def s')
  show "keeps al s s'"
    using blocks_mono[OF i(2)] fresh nb(4) by (intro keeps_only[of "{unat h..<unat h + unat n}"]) (simp_all add: s')
qed

lemma heap_append_ok:
  assumes inv: "heap_inv s hs (insert h al)" and h: "h \<notin> al"
  obtains s' where "list_append h s = Inr s'" "heap_inv s' (hs @ [h]) al" "keeps al s s'"
    "used_set s' = used_set s" "h_size (mem s') h = h_size (mem s) h" "heap_end s' = heap_end s"
proof -
  let ?B = "insert h (set hs \<union> al)"
  have i: "list_of (mem s) (free_list s) hs" "blocks (mem s) ?B" "set hs \<inter> al = {}" "nullptr \<notin> al"
    "\<And>x. x \<in> ?B \<Longrightarrow> extent (mem s) x \<subseteq> used_bytes s" "pmm_inv s" "h \<notin> set hs" "h \<noteq> nullptr"
    "set hs \<subseteq> ?B" "h \<in> ?B"
    using inv by (auto simp: heap_inv_def)
  obtain m' where m': "list_append h s = Inr (s\<lparr>mem := m', free_list := if hs = [] then h else free_list s\<rparr>)"
    "list_of m' (if hs = [] then h else free_list s) (hs @ [h])" "blocks m' ?B"
    "\<And>y. y \<in> ?B \<Longrightarrow> h_size m' y = h_size (mem s) y"
    "only (\<Union>x \<in> set hs \<union> {h}. extent (mem s) x) (mem s) m'"
    using list_append_ok[OF i(1,2,9,10,8,7)] by metis
  define s' where "s' = s\<lparr>mem := m', free_list := if hs = [] then h else free_list s\<rparr>"
  have us: "used_set s' = used_set s" "used_bytes s' = used_bytes s" "pmm_inv s'"
    using i(6) by (simp_all add: s'_def used_bytes_def used_set_def pmm_inv_def)
  have "extent m' x \<subseteq> used_bytes s" if "x \<in> ?B" for x
    using m'(4)[OF that] i(5)[OF that] by (simp add: extent_def)
  then have "heap_inv s' (hs @ [h]) al"
    using us m'(2,3) i(3,4) h by (simp add: heap_inv_def s'_def)
  moreover have "keeps al s s'"
  proof (rule keeps_only[of "\<Union>x \<in> set hs \<union> {h}. extent (mem s) x"])
    show "only (\<Union>x \<in> set hs \<union> {h}. extent (mem s) x) (mem s) (mem s')" using m'(5) by (simp add: s'_def)
    show "blocks (mem s) al" using blocks_mono[OF i(2)] by blast
    show "extent (mem s) x \<inter> (\<Union>x \<in> set hs \<union> {h}. extent (mem s) x) = {}" if "x \<in> al" for x
      using blocksD[OF i(2), of x] that i(3) h by blast
  qed
  ultimately show thesis
    using that[of s'] m'(1) m'(4)[of h] us by (simp add: s'_def)
qed

section \<open>Growing the heap\<close>

text \<open>Bytes of pages that are not in use are in no block.\<close>

lemma fresh_bytes:
  assumes "heap_inv s hs al" and "N \<inter> used_bytes s = {}" and "x \<in> set hs \<union> al"
  shows "extent (mem s) x \<inter> N = {}"
  using assms by (auto simp: heap_inv_def)

lemma page_range: "{i * 4096..<i * 4096 + 4096} = {n. n div 4096 = (i :: nat)}"
  by (auto simp: div_nat_eqI)

text \<open>Every call of the page allocator returns, and leaves the heap alone.\<close>

lemma alloc_page_cases:
  assumes "pmm_inv s"
  obtains (none) "pmm_alloc_page s = Inr (nullptr, s)"
  | (some) p i bm u where "pmm_alloc_page s = Inr (p, s\<lparr>bitmap := bm, used_pages := u\<rparr>)" "p \<noteq> nullptr"
      "unat p = i * 4096" "i \<notin> used_set s" "i < 262144"
      "used_set (s\<lparr>bitmap := bm, used_pages := u\<rparr>) = insert i (used_set s)"
      "pmm_inv (s\<lparr>bitmap := bm, used_pages := u\<rparr>)"
proof -
  obtain p s' where a: "pmm_alloc_page s = Inr (p, s')" using pmm.alloc_returns[OF assms] by metis
  show thesis
  proof (cases "p = nullptr")
    case True
    then show ?thesis using none a pmm.alloc_null(2)[OF assms] by blast
  next
    case False
    obtain bm u where s': "s' = s\<lparr>bitmap := bm, used_pages := u\<rparr>" using pmm_alloc_more[OF a] by blast
    obtain i where "unat p = i * 4096" "i \<notin> used_set s" "used_set s' = insert i (used_set s)"
      "pmm_inv s'" "i < 262144" using alloc_page_bytes[OF assms a False] by metis
    then show ?thesis using some a s' False by blast
  qed
qed

lemma grow_single_pages_ok:
  "heap_inv s hs al \<Longrightarrow> \<exists>s' hs'. grow_single_pages n s = Inr s' \<and> heap_inv s' hs' al \<and> keeps al s s'"
proof (induction n arbitrary: s hs)
  case 0
  then show ?case by auto
next
  case (Suc n)
  then have pi: "pmm_inv s" by (simp add: heap_inv_def)
  then show ?case
  proof (cases rule: alloc_page_cases)
    case none
    then show ?thesis using Suc.prems by auto
  next
    case (some p i bm u)
    let ?s1 = "s\<lparr>bitmap := bm, used_pages := u\<rparr>"
    define s2 where "s2 = ?s1\<lparr>mem := new_block p 4096 (mem ?s1), heap_end := p + 4096\<rparr>"
    have k1: "heap_inv ?s1 hs al" "keeps al s ?s1"
      using heap_inv_pmm[OF Suc.prems refl some(7)] some(6) by auto
    have r: "{unat p..<unat p + unat (4096 :: u32)} = {n. n div 4096 = i}" by (simp add: some(3) page_range)
    have N: "{n. n div 4096 = i} \<inter> used_bytes s = {}" using some(4) by (auto simp: used_bytes_def)
    have fresh: "extent (mem ?s1) x \<inter> {unat p..<unat p + unat (4096 :: u32)} = {}" if "x \<in> set hs \<union> al" for x
      using fresh_bytes[OF Suc.prems N that] unfolding r by simp
    have used: "{unat p..<unat p + unat (4096 :: u32)} \<subseteq> used_bytes ?s1"
      unfolding r by (auto simp: used_bytes_def some(6))
    have fit: "32 \<le> unat (4096 :: u32)" "unat p + unat (4096 :: u32) \<le> 2 ^ 32" using some(3,5) by auto
    note nb = new_block_inv[OF k1(1) fit some(2) used fresh s2_def]
    obtain s3 where s3: "list_append p s2 = Inr s3" "heap_inv s3 (hs @ [p]) al" "keeps al s2 s3"
      using heap_append_ok[OF nb(1,3)] by metis
    obtain s' hs' where s': "grow_single_pages n s3 = Inr s'" "heap_inv s' hs' al" "keeps al s3 s'"
      using Suc.IH[OF s3(2)] by blast
    have "grow_single_pages (Suc n) s = Inr s'"
      using some(1,2) s3(1) s'(1) by (simp add: s2_def new_block_def)
    then show ?thesis using s'(2,3) s3(3) nb(2) k1(2) keeps_trans by blast
  qed
qed

text \<open>\<open>grows s s'\<close>: only the page allocator moved, and no page became free.\<close>

definition grows :: "'z heap_state_scheme \<Rightarrow> 'z heap_state_scheme \<Rightarrow> bool" where
  "grows s s' \<longleftrightarrow> (\<exists>bm u. s' = s\<lparr>bitmap := bm, used_pages := u\<rparr>) \<and> pmm_inv s' \<and> used_set s \<subseteq> used_set s'"

lemma grows_refl: "pmm_inv s \<Longrightarrow> grows s s"
  by (auto simp: grows_def intro!: exI[of _ "bitmap s"] exI[of _ "used_pages s"])

lemma grows_trans: "grows s s1 \<Longrightarrow> grows s1 s2 \<Longrightarrow> grows s s2"
  by (auto simp: grows_def) metis

lemma grows_heap: "heap_inv s hs al \<Longrightarrow> grows s s' \<Longrightarrow> heap_inv s' hs al \<and> keeps al s s' \<and> mem s' = mem s"
  using heap_inv_pmm by (fastforce simp: grows_def)

lemma free_fresh_page:
  assumes "pmm_inv s" and "unat p = i * 4096" and "i < 262144" and "0 < i" and "i \<notin> used_set s"
    and "s1 = s\<lparr>bitmap := bm, used_pages := u\<rparr>" "used_set s1 = insert i (used_set s)" "pmm_inv s1"
  obtains s2 where "pmm_free_page p s1 = Inr s2" "grows s s2"
proof -
  have p: "unat (p div PAGE_SIZE) = i" using assms(2) by (simp add: unat_div PAGE_SIZE_def)
  obtain bm' where b: "pmm_free_page p s1 = Inr (s1\<lparr>bitmap := bm', used_pages := used_pages s1 - 1\<rparr>)"
    "used_set (s1\<lparr>bitmap := bm', used_pages := used_pages s1 - 1\<rparr>) = used_set s1 - {i}"
    "pmm_inv (s1\<lparr>bitmap := bm', used_pages := used_pages s1 - 1\<rparr>)"
    using pmm_free_used[OF assms(8), of p] p assms(4,7) by auto
  then have "grows s (s1\<lparr>bitmap := bm', used_pages := used_pages s1 - 1\<rparr>)"
    using assms(5,6,7) by (auto simp: grows_def)
  with b(1) show thesis by (rule that)
qed

text \<open>The first loop of \<open>heap_grow\<close> only takes pages; if it says they are contiguous, they are.\<close>

lemma grow_contiguous_ok:
  assumes "pmm_inv s" and "unat first = f * 4096" and "f < 262144" and "n \<le> 16"
  shows "\<exists>c s'. grow_contiguous first (map of_nat [i..<n]) s = Inr (c, s') \<and> grows s s'
    \<and> (c \<longrightarrow> (\<forall>j \<in> {i..<n}. f + j \<notin> used_set s \<and> f + j \<in> used_set s'))"
  using assms
proof (induction "n - i" arbitrary: i s)
  case 0
  then have "[i..<n] = []" by simp
  then show ?case using grows_refl[OF "0.prems"(1)] "0.hyps" by auto
next
  case (Suc k)
  have i: "i < n" "k = n - Suc i" using Suc.hyps(2) by linarith+
  have cons: "map of_nat [i..<n] = of_nat i # map of_nat [Suc i..<n]" using i(1) by (simp add: upt_conv_Cons)
  show ?case using Suc.prems(1)
  proof (cases rule: alloc_page_cases)
    case none
    then show ?thesis using grows_refl[OF Suc.prems(1)] unfolding cons by auto
  next
    case (some p j bm u)
    define s1 where "s1 = s\<lparr>bitmap := bm, used_pages := u\<rparr>"
    note a = some[folded s1_def]
    have g1: "grows s s1" using a(6,7) by (auto simp: grows_def s1_def)
    show ?thesis
    proof (cases "p = first + of_nat i * 4096")
      case False
      have "0 < j" using a(2,3) by (cases "j = 0") (auto simp: unat_eq_zero)
      then obtain s2 where "pmm_free_page p s1 = Inr s2" "grows s s2"
        using free_fresh_page[OF Suc.prems(1) a(3,5) _ a(4) s1_def a(6,7)] by blast
      then show ?thesis using a(1,2) False unfolding cons by auto
    next
      case True
      have "unat (of_nat i * 4096 :: u32) = i * 4096"
        using i(1) Suc.prems(4) by (simp add: unat_word_ariths unat_of_nat)
      then have "unat p = f * 4096 + i * 4096"
        using True Suc.prems(2,3,4) i(1) unat_add_small[of first "of_nat i * 4096"] by simp
      then have j: "j = f + i" using a(3) by simp
      obtain c s' where IH: "grow_contiguous first (map of_nat [Suc i..<n]) s1 = Inr (c, s')" "grows s1 s'"
        "c \<longrightarrow> (\<forall>j \<in> {Suc i..<n}. f + j \<notin> used_set s1 \<and> f + j \<in> used_set s')"
        using Suc.hyps(1)[OF i(2) a(7) Suc.prems(2-4)] by blast
      have "f + l \<notin> used_set s \<and> f + l \<in> used_set s'" if "c" "l \<in> {i..<n}" for l
        using IH(2,3) that a(4,6) j by (cases "l = i") (auto simp: grows_def)
      moreover have "grow_contiguous first (map of_nat [i..<n]) s = Inr (c, s')"
        unfolding cons using a(1,2) True IH(1) by simp
      ultimately show ?thesis using grows_trans[OF g1 IH(2)] by blast
    qed
  qed
qed

lemma heap_grow_ok:
  assumes inv: "heap_inv s hs al"
  shows "\<exists>s' hs'. heap_grow s = Inr s' \<and> heap_inv s' hs' al \<and> keeps al s s'"
proof -
  have pi: "pmm_inv s" using inv by (simp add: heap_inv_def)
  have pages: "(HEAP_GROW + 4095) div 4096 = 16" by (simp add: HEAP_GROW_def)
  show ?thesis using pi
  proof (cases rule: alloc_page_cases)
    case none
    then show ?thesis using inv by (auto simp: heap_grow_def)
  next
    case (some p i bm u)
    define s1 where "s1 = s\<lparr>bitmap := bm, used_pages := u\<rparr>"
    note a = some[folded s1_def]
    have g1: "grows s s1" using a(6,7) by (auto simp: grows_def s1_def)
    obtain c s2 where c: "grow_contiguous p (map of_nat [1..<16]) s1 = Inr (c, s2)" "grows s1 s2"
      "c \<longrightarrow> (\<forall>j \<in> {1..<16}. i + j \<notin> used_set s1 \<and> i + j \<in> used_set s2)"
      using grow_contiguous_ok[OF a(7,3,5), of 16 1] by auto
    have g2: "grows s s2" using g1 c(2) by (rule grows_trans)
    note h2 = grows_heap[OF inv g2]
    show ?thesis
    proof (cases c)
      case False
      have "heap_grow s = grow_single_pages 16 s2"
        using a(1,2) c(1) False by (simp add: heap_grow_def pages)
      then show ?thesis using grow_single_pages_ok[of s2 hs al 16] h2 keeps_trans by metis
    next
      case True
      let ?N = "{unat p..<unat p + unat (65536 :: u32)}"
      define s3 where "s3 = s2\<lparr>mem := new_block p 65536 (mem s2), heap_end := p + 65536\<rparr>"
      have N: "\<exists>j < 16. n div 4096 = i + j" if "n \<in> ?N" for n
        using that a(3) by (intro exI[of _ "n div 4096 - i"]) (auto simp: less_mult_imp_div_less div_le_mono le_div_geq)
      have pg: "i + j \<notin> used_set s \<and> i + j \<in> used_set s2" if "j < 16" for j
        using c(2,3) True that a(4,6) by (cases "j = 0") (auto simp: grows_def)
      have fr: "?N \<inter> used_bytes s = {}" and used: "?N \<subseteq> used_bytes s2"
        using N pg by (fastforce simp: used_bytes_def)+
      have fresh: "extent (mem s2) x \<inter> ?N = {}" if "x \<in> set hs \<union> al" for x
        using fresh_bytes[OF inv fr that] h2 by simp
      have fit: "32 \<le> unat (65536 :: u32)" "unat p + unat (65536 :: u32) \<le> 2 ^ 32" using a(3,5) by auto
      note nb = new_block_inv[OF conjunct1[OF h2] fit a(2) used fresh s3_def]
      obtain s4 where "list_append p s3 = Inr s4" "heap_inv s4 (hs @ [p]) al" "keeps al s3 s4"
        using heap_append_ok[OF nb(1,3)] by metis
      moreover have "h_size (set_magic p HEAP_MAGIC (set_size p 65536 (mem s2))) p = 65536"
        using fit a(3,5) field_addr[of p] by (simp add: field_defs rd32_wr32_disjoint)
      then have "heap_grow s = list_append p s3"
        using a(1,2) c(1) True by (simp add: heap_grow_def pages s3_def new_block_def)
      ultimately show ?thesis using h2 nb(2) keeps_trans by metis
    qed
  qed
qed

section \<open>Allocation\<close>

lemma round8:
  assumes "unat (x :: u32) + 7 < 2 ^ 32"
  shows "unat x \<le> unat ((x + 7) AND NOT 7)" "unat ((x + 7) AND NOT 7) \<le> unat x + 7"
proof -
  let ?y = "x + 7"
  have y: "unat ?y = unat x + 7" using assms by (simp add: unat_word_ariths)
  have "?y AND 7 = take_bit 3 ?y" by (simp add: take_bit_eq_mask mask_eq_exp_minus_1)
  then have m: "unat (?y AND 7) = unat ?y mod 8"
    by (simp add: unsigned_take_bit_eq take_bit_eq_mod)
  have "(?y AND 7) + (?y AND NOT 7) = (?y AND 7) OR (?y AND NOT 7)"
    by (rule disjunctive_add_eq_or) (simp add: and.assoc and.left_commute)
  also have "\<dots> = ?y" by (rule bit_word_eqI) (auto simp: bit_simps)
  finally have e: "?y AND NOT 7 = ?y - (?y AND 7)" by (simp add: algebra_simps)
  have "unat (?y AND NOT 7) = unat ?y - unat ?y mod 8"
    unfolding e by (subst unat_sub) (simp_all add: m word_le_nat_alt)
  moreover have "unat ?y mod 8 \<le> 7" using mod_less_divisor[of 8 "unat ?y"] by linarith
  ultimately show "unat x \<le> unat ((x + 7) AND NOT 7)" "unat ((x + 7) AND NOT 7) \<le> unat x + 7"
    using y by linarith+
qed

lemma needed_bytes_ok:
  assumes "unat sz + 28 \<le> 2 ^ 32"
  shows "32 \<le> unat (needed_bytes sz)" "unat sz + 20 \<le> unat (needed_bytes sz)"
proof -
  have r: "unat sz \<le> unat ((sz + 7) AND NOT 7)" "unat ((sz + 7) AND NOT 7) \<le> unat sz + 7"
    using assms by (intro round8; simp)+
  then have "unat (((sz + 7) AND NOT 7) + 16 + 4) = unat ((sz + 7) AND NOT 7) + 20"
    using assms unat_add_small[of 20 "(sz + 7) AND NOT 7"] by simp
  then show "32 \<le> unat (needed_bytes sz)" "unat sz + 20 \<le> unat (needed_bytes sz)"
    using r by (auto simp: needed_bytes_def Let_def heap_consts word_less_nat_alt)
qed

text \<open>What a successful allocation gives: a block that was not allocated, with room for \<open>sz\<close> bytes,
  all zero.\<close>

definition gives :: "u32 set \<Rightarrow> u32 \<Rightarrow> u32 \<Rightarrow> u32 list \<Rightarrow> 'z heap_state_scheme \<Rightarrow> bool" where
  "gives al n p hs' s' \<longleftrightarrow> p - 16 \<notin> al \<and> p \<noteq> nullptr \<and> heap_inv s' hs' (insert (p - 16) al)
     \<and> n \<le> h_size (mem s') (p - 16)
     \<and> (\<forall>a. unat p \<le> unat a \<and> unat a < unat (p - 16) + unat (h_size (mem s') (p - 16)) - 4 \<longrightarrow> mem s' a = 0)"

lemma kmalloc_take_ok:
  assumes inv: "heap_inv s (as @ h # bs) al" and n: "32 \<le> unat n" "n \<le> h_size (mem s) h"
  obtains s' hs' where "kmalloc_take n h s = (h + 16, s')" "keeps al s s'" "gives al n (h + 16) hs' s'"
proof -
  let ?B = "set (as @ h # bs) \<union> al"
  have i: "list_of (mem s) (free_list s) (as @ h # bs)" "blocks (mem s) ?B" "set (as @ h # bs) \<inter> al = {}"
    "nullptr \<notin> al" "\<And>x. x \<in> ?B \<Longrightarrow> extent (mem s) x \<subseteq> used_bytes s" "pmm_inv s" "set (as @ h # bs) \<subseteq> ?B"
    using inv unfolding heap_inv_def by blast+
  obtain rest m' fl' where t: "kmalloc_take n h s = (h + 16, s\<lparr>mem := m', free_list := fl'\<rparr>)"
    "taken (mem s) ?B as h bs n rest m' fl'"
    using take_whole_ok[OF i(1,2,7) n(2)] take_split_ok[OF i(1,2,7) n] by metis
  define s' where "s' = s\<lparr>mem := m', free_list := fl'\<rparr>"
  note k = t(2)[unfolded taken_def]
  have us: "used_bytes s' = used_bytes s" "pmm_inv s'"
    using i(6) by (simp_all add: s'_def used_bytes_def used_set_def pmm_inv_def)
  have hB: "h \<in> ?B" by simp
  then have bo: "blk_ok (mem s) h" using i(2) by (simp add: blocks_def)
  have h16: "unat (h + 16) = unat h + 16"
    using blk_okD(1,2)[OF bo] unat_add_small[of h 16] by simp
  then have nz: "h + 16 \<noteq> nullptr" by auto
  have ex: "extent m' x \<subseteq> used_bytes s" if "x \<in> ?B \<union> set rest" for x
  proof (cases "x \<in> insert h (set rest)")
    case True
    then show ?thesis using k i(5)[OF hB] by blast
  next
    case False
    then have "x \<in> ?B - {h}" using that by blast
    then show ?thesis using k i(5)[of x] by (simp add: extent_def)
  qed
  have eq: "set (as @ rest @ bs) \<union> insert h al = ?B \<union> set rest" by auto
  have "set (as @ rest @ bs) \<inter> insert h al = {}" using k i(1,3) by auto
  moreover have "nullptr \<notin> insert h al" using i(4) dll_nonnull[OF conjunct1[OF i(1)]] by auto
  ultimately have "heap_inv s' (as @ rest @ bs) (insert h al)"
    using k us ex unfolding heap_inv_def eq by (simp add: s'_def)
  then have g: "gives al n (h + 16) (as @ rest @ bs) s'"
    using k i(3) nz by (auto simp: gives_def h16 s'_def)
  have "keeps al s s'"
  proof (rule keeps_only[of "\<Union>x \<in> set (as @ h # bs). extent (mem s) x"])
    show "only (\<Union>x \<in> set (as @ h # bs). extent (mem s) x) (mem s) (mem s')" using k by (simp add: s'_def)
    show "blocks (mem s) al" using blocks_mono[OF i(2)] by blast
    show "extent (mem s) x \<inter> (\<Union>x \<in> set (as @ h # bs). extent (mem s) x) = {}" if "x \<in> al" for x
      using blocksD[OF i(2), of x] that i(3) by blast
  qed
  then show thesis using that t(1) g by (simp add: s'_def)
qed

text \<open>Searching the list and taking the block that was found.\<close>

lemma find_take:
  assumes inv: "heap_inv s hs al" and n: "32 \<le> unat n"
  obtains (none) "find_fit (mem s) n (free_list s) = Some nullptr" "\<forall>h \<in> set hs. h_size (mem s) h < n"
  | (some) h s' hs' where "find_fit (mem s) n (free_list s) = Some h" "h \<noteq> nullptr"
      "kmalloc_take n h s = (h + 16, s')" "keeps al s s'" "gives al n (h + 16) hs' s'"
proof -
  have l: "dll (h_next (mem s)) (h_prev (mem s)) nullptr (free_list s) hs" using inv by (simp add: heap_inv_def)
  note ff = find_fit_dll[OF l, of n]
  show thesis
  proof (cases "find (\<lambda>h. n \<le> h_size (mem s) h) hs")
    case None
    then have "\<forall>h \<in> set hs. h_size (mem s) h < n" by (auto simp: find_None_iff not_le)
    with None show ?thesis using none ff by simp
  next
    case (Some h)
    then have h: "h \<in> set hs" "n \<le> h_size (mem s) h" by (auto simp: find_Some_iff)
    then obtain as bs where "hs = as @ h # bs" using split_list by fastforce
    then obtain s' hs' where "kmalloc_take n h s = (h + 16, s')" "keeps al s s'" "gives al n (h + 16) hs' s'"
      using kmalloc_take_ok[OF _ n h(2)] inv by metis
    moreover have "h \<noteq> nullptr" using dll_nonnull[OF l] h(1) by auto
    ultimately show ?thesis using some ff Some by simp
  qed
qed

text \<open>\<open>kmalloc\<close> always returns: a fresh block, or null with the heap intact.\<close>

lemma kmalloc_ok:
  assumes inv: "heap_inv s hs al" and sz: "0 < sz" "unat sz + 28 \<le> 2 ^ 32"
  shows "\<exists>p s' hs'. kmalloc sz s = Inr (p, s') \<and> keeps al s s'
    \<and> (if p = nullptr then heap_inv s' hs' al else gives al (needed_bytes sz) p hs' s')
    \<and> ((\<exists>h \<in> set hs. needed_bytes sz \<le> h_size (mem s) h) \<longrightarrow> p \<noteq> nullptr)"
proof -
  let ?n = "needed_bytes sz"
  have n: "32 \<le> unat ?n" by (rule needed_bytes_ok(1)[OF sz(2)])
  have nz: "sz \<noteq> 0" using sz(1) by auto
  have nn: "h + 16 \<noteq> nullptr" if "gives al ?n (h + 16) hs' s'" for h hs' and s' :: "'a heap_state_scheme"
    using that by (simp add: gives_def)
  from inv n show ?thesis
  proof (cases rule: find_take)
    case (some h s' hs')
    then show ?thesis using nz nn by (auto simp: kmalloc_def Let_def intro!: exI[of _ hs'])
  next
    case none
    obtain s1 hs1 where g: "heap_grow s = Inr s1" "heap_inv s1 hs1 al" "keeps al s s1"
      using heap_grow_ok[OF inv] by blast
    from g(2) n show ?thesis
    proof (cases rule: find_take)
      case n2: none
      then have "kmalloc sz s = Inr (nullptr, s1)" using nz none(1) g(1) by (simp add: kmalloc_def Let_def)
      then show ?thesis using g none(2) by force
    next
      case s2: (some h s' hs')
      then have "kmalloc sz s = Inr (h + 16, s')" using nz none(1) g(1) by (simp add: kmalloc_def Let_def)
      then show ?thesis using s2 keeps_trans[OF g(3)] nn by auto
    qed
  qed
qed

section \<open>Initialisation and sequences of allocations\<close>

lemma kmalloc_init_ok:
  assumes "pmm_inv s" and "used_set s \<noteq> {..<unat (total_pages s)}"
  shows "\<exists>s' h. kmalloc_init s = Inr s' \<and> heap_inv s' [h] {} \<and> h_size (mem s') h = 4096"
  using assms(1)
proof (cases rule: alloc_page_cases)
  case none
  then have "pmm_allocated s = pmm_pages s" by (rule pmm.alloc_null(1)[OF assms(1)])
  then show ?thesis using assms(2) pmm_all_allocated_iff[OF assms(1)] by simp
next
  case (some p i bm u)
  define s1 where "s1 = s\<lparr>bitmap := bm, used_pages := u, free_list := nullptr\<rparr>"
  define s2 where "s2 = s1\<lparr>mem := new_block p 4096 (mem s1), heap_end := p + 4096\<rparr>"
  have us: "used_set s1 = insert i (used_set s)" "pmm_inv s1"
    using some(6,7) by (simp_all add: s1_def used_set_def pmm_inv_def)
  then have h1: "heap_inv s1 [] {}" by (simp add: heap_inv_def s1_def blocks_def)
  have r: "{unat p..<unat p + unat (4096 :: u32)} \<subseteq> used_bytes s1"
    by (auto simp: some(3) page_range[simplified] used_bytes_def us(1) div_nat_eqI)
  have fit: "32 \<le> unat (4096 :: u32)" "unat p + unat (4096 :: u32) \<le> 2 ^ 32" using some(3,5) by auto
  have "heap_inv s2 [] {p}" using new_block_inv(1)[OF h1 fit some(2) r _ s2_def] by simp
  then obtain s' where s': "list_append p s2 = Inr s'" "heap_inv s' ([] @ [p]) {}"
    "h_size (mem s') p = h_size (mem s2) p" by (rule heap_append_ok) auto
  moreover have "kmalloc_init s = list_append p s2"
    using some(1,2) by (simp add: kmalloc_init_def list_append_def s2_def s1_def new_block_def Let_def)
  moreover have "h_size (mem s2) p = 4096" using new_block_ok(2)[OF fit] by (simp add: s2_def)
  ultimately show ?thesis by auto
qed

lemma kmalloc_init_panics:
  assumes "pmm_inv s" and "used_set s = {..<unat (total_pages s)}"
  shows "kmalloc_init s = Inl (Panic ''kmalloc_init: OOM'')"
  using pmm_alloc_full[OF assms] by (simp add: kmalloc_init_def)

text \<open>A run of requests, with the pointers it returns.\<close>

fun kmallocs :: "u32 list \<Rightarrow> 'z heap_state_scheme \<Rightarrow> (u32 list \<times> 'z heap_state_scheme) res" where
  "kmallocs [] s = Inr ([], s)"
| "kmallocs (n # ns) s =
     bindR (kmalloc n s) (\<lambda>(p, s). bindR (kmallocs ns s) (\<lambda>(ps, s). Inr (p # ps, s)))"

lemma gives_room:
  assumes "gives al (needed_bytes n) p hs s" and "unat n + 28 \<le> 2 ^ 32"
  shows "{unat p..<unat p + unat n} \<subseteq> extent (mem s) (p - 16)" "unat p = unat (p - 16) + 16"
    "\<And>a. unat p \<le> unat a \<Longrightarrow> unat a < unat p + unat n \<Longrightarrow> mem s a = 0"
proof -
  note g = assms(1)[unfolded gives_def]
  then have "blk_ok (mem s) (p - 16)" by (auto simp: heap_inv_def blocks_def)
  note b = blk_okD[OF this]
  show u: "unat p = unat (p - 16) + 16"
    using b(1,2) unat_add_small[of "p - 16" 16] by simp
  have n: "unat n + 20 \<le> unat (h_size (mem s) (p - 16))"
    using needed_bytes_ok(2)[OF assms(2)] g by (auto simp: word_le_nat_alt)
  then show "{unat p..<unat p + unat n} \<subseteq> extent (mem s) (p - 16)" by (auto simp: extent_def u)
  show "\<And>a. unat p \<le> unat a \<Longrightarrow> unat a < unat p + unat n \<Longrightarrow> mem s a = 0" using g n u by auto
qed

text \<open>The payload ranges of two answers do not overlap.\<close>

definition payload :: "u32 \<times> u32 \<Rightarrow> nat set" where
  "payload = (\<lambda>(n, p). if p = nullptr then {} else {unat p..<unat p + unat n})"

lemma kmallocs_ok:
  "heap_inv s hs al \<Longrightarrow> \<forall>n \<in> set ns. unat n + 28 \<le> 2 ^ 32 \<Longrightarrow>
   \<exists>ps s' hs' al'. kmallocs ns s = Inr (ps, s') \<and> length ps = length ns \<and> keeps al s s' \<and> al \<subseteq> al'
     \<and> heap_inv s' hs' al' \<and> sorted_wrt (\<lambda>x y. payload x \<inter> payload y = {}) (zip ns ps)
     \<and> (\<forall>(n, p) \<in> set (zip ns ps). p \<noteq> nullptr \<longrightarrow>
          p - 16 \<in> al' - al \<and> payload (n, p) \<subseteq> extent (mem s') (p - 16))"
proof (induction ns arbitrary: s hs al)
  case Nil
  then show ?case by auto
next
  case (Cons n ns)
  obtain p s1 hs1 where k: "kmalloc n s = Inr (p, s1)" "keeps al s s1"
    "if p = nullptr then heap_inv s1 hs1 al else gives al (needed_bytes n) p hs1 s1"
  proof (cases "n = 0")
    case True
    then show ?thesis using that[of nullptr s hs] Cons.prems(1) by (simp add: kmalloc_def)
  next
    case False
    then have "0 < n" by (simp add: word_neq_0_conv)
    then show ?thesis using kmalloc_ok[OF Cons.prems(1)] Cons.prems(2) that by (metis list.set_intros(1))
  qed
  define al1 where "al1 = (if p = nullptr then al else insert (p - 16) al)"
  have h1: "heap_inv s1 hs1 al1" using k(3) by (auto simp: al1_def gives_def)
  obtain ps s' hs' al' where IH: "kmallocs ns s1 = Inr (ps, s')" "length ps = length ns" "keeps al1 s1 s'"
    "al1 \<subseteq> al'" "heap_inv s' hs' al'" "sorted_wrt (\<lambda>x y. payload x \<inter> payload y = {}) (zip ns ps)"
    "\<forall>(n, p) \<in> set (zip ns ps). p \<noteq> nullptr \<longrightarrow> p - 16 \<in> al' - al1 \<and> payload (n, p) \<subseteq> extent (mem s') (p - 16)"
    using Cons.IH[OF h1] Cons.prems(2) by auto
  have sub: "al \<subseteq> al1" by (auto simp: al1_def)
  have ks: "keeps al s s'" using k(2) IH(3) sub by (auto simp: keeps_def extent_def)
  have here: "p - 16 \<in> al' - al \<and> payload (n, p) \<subseteq> extent (mem s') (p - 16)" if "p \<noteq> nullptr"
  proof -
    have g: "gives al (needed_bytes n) p hs1 s1" using k(3) that by simp
    have "extent (mem s') (p - 16) = extent (mem s1) (p - 16)"
      using IH(3) that by (auto simp: keeps_def al1_def extent_def)
    then have "payload (n, p) \<subseteq> extent (mem s') (p - 16)"
      using gives_room(1)[OF g] Cons.prems(2) that by (simp add: payload_def)
    then show ?thesis using g IH(4) that by (auto simp: gives_def al1_def)
  qed
  have new: "payload (n, p) \<inter> payload y = {}" if y: "y \<in> set (zip ns ps)" for y
  proof (cases "p = nullptr \<or> snd y = nullptr")
    case True
    then show ?thesis by (auto simp: payload_def split: prod.splits)
  next
    case False
    then have p: "p \<noteq> nullptr" and q: "snd y \<noteq> nullptr" by auto
    have y1: "snd y - 16 \<in> al' - al1" and y2: "payload y \<subseteq> extent (mem s') (snd y - 16)"
      using bspec[OF IH(7) y] q by (cases y; simp)+
    have "p - 16 \<in> al1" using p by (simp add: al1_def)
    then have "snd y - 16 \<noteq> p - 16" using y1 by force
    moreover have "blocks (mem s') (set hs' \<union> al')" using IH(5) by (simp add: heap_inv_def)
    ultimately have "extent (mem s') (p - 16) \<inter> extent (mem s') (snd y - 16) = {}"
      using here[OF p] y1 by (intro blocksD) auto
    then show ?thesis using here[OF p] y2 by blast
  qed
  have "kmallocs (n # ns) s = Inr (p # ps, s')" using k(1) IH(1) by simp
  moreover have "sorted_wrt (\<lambda>x y. payload x \<inter> payload y = {}) (zip (n # ns) (p # ps))"
    using IH(6) new by simp
  moreover have "\<forall>(n, p) \<in> set (zip (n # ns) (p # ps)). p \<noteq> nullptr \<longrightarrow>
      p - 16 \<in> al' - al \<and> payload (n, p) \<subseteq> extent (mem s') (p - 16)"
    using IH(7) here sub by auto
  ultimately show ?case using IH(2,4,5) ks sub by (intro exI[of _ "p # ps"] exI[of _ s'] exI[of _ hs'] exI[of _ al']) auto
qed

section \<open>Release\<close>

lemma heap_inv_drop: "heap_inv s hs al \<Longrightarrow> al' \<subseteq> al \<Longrightarrow> heap_inv s hs al'"
  using blocks_mono[of "mem s" "set hs \<union> al" "set hs \<union> al'"] unfolding heap_inv_def by blast

text \<open>The conditions under which \<open>kfree\<close> merges, for the header \<open>h\<close>.\<close>

definition merges_prev :: "'z heap_state_scheme \<Rightarrow> u32 \<Rightarrow> bool" where
  "merges_prev s h \<longleftrightarrow> has_prev s h \<and> h_magic (mem s) (prev_block (mem s) h) = HEAP_MAGIC"

definition merges_next :: "'z heap_state_scheme \<Rightarrow> u32 \<Rightarrow> bool" where
  "merges_next s h \<longleftrightarrow> has_next s h \<and> h_magic (mem s) (next_block (mem s) h) = HEAP_MAGIC"

text \<open>Without neighbours to merge, the block goes to the end of the free list.\<close>

lemma kfree_alone_ok:
  assumes inv: "heap_inv s hs (insert h al)" and h: "h \<notin> al"
    and alone: "\<not> merges_prev s h" "\<not> merges_next s h"
  shows "\<exists>s'. kfree (h + 16) s = Inr s' \<and> heap_inv s' (hs @ [h]) al \<and> keeps al s s'"
proof -
  have bo: "blk_ok (mem s) h" using inv by (simp add: heap_inv_def blocks_def)
  note b = blk_okD[OF bo]
  have nz: "h + 16 \<noteq> nullptr" using b(1,2) unat_add_small[of h 16] by auto
  have "set_magic h HEAP_MAGIC (mem s) = mem s" using wr32_rd32[of "mem s" "h + 4"] b(4)
    unfolding set_magic_def h_magic_def by metis
  moreover have "set_footer h (mem s) = mem s"
    using wr32_rd32[of "mem s" "h + h_size (mem s) h - 4"] b(5) unfolding set_footer_def by metis
  ultimately have "kfree (h + 16) s = list_append h s"
    using alone nz b(4) by (auto simp: kfree_def Let_def header_from_ptr_def HEADER_SIZE_def is_valid_def
        merges_prev_def merges_next_def)
  then show ?thesis using heap_append_ok[OF inv h] by metis
qed

text \<open>Taking a block off the free list, and joining it to the block before it.\<close>

lemma heap_remove_ok:
  assumes inv: "heap_inv s (as @ n # bs) al"
  shows "heap_inv (list_remove n s) (as @ bs) (insert n al)" "keeps al s (list_remove n s)"
    "\<And>x. x \<in> insert n al \<Longrightarrow> h_size (mem (list_remove n s)) x = h_size (mem s) x"
proof -
  let ?B = "set (as @ n # bs) \<union> al"
  have i: "list_of (mem s) (free_list s) (as @ n # bs)" "blocks (mem s) ?B" "set (as @ n # bs) \<inter> al = {}"
    "nullptr \<notin> al" "\<And>x. x \<in> ?B \<Longrightarrow> extent (mem s) x \<subseteq> used_bytes s" "pmm_inv s" "set (as @ n # bs) \<subseteq> ?B"
    using inv unfolding heap_inv_def by blast+
  obtain m' where m': "list_remove n s = s\<lparr>mem := m', free_list := if as = [] then h_next (mem s) n else free_list s\<rparr>"
    "list_of m' (if as = [] then h_next (mem s) n else free_list s) (as @ bs)" "blocks m' ?B"
    "\<And>y. y \<in> ?B \<Longrightarrow> h_size m' y = h_size (mem s) y"
    "only (\<Union>x \<in> set as \<union> set bs. extent (mem s) x) (mem s) m'"
    using list_remove_ok[OF i(1,2,7)] by metis
  define s' where "s' = list_remove n s"
  have us: "used_bytes s' = used_bytes s" "pmm_inv s'"
    using i(6) by (simp_all add: s'_def m'(1) used_bytes_def used_set_def pmm_inv_def)
  have ex: "extent m' x \<subseteq> used_bytes s" if "x \<in> ?B" for x
    using i(5)[OF that] m'(4)[OF that] by (simp add: extent_def)
  have eq: "set (as @ bs) \<union> insert n al = ?B" by auto
  have "nullptr \<notin> insert n al" "set (as @ bs) \<inter> insert n al = {}"
    using i(1,3,4) dll_nonnull[OF conjunct1[OF i(1)]] by auto
  then show "heap_inv (list_remove n s) (as @ bs) (insert n al)"
    using us ex m'(2,3) unfolding s'_def[symmetric] heap_inv_def eq by (simp add: s'_def m'(1))
  show "h_size (mem (list_remove n s)) x = h_size (mem s) x" if "x \<in> insert n al" for x
    using m'(4)[of x] that by (auto simp: m'(1))
  show "keeps al s (list_remove n s)"
  proof (rule keeps_only[of "\<Union>x \<in> set as \<union> set bs. extent (mem s) x"])
    show "only (\<Union>x \<in> set as \<union> set bs. extent (mem s) x) (mem s) (mem (list_remove n s))"
      using m'(1,5) by simp
    show "blocks (mem s) al" using blocks_mono[OF i(2)] by blast
    show "extent (mem s) x \<inter> (\<Union>x \<in> set as \<union> set bs. extent (mem s) x) = {}" if "x \<in> al" for x
      using blocksD[OF i(2), of x] that i(3) by auto
  qed
qed

lemma absorb_ok:
  assumes inv: "heap_inv s hs (insert h (insert n al))" and d: "h \<notin> al" "n \<notin> al"
    and n: "n = next_block (mem s) h"
    and s': "s' = s\<lparr>mem := set_footer h (set_size h (h_size (mem s) h + h_size (mem s) n) (mem s))\<rparr>"
  shows "heap_inv s' hs (insert h al)" "keeps al s s'" "extent (mem s') h = extent (mem s) h \<union> extent (mem s) n"
proof -
  let ?m = "mem s" and ?t = "h_size (mem s) h + h_size (mem s) n"
  have i: "blocks ?m (set hs \<union> insert h (insert n al))" "set hs \<inter> insert h (insert n al) = {}"
    "nullptr \<notin> insert h (insert n al)"
    "\<And>x. x \<in> set hs \<union> insert h (insert n al) \<Longrightarrow> extent ?m x \<subseteq> used_bytes s"
    using inv unfolding heap_inv_def by blast+
  have bh: "blk_ok ?m h" and bn: "blk_ok ?m n" using i(1) by (auto simp: blocks_def)
  note h = blk_okD[OF bh] and b = blk_okD[OF bn]
  have "unat h + unat (h_size ?m h) \<noteq> 2 ^ 32"
  proof
    assume "unat h + unat (h_size ?m h) = 2 ^ 32"
    then have "unat (h + h_size ?m h) = 0" by (simp add: unat_word_ariths)
    then show False using i(3) n by (simp add: next_block_def unat_eq_zero)
  qed
  then have un: "unat n = unat h + unat (h_size ?m h)"
    using h(2) unat_add_small[of h "h_size ?m h"] by (simp add: n next_block_def)
  have "unat h \<noteq> 0" using i(3) by (auto simp: unat_eq_zero)
  then have t: "unat ?t = unat (h_size ?m h) + unat (h_size ?m n)"
    using b(2) un by (intro unat_add_small) simp
  have N: "{unat h..<unat h + unat ?t} = extent ?m h \<union> extent ?m n" by (auto simp: extent_def t un)
  have hn: "h \<noteq> n" using un h(1) by auto
  have inv0: "heap_inv s hs al" using heap_inv_drop[OF inv] by blast
  have fit: "32 \<le> unat ?t" "unat h + unat ?t \<le> 2 ^ 32" "h \<noteq> nullptr" using t h(1) b(2) un i(3) by auto
  have used: "{unat h..<unat h + unat ?t} \<subseteq> used_bytes s" unfolding N using i(4)[of h] i(4)[of n] by blast
  have fresh: "extent ?m x \<inter> {unat h..<unat h + unat ?t} = {}" if "x \<in> set hs \<union> al" for x
    unfolding N using blocksD[OF i(1), of x h] blocksD[OF i(1), of x n] that i(2) d by blast
  have "h_magic (set_size h ?t ?m) h = HEAP_MAGIC"
    using h(3,4) field_addr[OF h(3)] by (simp add: h_magic_def set_size_def rd32_wr32_disjoint)
  then have "set_magic h HEAP_MAGIC (set_size h ?t ?m) = set_size h ?t ?m"
    using wr32_rd32[of "set_size h ?t ?m" "h + 4"] unfolding set_magic_def h_magic_def by metis
  then have s2: "s' = s\<lparr>mem := new_block h ?t ?m, heap_end := heap_end s\<rparr>" by (simp add: s' new_block_def)
  show "heap_inv s' hs (insert h al)" "keeps al s s'"
    using new_block_inv(1,2)[OF inv0 fit used _ s2] fresh by blast+
  show "extent (mem s') h = extent ?m h \<union> extent ?m n"
    using new_block_ok(3)[OF fit(1,2)] N by (simp add: s2)
qed

text \<open>The three ways \<open>kfree\<close> merges: the block after is free, the block after is still allocated (and
  its links, left over from its time on the list, are null), the block before is free.\<close>

lemma kfree_header:
  assumes "heap_inv s hs (insert h al)"
  shows "h + 16 \<noteq> nullptr" "header_from_ptr (h + 16) = h" "is_valid (mem s) h"
proof -
  have "blk_ok (mem s) h" using assms by (simp add: heap_inv_def blocks_def)
  note b = blk_okD[OF this]
  have "unat (h + 16) = unat h + 16" using b(1,2) unat_add_small[of h 16] by simp
  then show "h + 16 \<noteq> nullptr" by auto
  show "header_from_ptr (h + 16) = h" by (simp add: header_from_ptr_def HEADER_SIZE_def)
  show "is_valid (mem s) h" using b(4) by (simp add: is_valid_def)
qed

lemma kfree_merge_next:
  assumes "heap_inv s hs (insert h al)" and "\<not> merges_prev s h" "merges_next s h"
    and "n = next_block (mem s) h" and "s1 = list_remove n s"
  shows "kfree (h + 16) s = list_append h
    (s1\<lparr>mem := set_footer h (set_size h (h_size (mem s1) h + h_size (mem s1) n) (mem s1))\<rparr>)"
  using assms(2-5) kfree_header[OF assms(1)]
  by (auto simp: kfree_def Let_def merges_prev_def merges_next_def)

lemma kfree_next_free_ok:
  assumes inv: "heap_inv s (as @ n # bs) (insert h al)" and d: "h \<notin> al"
    and m: "\<not> merges_prev s h" "merges_next s h" and n: "n = next_block (mem s) h"
  shows "\<exists>s'. kfree (h + 16) s = Inr s' \<and> heap_inv s' (as @ bs @ [h]) al \<and> keeps al s s'
    \<and> extent (mem s') h = extent (mem s) h \<union> extent (mem s) n"
proof -
  define s1 where "s1 = list_remove n s"
  define s2 where "s2 = s1\<lparr>mem := set_footer h (set_size h (h_size (mem s1) h + h_size (mem s1) n) (mem s1))\<rparr>"
  note r = heap_remove_ok[OF inv, folded s1_def]
  have i: "heap_inv s1 (as @ bs) (insert h (insert n al))" using r(1) by (simp add: insert_commute)
  have na: "n \<notin> al" using inv by (auto simp: heap_inv_def)
  have sz: "h_size (mem s1) h = h_size (mem s) h" "h_size (mem s1) n = h_size (mem s) n" using r(3) by auto
  have n1: "n = next_block (mem s1) h" using n sz by (simp add: next_block_def)
  note a = absorb_ok[OF i d na n1 s2_def]
  obtain s' where s': "list_append h s2 = Inr s'" "heap_inv s' ((as @ bs) @ [h]) al" "keeps al s2 s'"
    "h_size (mem s') h = h_size (mem s2) h" using heap_append_ok[OF a(1) d] by metis
  have "keeps al s s1" using r(2) by (auto simp: keeps_def)
  then have "keeps al s s'" using a(2) s'(3) keeps_trans by blast
  moreover have "extent (mem s') h = extent (mem s) h \<union> extent (mem s) n"
    using a(3) s'(4) sz by (simp add: extent_def)
  ultimately show ?thesis
    using kfree_merge_next[OF inv m n s1_def] s'(1,2) unfolding s2_def by auto
qed


lemma kfree_prev_free_ok:
  assumes inv: "heap_inv s (as @ p # bs) (insert h al)" and d: "h \<notin> al"
    and m: "merges_prev s h" "\<not> merges_next s h" and p: "p = prev_block (mem s) h" "h = next_block (mem s) p"
  shows "\<exists>s'. kfree (h + 16) s = Inr s' \<and> heap_inv s' (as @ bs) (insert p al) \<and> keeps al s s'
    \<and> extent (mem s') p = extent (mem s) p \<union> extent (mem s) h"
proof -
  define s1 where "s1 = list_remove p s"
  define s2 where "s2 = s1\<lparr>mem := set_footer p (set_size p (h_size (mem s1) p + h_size (mem s1) h) (mem s1))\<rparr>"
  note r = heap_remove_ok[OF inv, folded s1_def]
  have na: "p \<notin> al" using inv by (auto simp: heap_inv_def)
  have sz: "h_size (mem s1) h = h_size (mem s) h" "h_size (mem s1) p = h_size (mem s) p" using r(3) by auto
  have p1: "h = next_block (mem s1) p" using p(2) sz by (simp add: next_block_def)
  note a = absorb_ok[OF r(1) na d p1 s2_def]
  have "keeps al s s1" using r(2) by (auto simp: keeps_def)
  then have "keeps al s s2" using a(2) keeps_trans by blast
  moreover have "kfree (h + 16) s = Inr s2"
    using m p(1) kfree_header[OF inv]
    by (auto simp: kfree_def Let_def merges_prev_def merges_next_def s2_def s1_def)
  moreover have "extent (mem s2) p = extent (mem s) p \<union> extent (mem s) h"
    using a(3) sz by (simp add: extent_def)
  ultimately show ?thesis using a(1) by blast
qed

section \<open>A small heap\<close>

text \<open>A machine with 32 pages, all in use, with a heap of one free block, and of two blocks of 32 bytes
  side by side.\<close>

definition demo_bitmap :: "u8 list" where
  "demo_bitmap = replicate 4 255 @ replicate 32764 0"

definition demo_machine :: "u32 \<Rightarrow> heap_state" where
  "demo_machine e = \<lparr>bitmap = demo_bitmap, total_pages = 32, used_pages = 32, mem = (\<lambda>_. 0),
     free_list = nullptr, heap_end = e\<rparr>"

definition demo_free :: heap_state where
  "demo_free = (demo_machine 0x2000)\<lparr>mem := new_block 0x1000 4096 (\<lambda>_. 0), free_list := 0x1000\<rparr>"

definition demo_pair :: "u32 \<Rightarrow> u32 \<Rightarrow> heap_state" where
  "demo_pair b e = (demo_machine e)\<lparr>mem := new_block (b + 32) 32 (new_block b 32 (\<lambda>_. 0))\<rparr>"

lemma demo_bitmap_facts: "length demo_bitmap = 32768" "i < 4 \<Longrightarrow> demo_bitmap ! i = 255"
  by (simp_all add: demo_bitmap_def nth_append)

lemma bit_255: "k < 8 \<Longrightarrow> bit (255 :: u8) k"
proof -
  have "(255 :: u8) = - 1" by simp
  then show "k < 8 \<Longrightarrow> bit (255 :: u8) k" by (simp only: bit_minus_1_iff) simp
qed

lemma demo_used: "used_set (demo_machine e) = {..<32}"
proof -
  have "page_used demo_bitmap i" if "i < 32" for i
  proof -
    have "demo_bitmap ! (i div 8) = 255" using that by (intro demo_bitmap_facts) simp
    then show ?thesis unfolding page_used_def by (metis bit_255 mod_less_divisor zero_less_numeral)
  qed
  then show ?thesis by (auto simp: used_set_def demo_machine_def)
qed

lemma demo_machine_inv: "heap_inv (demo_machine e) [] {}"
proof -
  have "pmm_inv (demo_machine e)" unfolding pmm_inv_def demo_used
    by (simp add: demo_machine_def demo_bitmap_facts)
  then show ?thesis by (simp add: heap_inv_def blocks_def) (simp add: demo_machine_def)
qed

lemma demo_bytes: "j \<le> 131072 \<Longrightarrow> {i..<j} \<subseteq> used_bytes (demo_machine e)"
  by (auto simp: used_bytes_def demo_used)

lemma rd32_zero [simp]: "rd32 (\<lambda>_. 0) a = 0"
  by (simp add: rd32_def)

text \<open>A block with null links is a free list.\<close>

lemma heap_single_free:
  assumes "heap_inv t [] (insert p al)" and "p \<notin> al" and "h_next (mem t) p = nullptr" "h_prev (mem t) p = nullptr"
  shows "heap_inv (t\<lparr>free_list := p\<rparr>) [p] al"
  using assms by (simp add: heap_inv_def pmm_inv_def used_set_def used_bytes_def)

lemma demo_free_inv: "heap_inv demo_free [0x1000] {}" "h_size (mem demo_free) 0x1000 = 4096"
proof -
  define t where "t = (demo_machine 0x2000)\<lparr>mem := new_block 0x1000 4096 (mem (demo_machine 0x2000)), heap_end := 0x2000\<rparr>"
  have "heap_inv t [] {0x1000}"
    using new_block_inv(1)[OF demo_machine_inv, of 4096 "0x1000" "0x2000" t "0x2000"]
    by (simp add: t_def demo_bytes)
  moreover have "mem t = new_block 0x1000 4096 (\<lambda>_. 0)" by (simp add: t_def demo_machine_def)
  moreover from this have "h_next (mem t) 0x1000 = nullptr" "h_prev (mem t) 0x1000 = nullptr"
    by (simp_all add: new_block_def set_footer_def field_defs rd32_wr32_disjoint)
  moreover have "demo_free = t\<lparr>free_list := 0x1000\<rparr>" by (simp add: demo_free_def t_def demo_machine_def)
  ultimately show "heap_inv demo_free [0x1000] {}" using heap_single_free[of t "0x1000" "{}"] by simp
  show "h_size (mem demo_free) 0x1000 = 4096"
    using new_block_ok(2)[of 4096 "0x1000"] by (simp add: demo_free_def)
qed

lemma demo_pair_inv:
  assumes "0 < unat b" and "unat b + 64 \<le> 131072"
  shows "heap_inv (demo_pair b e) [] {b, b + 32}"
proof -
  define t where "t = (demo_machine e)\<lparr>mem := new_block b 32 (mem (demo_machine e)), heap_end := e\<rparr>"
  have b: "b \<noteq> nullptr" and b32: "unat (b + 32) = unat b + 32"
    using assms unat_add_small[of b 32] by auto
  then have nz: "b + 32 \<noteq> nullptr" by auto
  have t: "heap_inv t [] {b}" "used_set t = used_set (demo_machine e)"
    using new_block_inv(1,4)[OF demo_machine_inv, of 32 b e t e] assms b
    by (simp_all add: t_def demo_bytes)
  have x: "extent (mem t) b = {unat b..<unat b + 32}"
    using new_block_ok(3)[of 32 b "mem (demo_machine e)"] assms by (simp add: t_def)
  have "demo_pair b e = t\<lparr>mem := new_block (b + 32) 32 (mem t), heap_end := e\<rparr>"
    by (simp add: demo_pair_def t_def demo_machine_def)
  moreover have "{unat b + 32..<64 + unat b} \<subseteq> used_bytes t"
    using demo_bytes[of "64 + unat b" "unat b + 32"] t(2) assms by (simp add: used_bytes_def)
  ultimately have "heap_inv (demo_pair b e) [] (insert (b + 32) {b})"
    using b32 nz assms x by (intro new_block_inv(1)[OF t(1), of 32 "b + 32"]) (simp_all add: disjoint_iff)
  then show ?thesis by (simp add: insert_commute)
qed

lemma has_prev_low: "heap_end s = 0x2000 \<Longrightarrow> \<not> has_prev s 0x1000"
proof -
  have "unat ((0x2000 :: u32) - HEAP_GROW) = 4294909952"
    unfolding HEAP_GROW_def unat_sub_if' by simp
  then show "heap_end s = 0x2000 \<Longrightarrow> \<not> has_prev s 0x1000"
    by (simp only: has_prev_def word_less_nat_alt) simp
qed

lemmas demo_pair_simps = demo_pair_def demo_machine_def new_block_def set_footer_def field_defs rd32_wr32_disjoint

section \<open>Properties\<close>

text \<open>C1: On a heap that satisfies the invariant every request that does not wrap around returns. The
  answer is null with the heap still well formed, or the address of a block that
  was not allocated before, whose first \<open>sz\<close> bytes are zero and overlap no
  allocated block; it is not null when a free block is large enough. No byte of
  a block allocated before changes.\<close>

theorem kmalloc_fresh_zeroed:
  assumes "heap_inv s hs al" and "0 < sz" and "unat sz + 28 \<le> 2 ^ 32"
  shows "\<exists>p s' hs'. kmalloc sz s = Inr (p, s') \<and> keeps al s s'
    \<and> ((\<exists>h \<in> set hs. needed_bytes sz \<le> h_size (mem s) h) \<longrightarrow> p \<noteq> nullptr)
    \<and> (if p = nullptr then heap_inv s' hs' al
       else p - 16 \<notin> al \<and> heap_inv s' hs' (insert (p - 16) al)
         \<and> (\<forall>a. unat p \<le> unat a \<and> unat a < unat p + unat sz \<longrightarrow> mem s' a = 0)
         \<and> (\<forall>x \<in> al. extent (mem s') x \<inter> {unat p..<unat p + unat sz} = {}))"
proof -
  obtain p s' hs' where k: "kmalloc sz s = Inr (p, s')" "keeps al s s'"
    "if p = nullptr then heap_inv s' hs' al else gives al (needed_bytes sz) p hs' s'"
    "(\<exists>h \<in> set hs. needed_bytes sz \<le> h_size (mem s) h) \<longrightarrow> p \<noteq> nullptr"
    using kmalloc_ok[OF assms] by blast
  have "\<forall>x \<in> al. extent (mem s') x \<inter> {unat p..<unat p + unat sz} = {}" if "p \<noteq> nullptr"
  proof
    fix x assume x: "x \<in> al"
    have g: "gives al (needed_bytes sz) p hs' s'" using k(3) that by simp
    then have b: "blocks (mem s') (set hs' \<union> insert (p - 16) al)" and "p - 16 \<notin> al"
      by (simp_all add: gives_def heap_inv_def)
    then have "extent (mem s') x \<inter> extent (mem s') (p - 16) = {}"
      using x by (intro blocksD[OF b]) auto
    then show "extent (mem s') x \<inter> {unat p..<unat p + unat sz} = {}"
      using gives_room(1)[OF g assms(3)] by blast
  qed
  moreover have "\<forall>a. unat p \<le> unat a \<and> unat a < unat p + unat sz \<longrightarrow> mem s' a = 0" if "p \<noteq> nullptr"
    using k(3) that gives_room(3)[of al sz p hs' s'] assms(3) by simp
  moreover have "p - 16 \<notin> al \<and> heap_inv s' hs' (insert (p - 16) al)" if "p \<noteq> nullptr"
    using k(3) that by (simp add: gives_def)
  ultimately show ?thesis
    using k by (intro exI[of _ p] exI[of _ s'] exI[of _ hs']) simp
qed

theorem kmalloc_fresh_zeroed_witness:
  "\<exists>p s' hs'. kmalloc 10 demo_free = Inr (p, s') \<and> p \<noteq> nullptr \<and> heap_inv s' hs' {p - 16}"
proof -
  have "needed_bytes 10 = 36" by (simp add: needed_bytes_def heap_consts Let_def)
  then show ?thesis
    using kmalloc_fresh_zeroed[OF demo_free_inv(1), of 10] demo_free_inv(2) by (auto split: if_splits)
qed

text \<open>C7: After booting the page allocator with 5 to 1024 MB and initialising the heap, every sequence
  of requests for at most \<open>2^32 - 28\<close> bytes each, so that the size of the block does not wrap, returns, with one
  answer per request, and the byte ranges of the answers are pairwise disjoint. A first request that fits into the initial page
  is granted.\<close>

theorem kmalloc_run_disjoint:
  assumes "5 \<le> mb" and "mb \<le> 1024" and "\<forall>n \<in> set ns. unat n + 28 \<le> 2 ^ 32"
  shows "\<exists>ps s'. bindR (pmm_init mb s) (\<lambda>s. bindR (kmalloc_init s) (kmallocs ns)) = Inr (ps, s')
    \<and> length ps = length ns \<and> sorted_wrt (\<lambda>x y. payload x \<inter> payload y = {}) (zip ns ps)
    \<and> (ns \<noteq> [] \<and> 0 < hd ns \<and> needed_bytes (hd ns) \<le> 4096 \<longrightarrow> hd ps \<noteq> nullptr)"
proof -
  have mb: "1 \<le> mb" "5 \<le> unat mb" using assms(1) by (auto simp: word_le_nat_alt)
  obtain s1 where s1: "pmm_init mb s = Inr s1" "pmm_inv s1" "unat (total_pages s1) = 256 * unat mb"
    "used_set s1 = {..<min 1024 (256 * unat mb)}" using pmm_init_ok[OF mb(1) assms(2)] by blast
  have "used_set s1 \<noteq> {..<unat (total_pages s1)}" using s1(3,4) mb(2) by (simp add: lessThan_eq_iff)
  then obtain s2 h where s2: "kmalloc_init s1 = Inr s2" "heap_inv s2 [h] {}" "h_size (mem s2) h = 4096"
    using kmalloc_init_ok[OF s1(2)] by blast
  obtain ps s' where r: "kmallocs ns s2 = Inr (ps, s')" "length ps = length ns"
    "sorted_wrt (\<lambda>x y. payload x \<inter> payload y = {}) (zip ns ps)"
    using kmallocs_ok[OF s2(2) assms(3)] by blast
  have "hd ps \<noteq> nullptr" if ns: "ns \<noteq> []" and n: "0 < hd ns" "needed_bytes (hd ns) \<le> 4096"
  proof -
    obtain p t where "kmalloc (hd ns) s2 = Inr (p, t)" "p \<noteq> nullptr"
      using kmalloc_ok[OF s2(2) n(1)] assms(3) ns n(2) s2(3) by force
    then show ?thesis using r(1) ns by (cases ns) (auto simp: res_simps)
  qed
  then show ?thesis using s1(1) s2(1) r by auto
qed

theorem kmalloc_run_disjoint_witness:
  "\<exists>p q t. bindR (pmm_init 32 (demo_machine 0)) (\<lambda>s. bindR (kmalloc_init s) (kmallocs [100, 200])) = Inr ([p, q], t)
    \<and> p \<noteq> nullptr \<and> payload (100, p) \<inter> payload (200, q) = {}"
proof -
  have "needed_bytes 100 = 124" by (simp add: needed_bytes_def heap_consts Let_def)
  then show ?thesis
    using kmalloc_run_disjoint[of 32 "[100, 200]" "demo_machine 0"] by (auto simp: length_Suc_conv)
qed

text \<open>C24: \<open>kmalloc_init\<close> establishes the heap invariant with one free block of a page, and panics
  exactly when no page is free.\<close>

theorem kmalloc_init_establishes:
  assumes "pmm_inv s"
  shows "if used_set s = {..<unat (total_pages s)}
    then kmalloc_init s = Inl (Panic ''kmalloc_init: OOM'')
    else \<exists>s' h. kmalloc_init s = Inr s' \<and> heap_inv s' [h] {} \<and> h_size (mem s') h = 4096"
  using kmalloc_init_panics[OF assms] kmalloc_init_ok[OF assms] by simp

theorem kmalloc_init_establishes_witness:
  "kmalloc_init (demo_machine 0) = Inl (Panic ''kmalloc_init: OOM'')"
proof -
  have "pmm_inv (demo_machine 0)" using demo_machine_inv[of 0] by (simp add: heap_inv_def)
  moreover have "unat (total_pages (demo_machine 0)) = 32" by (simp add: demo_machine_def)
  ultimately show ?thesis using kmalloc_init_establishes[of "demo_machine 0"] demo_used[of 0] by simp
qed

text \<open>C31: Freeing a block that \<open>kfree\<close> does not join with the block before it; it does that to a block
  within 64 KB of the end of the heap when the block before has the heap's magic number, allocated or
  not. When no block with the magic number follows, the block goes to the end of the free list,
  and when a free block follows, the two are joined. Both keep the invariant and every byte
  of the blocks that stay allocated.\<close>

theorem kfree_keeps_heap:
  assumes "heap_inv s hs (insert h al)" and "h \<notin> al" and "\<not> merges_prev s h"
    and "merges_next s h \<longrightarrow> next_block (mem s) h \<in> set hs"
  shows "\<exists>s'. kfree (h + 16) s = Inr s' \<and> keeps al s s'
    \<and> (if merges_next s h
       then heap_inv s' (remove1 (next_block (mem s) h) hs @ [h]) al
         \<and> extent (mem s') h = extent (mem s) h \<union> extent (mem s) (next_block (mem s) h)
       else heap_inv s' (hs @ [h]) al)"
proof (cases "merges_next s h")
  case True
  let ?n = "next_block (mem s) h"
  obtain as bs where hs: "hs = as @ ?n # bs" "?n \<notin> set as" using True assms(4) split_list_first by metis
  then have "remove1 ?n hs = as @ bs" by (simp add: remove1_append)
  then show ?thesis using kfree_next_free_ok[OF assms(1)[unfolded hs(1)] assms(2,3) True refl] True by auto
next
  case False
  then show ?thesis using kfree_alone_ok[OF assms(1-3) False] by auto
qed

theorem kfree_keeps_heap_witness:
  "\<exists>s'. kfree 0x1010 ((demo_pair 0x1000 0x2000)\<lparr>free_list := 0x1020\<rparr>) = Inr s' \<and> heap_inv s' [0x1000] {}"
proof -
  let ?t = "demo_pair 0x1000 0x2000" and ?s = "(demo_pair 0x1000 0x2000)\<lparr>free_list := 0x1020\<rparr>"
  have z: "h_size (mem ?t) 0x1000 = 32" "h_next (mem ?t) 0x1020 = nullptr" "h_prev (mem ?t) 0x1020 = nullptr"
    "h_magic (mem ?t) 0x1020 = HEAP_MAGIC" "heap_end ?t = 0x2000" by (simp_all add: demo_pair_simps)
  have mn: "merges_next ?s 0x1000" and nb: "0x1020 = next_block (mem ?s) 0x1000"
    using z by (simp_all add: merges_next_def has_next_def next_block_def)
  have mp: "\<not> merges_prev ?s 0x1000" using has_prev_low[of ?s] z(5) unfolding merges_prev_def by simp
  have inv: "heap_inv ?s [0x1020] (insert 0x1000 {})"
    using heap_single_free[of ?t "0x1020" "{0x1000}"] demo_pair_inv[of "0x1000" "0x2000"] z
    by (simp add: insert_commute)
  obtain s' where "kfree (0x1000 + 16) ?s = Inr s'" "heap_inv s' [0x1000] {}"
    using kfree_keeps_heap[OF inv _ mp] mn nb by (simp, metis)
  moreover have "0x1000 + 16 = (0x1010 :: u32)" by simp
  ultimately show ?thesis by auto
qed



text \<open>Freeing a block that a free block precedes, and no block follows, loses both: the joined block
  is taken off the free list and not put back.\<close>

theorem kfree_prev_leaks:
  assumes "heap_inv s (as @ p # bs) (insert h al)" and "h \<notin> al" and "merges_prev s h" and "\<not> merges_next s h"
    and "p = prev_block (mem s) h" and "h = next_block (mem s) p"
  shows "\<exists>s'. kfree (h + 16) s = Inr s' \<and> heap_inv s' (as @ bs) (insert p al)
    \<and> (\<forall>x \<in> set (as @ bs). extent (mem s') x \<inter> (extent (mem s) p \<union> extent (mem s) h) = {})"
proof -
  obtain s' where s': "kfree (h + 16) s = Inr s'" "heap_inv s' (as @ bs) (insert p al)"
    "extent (mem s') p = extent (mem s) p \<union> extent (mem s) h"
    using kfree_prev_free_ok[OF assms] by blast
  have b: "blocks (mem s') (set (as @ bs) \<union> insert p al)" and d: "set (as @ bs) \<inter> insert p al = {}"
    using s'(2) by (simp_all add: heap_inv_def)
  have "extent (mem s') x \<inter> extent (mem s') p = {}" if "x \<in> set (as @ bs)" for x
    using that d by (intro blocksD[OF b]) auto
  then show ?thesis using s' by auto
qed

theorem kfree_prev_leaks_witness:
  "\<exists>s'. kfree 0x1F030 ((demo_pair 0x1F000 0x1F040)\<lparr>free_list := 0x1F000\<rparr>) = Inr s' \<and> heap_inv s' [] {0x1F000}"
proof -
  let ?t = "demo_pair 0x1F000 0x1F040" and ?s = "(demo_pair 0x1F000 0x1F040)\<lparr>free_list := 0x1F000\<rparr>"
  have z: "h_size (mem ?t) 0x1F000 = 32" "h_size (mem ?t) 0x1F020 = 32" "rd32 (mem ?t) 0x1F01C = 32"
    "h_next (mem ?t) 0x1F000 = nullptr" "h_prev (mem ?t) 0x1F000 = nullptr"
    "h_magic (mem ?t) 0x1F000 = HEAP_MAGIC" "heap_end ?t = 0x1F040" by (simp_all add: demo_pair_simps)
  have m: "merges_prev ?s 0x1F020" "\<not> merges_next ?s 0x1F020" "prev_block (mem ?t) 0x1F020 = 0x1F000"
    using z by (simp_all add: merges_next_def has_next_def prev_block_def merges_prev_def has_prev_def HEAP_GROW_def)
  have inv: "heap_inv ?s ([] @ 0x1F000 # []) (insert 0x1F020 {})"
    using heap_single_free[of ?t "0x1F000" "{0x1F020}"] demo_pair_inv[of "0x1F000" "0x1F040"] z by simp
  have nb: "0x1F020 = next_block (mem ?s) 0x1F000" "0x1F000 = prev_block (mem ?s) 0x1F020"
    using z(1) m(3) by (simp_all add: next_block_def)
  obtain s' where "kfree (0x1F020 + 16) ?s = Inr s'" "heap_inv s' ([] @ []) {0x1F000}"
    using kfree_prev_leaks[OF inv _ m(1,2) nb(2,1)] by blast
  moreover have "0x1F020 + 16 = (0x1F030 :: u32)" by simp
  ultimately show ?thesis by auto
qed

text \<open>A request of \<open>0xFFFFFFFF\<close> bytes is not refused: rounding up and adding the header wraps around, and
  the answer is the address of a block of 32 bytes.\<close>

theorem kmalloc_huge_request_wraps:
  assumes "heap_inv s (h # hs) al" and "64 \<le> unat (h_size (mem s) h)"
  shows "\<exists>s'. kmalloc 0xFFFFFFFF s = Inr (h + 16, s') \<and> h_size (mem s') h = 32"
proof -
  let ?B = "set ([] @ h # hs) \<union> al"
  have n: "needed_bytes 0xFFFFFFFF = 32" by (simp add: needed_bytes_def heap_consts Let_def)
  have le: "32 \<le> h_size (mem s) h" "h_size (mem s) h - 32 \<ge> MIN_BLOCK" "32 \<le> unat (32 :: u32)"
    using assms(2) by (simp_all add: word_le_nat_alt unat_sub MIN_BLOCK_def)
  have i: "list_of (mem s) (free_list s) ([] @ h # hs)" "blocks (mem s) ?B" "set ([] @ h # hs) \<subseteq> ?B"
    using assms(1) by (auto simp: heap_inv_def)
  obtain m' fl' where t: "kmalloc_take 32 h s = (h + 16, s\<lparr>mem := m', free_list := fl'\<rparr>)"
    "taken (mem s) ?B [] h hs 32 [h + 32] m' fl'" by (rule take_split_ok[OF i le(3,1,2)])
  have "find_fit (mem s) 32 (free_list s) = Some h"
    using find_fit_dll[OF conjunct1[OF i(1)], of 32] le(1) by simp
  moreover have "h \<noteq> nullptr" using i(1) by simp
  ultimately have "kmalloc 0xFFFFFFFF s = Inr (h + 16, s\<lparr>mem := m', free_list := fl'\<rparr>)"
    using t(1) by (simp add: kmalloc_def n)
  then show ?thesis using t(2) by (auto simp: taken_def)
qed

theorem kmalloc_huge_request_wraps_witness:
  "\<exists>s'. kmalloc 0xFFFFFFFF demo_free = Inr (0x1010, s') \<and> h_size (mem s') 0x1000 = 32"
  using kmalloc_huge_request_wraps[OF demo_free_inv(1)] demo_free_inv(2) by simp

end
