(* ===== verification/Terminal.thy ===== *)
theory Terminal
  imports Libk
begin

text \<open>
  The text terminal, \<open>src/src/terminal.cpp\<close>, with the panic screen of
  \<open>src/src/kernel/panic.cpp\<close>. The state is the class \<open>Terminal\<close>: the 80 by 25
  cells at 0xB8000, the cursor's row and column, what has been sent to the serial
  port (the wait for the port's transmit flag is the device's part), and the
  cursor position last written to the display controller. A cell outside the
  screen is the fault \<open>Out_of_bounds\<close>.
\<close>

section \<open>State and operations\<close>

definition WIDTH :: int where "WIDTH = 80"
definition HEIGHT :: int where "HEIGHT = 25"
definition color :: u8 where "color = 0x07"

lemmas term_consts = WIDTH_def HEIGHT_def color_def

record terminal =
  vga :: "u16 list"
  row :: int
  col :: int
  serial :: "u8 list"
  cursor_low :: u8
  cursor_high :: u8

definition serial_putchar :: "char \<Rightarrow> terminal \<Rightarrow> terminal" where
  "serial_putchar c t =
     t\<lparr>serial := serial t @ [of_char c] @ (if c = CHR 0x0A then [0x0D] else [])\<rparr>"

text \<open>\<open>char\<close> is signed: the conversion to 16 bits extends its sign bit.\<close>

definition cell_entry :: "char \<Rightarrow> u16" where
  "cell_entry c = scast (of_char c :: u8) OR push_bit 8 (ucast color)"

definition cell_set :: "int \<Rightarrow> char \<Rightarrow> terminal \<Rightarrow> terminal res" where
  "cell_set i c t =
     (if 0 \<le> i then bindR (array_set (vga t) (nat i) (cell_entry c)) (\<lambda>b. Inr (t\<lparr>vga := b\<rparr>))
      else Inl Out_of_bounds)"

definition update_cursor :: "terminal \<Rightarrow> terminal" where
  "update_cursor t =
     (let pos = row t * WIDTH + col t
      in t\<lparr>cursor_low := word_of_int pos, cursor_high := word_of_int (pos div 256)\<rparr>)"

definition term_clear :: "terminal \<Rightarrow> terminal" where
  "term_clear t =
     update_cursor (t\<lparr>vga := map (\<lambda>i. cell_entry CHR '' '') [0..<nat (HEIGHT * WIDTH)], row := 0, col := 0\<rparr>)"

text \<open>The lines sent to the serial port's configuration registers are not part of the state.\<close>

definition term_init :: "terminal \<Rightarrow> terminal" where
  "term_init t = serial_putchar CHR 0x0A (term_clear (t\<lparr>row := 0, col := 0\<rparr>))"

definition scroll :: "terminal \<Rightarrow> terminal" where
  "scroll t =
     t\<lparr>vga := map (\<lambda>i. if i < nat ((HEIGHT - 1) * WIDTH) then vga t ! (i + nat WIDTH) else cell_entry CHR '' '')
                [0..<nat (HEIGHT * WIDTH)],
       row := HEIGHT - 1\<rparr>"

definition putchar :: "char \<Rightarrow> terminal \<Rightarrow> terminal res" where
  "putchar c t0 =
     (let t = serial_putchar c t0 in
      bindR
        (if c = CHR 0x0A then Inr (t\<lparr>col := 0, row := row t + 1\<rparr>)
         else if c = CHR 0x08 then
           let t = (if col t > 0 then t\<lparr>col := col t - 1\<rparr> else t)
           in cell_set (row t * WIDTH + col t) CHR '' '' t
         else
           bindR (cell_set (row t * WIDTH + col t) c t) (\<lambda>t. Inr (t\<lparr>col := col t + 1\<rparr>)))
        (\<lambda>t. let t = (if col t \<ge> WIDTH then t\<lparr>col := 0, row := row t + 1\<rparr> else t);
                 t = (if row t \<ge> HEIGHT then scroll t else t)
             in Inr (update_cursor t)))"

text \<open>\<open>write\<close> on the text of a NUL-terminated string.\<close>

fun term_write :: "string \<Rightarrow> terminal \<Rightarrow> terminal res" where
  "term_write [] t = Inr t"
| "term_write (c # cs) t = bindR (putchar c t) (term_write cs)"

definition backspace :: "terminal \<Rightarrow> terminal res" where
  "backspace t = putchar CHR 0x08 t"

section \<open>The panic screen\<close>

text \<open>The digits of the line number, least significant first, in the 16 elements of \<open>tmp\<close>; a
  line number that is not positive has none.\<close>

function panic_digits :: "int \<Rightarrow> string \<Rightarrow> string res" where
  "panic_digits n tmp =
     (if n > 0
      then if length tmp < 16 then panic_digits (n div 10) (tmp @ [char_of (48 + nat (n mod 10))])
           else Inl Out_of_bounds
      else Inr tmp)"
  by pat_completeness auto
termination
  by (relation "measure (\<lambda>(n, t). nat n)") auto

declare panic_digits.simps [simp del]

text \<open>What \<open>panic\<close> prints; it then halts the machine, so it has no other result.\<close>

definition panic :: "string \<Rightarrow> string \<Rightarrow> int \<Rightarrow> terminal \<Rightarrow> terminal res" where
  "panic reason file line t =
     (let nl = [CHR 0x0A]; bar = ''================================='' @ nl in
      bindR (term_write nl t) (\<lambda>t. bindR (term_write bar t) (\<lambda>t.
      bindR (term_write (''          KERNEL PANIC'' @ nl) t) (\<lambda>t. bindR (term_write bar t) (\<lambda>t.
      bindR (term_write ''Reason: '' t) (\<lambda>t. bindR (term_write reason t) (\<lambda>t. bindR (term_write nl t) (\<lambda>t.
      bindR (term_write ''File: '' t) (\<lambda>t. bindR (term_write file t) (\<lambda>t. bindR (term_write nl t) (\<lambda>t.
      bindR (term_write ''Line: '' t) (\<lambda>t.
      bindR (if line = 0 then Inr ''0'' else bindR (panic_digits line []) (\<lambda>tmp. Inr (rev tmp))) (\<lambda>num.
      bindR (term_write num t) (\<lambda>t. term_write nl t))))))))))))))"

definition kernel_panic :: "string \<Rightarrow> terminal \<Rightarrow> terminal res" where
  "kernel_panic msg t = panic msg ''unknown'' 0 t"

section \<open>The cursor stays on the screen\<close>

definition term_inv :: "terminal \<Rightarrow> bool" where
  "term_inv t \<longleftrightarrow> length (vga t) = 2000 \<and> 0 \<le> row t \<and> row t < 25 \<and> 0 \<le> col t \<and> col t < 80"

lemma cell_set_ok:
  "0 \<le> i \<Longrightarrow> i < 2000 \<Longrightarrow> length (vga t) = 2000 \<Longrightarrow>
     cell_set i c t = Inr (t\<lparr>vga := (vga t)[nat i := cell_entry c]\<rparr>)"
  by (simp add: cell_set_def nat_less_iff)

lemma term_init_inv: "term_inv (term_init t)"
  by (simp add: term_inv_def term_init_def term_clear_def serial_putchar_def update_cursor_def term_consts Let_def)

lemma term_init_cursor_fields: "row (term_init t) = 0" "col (term_init t) = 0"
  by (simp_all add: term_init_def term_clear_def serial_putchar_def update_cursor_def Let_def)

text \<open>What one character does to the screen, on each branch.\<close>

definition next_line :: "terminal \<Rightarrow> terminal" where
  "next_line t = (let u = t\<lparr>col := 0, row := row t + 1\<rparr> in if row u \<ge> HEIGHT then scroll u else u)"

lemma putchar_newline: "putchar CHR 0x0A t = Inr (update_cursor (next_line (serial_putchar CHR 0x0A t)))"
  by (simp add: putchar_def next_line_def WIDTH_def Let_def)

lemma putchar_backspace:
  assumes "term_inv t"
  shows "putchar CHR 0x08 t = Inr (update_cursor (let c = max 0 (col t - 1) in
    (serial_putchar CHR 0x08 t)\<lparr>col := c, vga := (vga t)[nat (row t * 80 + c) := cell_entry CHR '' '']\<rparr>))"
  using assms
  by (cases t) (auto simp: putchar_def term_inv_def term_consts serial_putchar_def Let_def cell_set_ok max_def)

lemma putchar_glyph:
  assumes "term_inv t" and "c \<noteq> CHR 0x0A" and "c \<noteq> CHR 0x08"
  shows "putchar c t = Inr (update_cursor
    (let u = (serial_putchar c t)\<lparr>vga := (vga t)[nat (row t * 80 + col t) := cell_entry c], col := col t + 1\<rparr>
     in if col t = 79 then next_line u else u))"
  using assms
  by (auto simp: putchar_def term_inv_def term_consts serial_putchar_def Let_def cell_set_ok next_line_def)

text \<open>The bytes a string sends to the serial port, and the position in the cursor registers.\<close>

definition serial_bytes :: "string \<Rightarrow> u8 list" where
  "serial_bytes s = concat (map (\<lambda>c. if c = CHR 0x0A then [0x0A, 0x0D] else [of_char c]) s)"

definition cursor_pos :: "terminal \<Rightarrow> int" where
  "cursor_pos t = uint (cursor_high t) * 256 + uint (cursor_low t)"

lemma term_init_cursor: "cursor_pos (term_init t) = row (term_init t) * 80 + col (term_init t)"
  by (simp add: term_init_cursor_fields)
    (simp add: cursor_pos_def term_init_def term_clear_def serial_putchar_def update_cursor_def Let_def)

lemma cursor_registers:
  assumes "0 \<le> p" and "p < 65536"
  shows "uint (word_of_int (p div 256) :: u8) * 256 + uint (word_of_int p :: u8) = p"
proof -
  have "0 \<le> p div 256" "p div 256 < 256" using assms by linarith+
  then have "uint (word_of_int (p div 256) :: u8) = p div 256"
    by (simp add: uint_word_of_int_eq take_bit_eq_mod)
  moreover have "uint (word_of_int p :: u8) = p mod 256" by (simp add: uint_word_of_int_eq take_bit_eq_mod)
  ultimately show ?thesis by simp
qed

lemma update_cursor_inv:
  assumes "term_inv t"
  shows "term_inv (update_cursor t) \<and> cursor_pos (update_cursor t) = row t * 80 + col t"
proof -
  have "0 \<le> row t * 80 + col t" "row t * 80 + col t < 65536" using assms by (auto simp: term_inv_def)
  from cursor_registers[OF this] show ?thesis
    using assms by (simp add: term_inv_def update_cursor_def cursor_pos_def WIDTH_def Let_def)
qed

lemma next_line_inv:
  assumes "length (vga t) = 2000" and "0 \<le> row t" and "row t < 25"
  shows "term_inv (next_line t)" "serial (next_line t) = serial t"
  using assms by (auto simp: next_line_def term_inv_def scroll_def term_consts Let_def)

lemma putchar_safe:
  assumes "term_inv t"
  shows "\<exists>t'. putchar c t = Inr t' \<and> term_inv t' \<and> cursor_pos t' = row t' * 80 + col t'
    \<and> serial t' = serial t @ serial_bytes [c]"
proof -
  note i = assms[unfolded term_inv_def]
  obtain u where u: "putchar c t = Inr (update_cursor u)" "term_inv u" "serial u = serial t @ serial_bytes [c]"
  proof -
    consider "c = CHR 0x0A" | "c = CHR 0x08" | "c \<noteq> CHR 0x0A" "c \<noteq> CHR 0x08" by blast
    then show thesis
    proof cases
      case 1
      then show ?thesis
        using that[OF putchar_newline[of t, folded 1]] next_line_inv[of "serial_putchar c t"] i
        by (simp add: serial_putchar_def serial_bytes_def)
    next
      case 2
      then show ?thesis
        using that[OF putchar_backspace[OF assms, folded 2]] i
        by (simp add: serial_putchar_def serial_bytes_def term_inv_def Let_def)
    next
      case 3
      let ?u = "(serial_putchar c t)\<lparr>vga := (vga t)[nat (row t * 80 + col t) := cell_entry c], col := col t + 1\<rparr>"
      show ?thesis
        using that[OF putchar_glyph[OF assms 3]] next_line_inv[of ?u] i 3
        by (cases "col t = 79") (simp_all add: serial_putchar_def serial_bytes_def term_inv_def Let_def)
    qed
  qed
  then show ?thesis using update_cursor_inv[OF u(2)] by (auto simp: update_cursor_def Let_def)
qed

lemma term_write_safe:
  "term_inv t \<Longrightarrow> cursor_pos t = row t * 80 + col t \<Longrightarrow>
   \<exists>t'. term_write s t = Inr t' \<and> term_inv t' \<and> cursor_pos t' = row t' * 80 + col t'
     \<and> serial t' = serial t @ serial_bytes s"
proof (induction s arbitrary: t)
  case Nil
  then show ?case by (simp add: serial_bytes_def)
next
  case (Cons c cs)
  obtain u where u: "putchar c t = Inr u" "term_inv u" "cursor_pos u = row u * 80 + col u"
    "serial u = serial t @ serial_bytes [c]" using putchar_safe[OF Cons.prems(1)] by blast
  then show ?case using Cons.IH[OF u(2,3)] by (auto simp: serial_bytes_def)
qed

section \<open>What is on the screen\<close>

definition screen_line :: "terminal \<Rightarrow> nat \<Rightarrow> u16 list" where
  "screen_line t y = take 80 (drop (80 * y) (vga t))"

definition glyphs :: "string \<Rightarrow> bool" where
  "glyphs s \<longleftrightarrow> CHR 0x0A \<notin> set s \<and> CHR 0x08 \<notin> set s"

lemma term_write_glyphs:
  "term_inv t \<Longrightarrow> glyphs s \<Longrightarrow> col t + int (length s) < 80 \<Longrightarrow>
   \<exists>t'. term_write s t = Inr t' \<and> row t' = row t \<and> col t' = col t + int (length s)
     \<and> vga t' = take (nat (row t * 80 + col t)) (vga t) @ map cell_entry s
         @ drop (nat (row t * 80 + col t) + length s) (vga t)"
proof (induction s arbitrary: t)
  case Nil
  then show ?case by simp
next
  case (Cons c cs)
  let ?p = "nat (row t * 80 + col t)"
  define u where "u = update_cursor ((serial_putchar c t)\<lparr>vga := (vga t)[?p := cell_entry c], col := col t + 1\<rparr>)"
  have c: "putchar c t = Inr u"
    using putchar_glyph[OF Cons.prems(1), of c] Cons.prems(2,3) by (auto simp: glyphs_def u_def Let_def)
  have f: "row u = row t" "col u = col t + 1" "vga u = (vga t)[?p := cell_entry c]"
    by (simp_all add: u_def update_cursor_def serial_putchar_def Let_def)
  have "term_inv u" using Cons.prems f by (simp add: term_inv_def)
  then obtain t' where t': "term_write cs u = Inr t'" "row t' = row t" "col t' = col t + 1 + int (length cs)"
    "vga t' = take (nat (row t * 80 + (col t + 1))) (vga u) @ map cell_entry cs
       @ drop (nat (row t * 80 + (col t + 1)) + length cs) (vga u)"
    using Cons.IH[of u] Cons.prems f by (auto simp: glyphs_def)
  have p: "nat (row t * 80 + (col t + 1)) = Suc ?p" "?p < length (vga t)"
    using Cons.prems by (auto simp: term_inv_def)
  have "vga t' = take ?p (vga t) @ map cell_entry (c # cs) @ drop (?p + length (c # cs)) (vga t)"
    using p unfolding t'(4) f(3) by (simp add: take_Suc_conv_app_nth)
  then show ?case using c t'(1-3) by simp
qed

lemma scroll_lines:
  assumes "length (vga t) = 2000"
  shows "y < 24 \<Longrightarrow> screen_line (scroll t) y = screen_line t (Suc y)"
    and "screen_line (scroll t) 24 = replicate 80 (cell_entry CHR '' '')"
proof -
  have v: "vga (scroll t) ! i = (if i < 1920 then vga t ! (i + 80) else cell_entry CHR '' '')" if "i < 2000" for i
    using that by (simp add: scroll_def term_consts)
  have len: "length (vga (scroll t)) = 2000" by (simp add: scroll_def term_consts)
  show "screen_line (scroll t) y = screen_line t (Suc y)" if "y < 24"
    using that assms len by (intro nth_equalityI) (auto simp: screen_line_def v add.commute add.left_commute)
  show "screen_line (scroll t) 24 = replicate 80 (cell_entry CHR '' '')"
    using len by (intro nth_equalityI) (auto simp: screen_line_def v)
qed

definition demo_terminal :: terminal where
  "demo_terminal = term_init \<lparr>vga = [], row = 3, col = 3, serial = [], cursor_low = 0, cursor_high = 0\<rparr>"

lemma demo_terminal_facts: "term_inv demo_terminal" "row demo_terminal = 0" "col demo_terminal = 0"
  unfolding demo_terminal_def
  by (rule term_init_inv) (simp_all add: term_init_cursor_fields)

section \<open>The panic screen returns to the halt\<close>

lemma panic_digits_ok:
  "n < 10 ^ k \<Longrightarrow> length tmp + k \<le> 16 \<Longrightarrow> \<exists>ds. panic_digits n tmp = Inr (tmp @ ds) \<and> length ds \<le> k
     \<and> digits_value (rev ds) = nat n"
proof (induction k arbitrary: n tmp)
  case 0
  then show ?case by (simp add: panic_digits.simps[of n tmp] digits_value_def)
next
  case (Suc k)
  show ?case
  proof (cases "n > 0")
    case False
    then show ?thesis by (simp add: panic_digits.simps[of n tmp] digits_value_def)
  next
    case True
    let ?d = "char_of (48 + nat (n mod 10))"
    have q: "n div 10 < 10 ^ k" using Suc.prems(1) by (simp add: div_less_iff_less_mult mult.commute)
    obtain ds where ds: "panic_digits (n div 10) (tmp @ [?d]) = Inr ((tmp @ [?d]) @ ds)" "length ds \<le> k"
      "digits_value (rev ds) = nat (n div 10)" using Suc.IH[OF q, of "tmp @ [?d]"] Suc.prems(2) by auto
    have "of_char ?d = (48 + nat (n mod 10) :: nat)" by (rule digit_code) (simp add: nat_less_iff)
    then have "digits_value (rev (?d # ds)) = nat (n div 10) * 10 + nat (n mod 10)" using ds(3) by simp
    also have "\<dots> = nat n" using True by (simp add: nat_div_distrib nat_mod_distrib)
    finally have "digits_value (rev (?d # ds)) = nat n" .
    moreover have "panic_digits n tmp = Inr (tmp @ ?d # ds)"
      using ds(1) True Suc.prems(2) by (simp add: panic_digits.simps[of n tmp])
    ultimately show ?thesis using ds(2) by (intro exI[of _ "?d # ds"]) simp
  qed
qed

text \<open>\<open>prints s t r\<close>: \<open>r\<close> returns with the text \<open>s\<close> printed.\<close>

definition prints :: "string \<Rightarrow> terminal \<Rightarrow> terminal res \<Rightarrow> bool" where
  "prints s t r \<longleftrightarrow> (\<exists>t'. r = Inr t' \<and> term_inv t' \<and> cursor_pos t' = row t' * 80 + col t'
     \<and> serial t' = serial t @ serial_bytes s)"

lemma prints_write: "term_inv t \<Longrightarrow> cursor_pos t = row t * 80 + col t \<Longrightarrow> prints s t (term_write s t)"
  using term_write_safe by (simp add: prints_def)

lemma prints_bind:
  assumes "term_inv t" and "cursor_pos t = row t * 80 + col t"
    and "\<And>u. term_inv u \<Longrightarrow> cursor_pos u = row u * 80 + col u \<Longrightarrow> prints b u (f u)"
  shows "prints (a @ b) t (bindR (term_write a t) f)"
proof -
  obtain u where u: "term_write a t = Inr u" "term_inv u" "cursor_pos u = row u * 80 + col u"
    "serial u = serial t @ serial_bytes a" using term_write_safe[OF assms(1,2)] by blast
  show ?thesis using assms(3)[OF u(2,3)] u(1,4) by (auto simp: prints_def serial_bytes_def)
qed

text \<open>The text of the panic screen.\<close>

definition panic_text :: "string \<Rightarrow> string \<Rightarrow> string \<Rightarrow> string" where
  "panic_text reason file num =
     (let nl = [CHR 0x0A]; bar = ''================================='' @ nl in
      nl @ bar @ (''          KERNEL PANIC'' @ nl) @ bar @ ''Reason: '' @ reason @ nl @ ''File: '' @ file @ nl
      @ ''Line: '' @ num @ nl)"

lemma panic_prints_text:
  assumes "term_inv t" and "cursor_pos t = row t * 80 + col t"
    and "(if line = 0 then Inr ''0'' else bindR (panic_digits line []) (\<lambda>tmp. Inr (rev tmp))) = Inr num"
  shows "prints (panic_text reason file num) t (panic reason file line t)"
  unfolding panic_def panic_text_def Let_def assms(3) bindR_Inr
  by (rule assms prints_bind prints_write | assumption)+

section \<open>Properties\<close>

text \<open>Writing any string to the terminal returns without touching a cell outside the screen; the
  cursor stays inside the 80 by 25 screen, the display controller's cursor
  registers hold its position, and the serial port receives the string with a
  carriage return after each newline.\<close>

theorem terminal_write_safe:
  "\<exists>t'. term_write s (term_init t) = Inr t' \<and> term_inv t' \<and> cursor_pos t' = row t' * 80 + col t'
     \<and> serial t' = serial (term_init t) @ serial_bytes s"
  using term_write_safe[OF term_init_inv term_init_cursor] .

text \<open>Writing characters other than newline and backspace that fit into the current line puts them
  at the cursor, moves the cursor behind them and changes no other cell.\<close>

theorem terminal_write_line:
  assumes "term_inv t" and "glyphs s" and "col t + int (length s) < 80"
  shows "\<exists>t'. term_write s t = Inr t' \<and> row t' = row t \<and> col t' = col t + int (length s)
    \<and> vga t' = take (nat (row t * 80 + col t)) (vga t) @ map cell_entry s
        @ drop (nat (row t * 80 + col t) + length s) (vga t)"
  using term_write_glyphs[OF assms] .

theorem terminal_write_line_witness:
  "\<exists>t'. term_write ''ok'' demo_terminal = Inr t' \<and> row t' = 0 \<and> col t' = 2 \<and> vga t' ! 1 = cell_entry (CHR ''k'')"
  using terminal_write_line[OF demo_terminal_facts(1), of "''ok''"] demo_terminal_facts
  by (auto simp: glyphs_def)

text \<open>A newline on the last line scrolls: every line moves up by one, the last line becomes blank
  and the cursor stands at its start; on any other line it moves to the start of
  the next line and changes no cell.\<close>

theorem terminal_newline_scrolls:
  assumes "term_inv t"
  shows "\<exists>t'. putchar CHR 0x0A t = Inr t' \<and> col t' = 0
    \<and> (if row t = 24
       then row t' = 24 \<and> (\<forall>y < 24. screen_line t' y = screen_line t (Suc y))
         \<and> screen_line t' 24 = replicate 80 (cell_entry CHR '' '')
       else row t' = row t + 1 \<and> vga t' = vga t)"
proof -
  define u where "u = (serial_putchar CHR 0x0A t)\<lparr>col := 0, row := row t + 1\<rparr>"
  have l: "screen_line (update_cursor x) y = screen_line x y" for x y
    by (simp add: screen_line_def update_cursor_def Let_def)
  have lu: "screen_line u y = screen_line t y" for y by (simp add: screen_line_def u_def serial_putchar_def)
  have "length (vga u) = 2000" using assms by (simp add: term_inv_def u_def serial_putchar_def)
  note sc = scroll_lines[OF this]
  have "next_line (serial_putchar CHR 0x0A t) = (if row t = 24 then scroll u else u)"
    using assms by (auto simp: next_line_def u_def term_inv_def term_consts serial_putchar_def Let_def)
  then have p: "putchar CHR 0x0A t = Inr (update_cursor (if row t = 24 then scroll u else u))"
    by (simp add: putchar_newline)
  have f: "col (update_cursor (scroll u)) = 0" "row (update_cursor (scroll u)) = 24"
    "col (update_cursor u) = 0" "row (update_cursor u) = row t + 1" "vga (update_cursor u) = vga t"
    by (simp_all add: update_cursor_def scroll_def u_def term_consts serial_putchar_def Let_def)
  show ?thesis using sc lu f unfolding p by (simp add: l)
qed

theorem terminal_newline_scrolls_witness:
  "\<exists>t'. putchar CHR 0x0A demo_terminal = Inr t' \<and> row t' = 1"
  using terminal_newline_scrolls[OF demo_terminal_facts(1)] demo_terminal_facts by auto

text \<open>\<open>panic\<close> with a line number below 2^31 always reaches its halt: it prints the banner, the reason,
  the file and the line number in decimal, and never overruns its 16-byte
  buffers.\<close>

theorem panic_prints_and_halts:
  assumes "term_inv t" and "cursor_pos t = row t * 80 + col t" and "0 \<le> line" and "line < 2 ^ 31"
  shows "\<exists>num t'. panic reason fname line t = Inr t' \<and> digits_value num = nat line
    \<and> serial t' = serial t @ serial_bytes (panic_text reason fname num)"
proof -
  obtain num where num: "(if line = 0 then Inr ''0'' else bindR (panic_digits line []) (\<lambda>tmp. Inr (rev tmp))) = Inr num"
    "digits_value num = nat line"
  proof (cases "line = 0")
    case True
    then show ?thesis using that[of "''0''"] by (simp add: digits_value_def)
  next
    case False
    have "line < 10 ^ 10" using assms(4) by simp
    from panic_digits_ok[OF this, of "[]"] obtain ds where "panic_digits line [] = Inr ds"
      "digits_value (rev ds) = nat line" by auto
    then show ?thesis using that[of "rev ds"] False by simp
  qed
  show ?thesis using panic_prints_text[OF assms(1,2) num(1), of reason fname] num(2) by (auto simp: prints_def)
qed

theorem panic_prints_and_halts_witness:
  "\<exists>num t'. panic ''OOM'' ''kmalloc.cpp'' 102 demo_terminal = Inr t' \<and> digits_value num = 102"
proof -
  have "cursor_pos demo_terminal = row demo_terminal * 80 + col demo_terminal"
    unfolding demo_terminal_def by (rule term_init_cursor)
  then show ?thesis
    using panic_prints_and_halts[OF demo_terminal_facts(1), of 102 "''OOM''" "''kmalloc.cpp''"] by auto
qed

end
