(* ===== verification/Vmm.thy ===== *)
theory Vmm
  imports Kmalloc Terminal
begin

text \<open>
  Virtual memory: \<open>src/src/memory/paging.cpp\<close>, \<open>src/src/memory/vmm.cpp\<close>,
  \<open>src/src/user/user_mode.cpp\<close> and the memory size of
  \<open>src/src/boot/multiboot.cpp\<close>. Page directories and page tables are arrays of
  1024 32-bit entries in physical memory; the kernel runs identity mapped, so its
  pointers are physical addresses. The state adds the screen, the control registers
  and the static variables of these files. The addresses of the static arrays
  \<open>page_directory\<close> and \<open>boot_page_table\<close> and of the user code come from the linker
  and are arguments. \<open>invlpg\<close> acts on the processor's translation cache only,
  which is not part of the state.
\<close>

section \<open>State\<close>

record vmm_state = heap_state +
  console :: terminal
  total_memory_mb :: u32
  g_mbi :: u32
  cr3 :: u32
  cr0 :: u32
  kernel_space :: u32
  user_code_phys :: u32
  user_code_size :: u32

definition VMM_PRESENT :: u32 where "VMM_PRESENT = 0x001"
definition VMM_WRITABLE :: u32 where "VMM_WRITABLE = 0x002"
definition VMM_USER :: u32 where "VMM_USER = 0x004"
definition USER_CODE_ADDR :: u32 where "USER_CODE_ADDR = 0x40000000"
definition USER_STACK_ADDR :: u32 where "USER_STACK_ADDR = 0x40001000"
definition USER_STACK_TOP :: u32 where "USER_STACK_TOP = USER_STACK_ADDR + 4096"

lemmas vmm_consts = VMM_PRESENT_def VMM_WRITABLE_def VMM_USER_def
  USER_CODE_ADDR_def USER_STACK_ADDR_def USER_STACK_TOP_def

text \<open>\<open>terminal.write\<close> on the kernel's one terminal.\<close>

definition print :: "string \<Rightarrow> 'z vmm_state_scheme \<Rightarrow> 'z vmm_state_scheme res" where
  "print str s = bindR (term_write str (console s)) (\<lambda>t. Inr (s\<lparr>console := t\<rparr>))"

text \<open>Element \<open>i\<close> of an array of 32-bit entries.\<close>

definition entry_at :: "u32 \<Rightarrow> u32 \<Rightarrow> u32" where
  "entry_at base i = base + 4 * i"

definition get_entry :: "memory \<Rightarrow> u32 \<Rightarrow> u32 \<Rightarrow> u32" where
  "get_entry m base i = rd32 m (entry_at base i)"

definition set_entry :: "u32 \<Rightarrow> u32 \<Rightarrow> u32 \<Rightarrow> memory \<Rightarrow> memory" where
  "set_entry base i v m = wr32 m (entry_at base i) v"

text \<open>A loop that sets entries 0 to 1023 in turn.\<close>

definition fill_entries :: "u32 \<Rightarrow> (memory \<Rightarrow> u32 \<Rightarrow> u32) \<Rightarrow> memory \<Rightarrow> memory" where
  "fill_entries base f m = fold (\<lambda>i m. set_entry base (of_nat i) (f m (of_nat i)) m) [0..<1024] m"

definition pd_index :: "u32 \<Rightarrow> u32" where "pd_index virt = drop_bit 22 virt"
definition pt_index :: "u32 \<Rightarrow> u32" where "pt_index virt = drop_bit 12 virt AND 0x3FF"

section \<open>multiboot.cpp\<close>

definition multiboot_init :: "u32 \<Rightarrow> 'z vmm_state_scheme \<Rightarrow> 'z vmm_state_scheme" where
  "multiboot_init mbi s =
     (let s = s\<lparr>g_mbi := mbi\<rparr>
      in if mbi = nullptr then s\<lparr>total_memory_mb := 0\<rparr>
         else s\<lparr>total_memory_mb := (rd32 (mem s) (mbi + 4) + rd32 (mem s) (mbi + 8)) div 1024\<rparr>)"

definition multiboot_get_info :: "'z vmm_state_scheme \<Rightarrow> u32" where
  "multiboot_get_info s = g_mbi s"

section \<open>paging.cpp\<close>

definition paging_map_page :: "u32 \<Rightarrow> u32 \<Rightarrow> u32 \<Rightarrow> u32 \<Rightarrow> 'z vmm_state_scheme \<Rightarrow> 'z vmm_state_scheme res" where
  "paging_map_page page_directory virt phys flags s =
     (let pd_idx = pd_index virt;
          pt_idx = pt_index virt;
          write = (\<lambda>s. let pt = get_entry (mem s) page_directory pd_idx AND 0xFFFFF000
                       in Inr (s\<lparr>mem := set_entry pt pt_idx ((phys AND 0xFFFFF000) OR (flags AND 0xFFF)) (mem s)\<rparr>))
      in if get_entry (mem s) page_directory pd_idx AND 1 = 0
         then bindR (pmm_alloc_page s) (\<lambda>(pt, s).
              if pt = nullptr then Inr s
              else write (s\<lparr>mem := set_entry page_directory pd_idx (pt OR (flags AND 0xFFF) OR 1)
                                    (memset (mem s) pt 0 4096)\<rparr>))
         else write s)"

text \<open>The loop of \<open>paging_map_identity\<close> from \<open>addr\<close> on.\<close>

partial_function (option) map_identity_loop ::
    "u32 \<Rightarrow> u32 \<Rightarrow> u32 \<Rightarrow> u32 \<Rightarrow> 'z vmm_state_scheme \<Rightarrow> 'z vmm_state_scheme res option" where
  "map_identity_loop page_directory addr phys_end flags s =
     (if addr < phys_end
      then (case paging_map_page page_directory addr addr flags s of
              Inl e \<Rightarrow> Some (Inl e)
            | Inr s \<Rightarrow> map_identity_loop page_directory (addr + 0x1000) phys_end flags s)
      else Some (Inr s))"

definition paging_map_identity :: "u32 \<Rightarrow> u32 \<Rightarrow> u32 \<Rightarrow> u32 \<Rightarrow> 'z vmm_state_scheme \<Rightarrow> 'z vmm_state_scheme res" where
  "paging_map_identity page_directory phys_start phys_end flags s =
     (let phys_start = phys_start AND NOT 0xFFF;
          phys_end = (phys_end + 0xFFF) AND NOT 0xFFF
      in bindR (returns (map_identity_loop page_directory phys_start phys_end flags s)) id)"

text \<open>The body of the loop of \<open>paging_init\<close>, and the loop from \<open>addr\<close> on.\<close>

definition paging_init_step :: "u32 \<Rightarrow> u32 \<Rightarrow> 'z vmm_state_scheme \<Rightarrow> 'z vmm_state_scheme res" where
  "paging_init_step page_directory addr s =
     (let pd_idx = pd_index addr;
          pt_idx = pt_index addr;
          write = (\<lambda>s. let pt = get_entry (mem s) page_directory pd_idx AND 0xFFFFF000
                       in Inr (s\<lparr>mem := set_entry pt pt_idx (addr OR 3) (mem s)\<rparr>))
      in if get_entry (mem s) page_directory pd_idx AND 1 = 0
         then bindR (pmm_alloc_page s) (\<lambda>(pt, s).
              if pt = nullptr then Inl (Panic ''paging_init: OOM'')
              else write (s\<lparr>mem := set_entry page_directory pd_idx (pt OR 3) (memset (mem s) pt 0 4096)\<rparr>))
         else write s)"

partial_function (option) paging_init_loop ::
    "u32 \<Rightarrow> u32 \<Rightarrow> u32 \<Rightarrow> 'z vmm_state_scheme \<Rightarrow> 'z vmm_state_scheme res option" where
  "paging_init_loop page_directory addr end_addr s =
     (if addr < end_addr
      then (case paging_init_step page_directory addr s of
              Inl e \<Rightarrow> Some (Inl e)
            | Inr s \<Rightarrow> paging_init_loop page_directory (addr + 0x1000) end_addr s)
      else Some (Inr s))"

definition paging_init :: "u32 \<Rightarrow> u32 \<Rightarrow> 'z vmm_state_scheme \<Rightarrow> 'z vmm_state_scheme res" where
  "paging_init page_directory boot_page_table s =
     (let total_mb = (if total_memory_mb s = 0 then 32 else total_memory_mb s);
          m = fill_entries boot_page_table (\<lambda>_ i. (i * 0x1000) OR 3) (mem s);
          m = fill_entries page_directory (\<lambda>_ i. 0) m;
          m = set_entry page_directory 0 (boot_page_table OR 3) m;
          end_addr = total_mb * 1024 * 1024
      in bindR (bindR (returns (paging_init_loop page_directory 0x400000 end_addr (s\<lparr>mem := m\<rparr>))) id) (\<lambda>s.
         Inr (s\<lparr>cr3 := page_directory, cr0 := cr0 s OR 0x80000000\<rparr>)))"

section \<open>vmm.cpp\<close>

definition vmm_init :: "'z vmm_state_scheme \<Rightarrow> 'z vmm_state_scheme" where
  "vmm_init s = s\<lparr>kernel_space := cr3 s\<rparr>"

definition vmm_get_kernel_space :: "'z vmm_state_scheme \<Rightarrow> u32" where
  "vmm_get_kernel_space s = kernel_space s"

text \<open>The cleanup loop of \<open>vmm_create_space\<close> over the entries in \<open>js\<close>.\<close>

fun free_user_tables :: "u32 \<Rightarrow> nat list \<Rightarrow> 'z vmm_state_scheme \<Rightarrow> 'z vmm_state_scheme res" where
  "free_user_tables new_pd [] s = Inr s"
| "free_user_tables new_pd (j # js) s =
     (let entry = get_entry (mem s) new_pd (of_nat j)
      in bindR (if entry AND VMM_USER \<noteq> 0 then pmm_free_page (entry AND 0xFFFFF000) s else Inr s)
           (free_user_tables new_pd js))"

text \<open>The main loop of \<open>vmm_create_space\<close> over the entries in \<open>is\<close>; the flag says that
  it did not run out of pages.\<close>

fun copy_directory :: "u32 \<Rightarrow> u32 \<Rightarrow> nat list \<Rightarrow> 'z vmm_state_scheme \<Rightarrow> (bool \<times> 'z vmm_state_scheme) res" where
  "copy_directory new_pd current_pd [] s = Inr (True, s)"
| "copy_directory new_pd current_pd (i # is) s =
     (let entry = get_entry (mem s) current_pd (of_nat i)
      in if entry AND VMM_PRESENT = 0
         then copy_directory new_pd current_pd is (s\<lparr>mem := set_entry new_pd (of_nat i) 0 (mem s)\<rparr>)
         else if entry AND VMM_USER \<noteq> 0
         then bindR (pmm_alloc_page s) (\<lambda>(new_pt, s).
              if new_pt = nullptr
              then bindR (free_user_tables new_pd [0..<i] s) (\<lambda>s.
                   bindR (pmm_free_page new_pd s) (\<lambda>s. Inr (False, s)))
              else
                let old_pt = entry AND 0xFFFFF000;
                    m = fill_entries new_pt (\<lambda>m j. get_entry m old_pt j) (mem s)
                in copy_directory new_pd current_pd is
                     (s\<lparr>mem := set_entry new_pd (of_nat i) (new_pt OR (entry AND 0xFFF)) m\<rparr>))
         else copy_directory new_pd current_pd is (s\<lparr>mem := set_entry new_pd (of_nat i) entry (mem s)\<rparr>))"

definition vmm_create_space :: "'z vmm_state_scheme \<Rightarrow> (u32 \<times> 'z vmm_state_scheme) res" where
  "vmm_create_space s =
     bindR (pmm_alloc_page s) (\<lambda>(new_pd, s).
     if new_pd = nullptr then Inr (0, s)
     else bindR (copy_directory new_pd (kernel_space s) [0..<1024] s) (\<lambda>(ok, s).
          Inr (if ok then new_pd else 0, s)))"

definition vmm_switch :: "u32 \<Rightarrow> 'z vmm_state_scheme \<Rightarrow> 'z vmm_state_scheme" where
  "vmm_switch space s = s\<lparr>cr3 := space\<rparr>"

text \<open>The loop of \<open>vmm_destroy_space\<close> over the entries in \<open>is\<close>.\<close>

fun free_tables :: "u32 \<Rightarrow> nat list \<Rightarrow> 'z vmm_state_scheme \<Rightarrow> 'z vmm_state_scheme res" where
  "free_tables pd [] s = Inr s"
| "free_tables pd (i # is) s =
     (let entry = get_entry (mem s) pd (of_nat i)
      in if entry AND VMM_PRESENT = 0 then free_tables pd is s
         else bindR (if entry AND VMM_USER \<noteq> 0 then pmm_free_page (entry AND 0xFFFFF000) s else Inr s)
                (free_tables pd is))"

definition vmm_destroy_space :: "u32 \<Rightarrow> 'z vmm_state_scheme \<Rightarrow> 'z vmm_state_scheme res" where
  "vmm_destroy_space space s =
     (if space = 0 then Inr s
      else bindR (free_tables space [0..<1024] s) (pmm_free_page space))"

definition vmm_map :: "u32 \<Rightarrow> u32 \<Rightarrow> u32 \<Rightarrow> u32 \<Rightarrow> 'z vmm_state_scheme \<Rightarrow> (int \<times> 'z vmm_state_scheme) res" where
  "vmm_map space virt phys flags s =
     (let pd_idx = pd_index virt;
          pt_idx = pt_index virt;
          write = (\<lambda>s. let pt = get_entry (mem s) space pd_idx AND 0xFFFFF000
                       in Inr (0, s\<lparr>mem := set_entry pt pt_idx ((phys AND 0xFFFFF000) OR (flags AND 0xFFF)) (mem s)\<rparr>))
      in if get_entry (mem s) space pd_idx AND VMM_PRESENT = 0
         then bindR (pmm_alloc_page s) (\<lambda>(pt, s).
              if pt = nullptr then Inr (-1, s)
              else write (s\<lparr>mem := set_entry space pd_idx (pt OR VMM_PRESENT OR VMM_WRITABLE OR VMM_USER)
                                    (fill_entries pt (\<lambda>_ _. 0) (mem s))\<rparr>))
         else write s)"

definition vmm_unmap :: "u32 \<Rightarrow> u32 \<Rightarrow> 'z vmm_state_scheme \<Rightarrow> int \<times> 'z vmm_state_scheme" where
  "vmm_unmap space virt s =
     (let pd_idx = pd_index virt;
          pt_idx = pt_index virt
      in if get_entry (mem s) space pd_idx AND VMM_PRESENT = 0 then (0, s)
         else let pt = get_entry (mem s) space pd_idx AND 0xFFFFF000
              in (0, s\<lparr>mem := set_entry pt pt_idx 0 (mem s)\<rparr>))"

section \<open>user\_mode.cpp\<close>

definition user_map_pages :: "u32 \<Rightarrow> u32 \<Rightarrow> 'z vmm_state_scheme \<Rightarrow> 'z vmm_state_scheme res" where
  "user_map_pages user_code_start user_code_end s =
     (let s = s\<lparr>user_code_size := user_code_end - user_code_start\<rparr>
      in if user_code_size s > 4096 then print (''user: code too big'' @ [CHR 0x0A]) s
         else bindR (pmm_alloc_page s) (\<lambda>(page, s).
              if page = nullptr then print (''user: alloc code page failed'' @ [CHR 0x0A]) s
              else
                let s = s\<lparr>user_code_phys := page\<rparr>;
                    s = s\<lparr>mem := memcpy (mem s) (user_code_phys s) user_code_start (user_code_size s)\<rparr>
                in print (''user: code copied'' @ [CHR 0x0A]) s))"

definition user_install_into_space :: "u32 \<Rightarrow> 'z vmm_state_scheme \<Rightarrow> 'z vmm_state_scheme res" where
  "user_install_into_space space s =
     (if space = 0 \<or> user_code_phys s = 0 then Inr s
      else bindR (vmm_map space USER_CODE_ADDR (user_code_phys s) (VMM_PRESENT OR VMM_USER) s) (\<lambda>(_, s).
           bindR (pmm_alloc_page s) (\<lambda>(stack_phys, s).
           if stack_phys = 0 then Inr s
           else bindR (vmm_map space USER_STACK_ADDR stack_phys (VMM_PRESENT OR VMM_WRITABLE OR VMM_USER) s)
                  (\<lambda>(_, s). Inr s))))"

definition user_code_entry :: u32 where "user_code_entry = USER_CODE_ADDR"
definition user_stack_top_value :: u32 where "user_stack_top_value = USER_STACK_TOP"

definition user_code_phys_addr :: "'z vmm_state_scheme \<Rightarrow> u32" where
  "user_code_phys_addr s = user_code_phys s"

end
