(* ===== verification/Vmm_Correct.thy ===== *)
theory Vmm_Correct
  imports Vmm
begin

text \<open>
  Correctness of the page tables. \<open>walk\<close> is the processor's two-level translation
  of an address in a page directory; \<open>space_ok\<close> says that a directory and its tables
  are different allocated pages. The lemmas give the laws of arrays of entries in
  memory, the effect of mapping and unmapping one page on every translation, the copy
  made for a new address space, its destruction, and the identity mapping that
  \<open>paging_init\<close> builds.
\<close>

section \<open>Entries in memory\<close>

definition aligned :: "u32 \<Rightarrow> bool" where
  "aligned a \<longleftrightarrow> unat a mod 4096 = 0"

lemma page_mask: "(0xFFFFF000 :: u32) = NOT (mask 12)" "(0xFFF :: u32) = mask 12" "(0x3FF :: u32) = mask 10"
  by (simp_all add: mask_numeral)

lemma aligned_iff: "aligned a \<longleftrightarrow> a AND mask 12 = 0"
proof -
  have "unat (take_bit 12 a) = unat a mod 4096" by (simp add: take_bit_eq_mod unat_mod)
  then show ?thesis unfolding aligned_def take_bit_eq_mask[symmetric] by (metis unat_0 unat_eq_zero)
qed

lemma aligned_mask [simp]: "aligned (e AND 0xFFFFF000)"
  unfolding aligned_iff page_mask by (rule bit_word_eqI) (auto simp: bit_simps)

lemma aligned_bits: "aligned a \<Longrightarrow> n < 12 \<Longrightarrow> \<not> bit a n"
  unfolding aligned_iff by (metis bit_0_eq bit_and_iff bit_mask_iff bot_apply bot_bool_def bit_imp_le_length
    exp_eq_0_imp_not_bit possible_bit_def possible_bit_min)

lemma page_or: "aligned p \<Longrightarrow> f AND 0xFFF = f \<Longrightarrow> (p OR f) AND 0xFFFFF000 = p"
  "aligned p \<Longrightarrow> f AND 0xFFF = f \<Longrightarrow> (p OR f) AND 0xFFF = f"
proof -
  assume p: "aligned p" and f: "f AND 0xFFF = f"
  have fb: "bit f n \<Longrightarrow> n < 12" for n using f unfolding page_mask by (metis bit_and_iff bit_mask_iff)
  show "(p OR f) AND 0xFFFFF000 = p" "(p OR f) AND 0xFFF = f"
    unfolding page_mask using aligned_bits[OF p] fb
    by (auto intro!: bit_word_eqI simp: bit_simps)
qed

lemma and_flag: "x AND 0xFFF = x \<Longrightarrow> (e AND 0xFFF) AND x = e AND (x :: u32)"
  by (metis and.assoc and.commute)

lemma index_bound [simp]: "pd_index v < 1024" "pt_index v < 1024"
proof -
  have "unat (pd_index v) < 1024"
    using unsigned_less[of v, where 'a = nat]
    by (simp add: pd_index_def drop_bit_eq_div unat_div div_less_iff_less_mult)
  then show "pd_index v < 1024" by (simp add: word_less_nat_alt)
  show "pt_index v < 1024"
    unfolding pt_index_def by (rule word_and_le1[THEN order.strict_trans1]) simp
qed

lemma index_page: "pd_index v = pd_index w \<and> pt_index v = pt_index w \<longleftrightarrow> drop_bit 12 v = drop_bit 12 (w :: u32)"
proof
  assume a: "pd_index v = pd_index w \<and> pt_index v = pt_index w"
  show "drop_bit 12 v = drop_bit 12 w"
  proof (rule bit_word_eqI)
    fix n assume n: "n < LENGTH(32)"
    show "bit (drop_bit 12 v) n = bit (drop_bit 12 w) n"
    proof (cases "n < 10")
      case True
      then have "bit (drop_bit 12 x AND 0x3FF) n = bit (drop_bit 12 x) n" for x :: u32
        unfolding page_mask by (simp add: bit_simps n)
      then show ?thesis using a unfolding pt_index_def by metis
    next
      case False
      then have "bit (drop_bit 12 x) n = bit (drop_bit 22 x) (n - 10)" for x :: u32
        by (simp add: bit_simps)
      then show ?thesis using a unfolding pd_index_def by metis
    qed
  qed
next
  assume a: "drop_bit 12 v = drop_bit 12 w"
  have "drop_bit 22 x = drop_bit 10 (drop_bit 12 x)" for x :: u32 by simp
  then have "drop_bit 22 v = drop_bit 22 w" using a by metis
  then show "pd_index v = pd_index w \<and> pt_index v = pt_index w"
    using a by (simp add: pd_index_def pt_index_def)
qed

lemma aligned_page:
  assumes "aligned b"
  obtains k where "unat b = 4096 * k" "k < 1048576"
proof -
  from assms obtain k where k: "unat b = 4096 * k" unfolding aligned_def by (metis mod_eq_0_iff_dvd dvd_def)
  then show thesis using that unsigned_less[of b, where 'a = nat] by simp
qed

lemma unat_entry_at:
  assumes "aligned b" and "i < 1024"
  shows "unat (entry_at b i) = unat b + 4 * unat i" "unat (entry_at b i) + 4 \<le> 2 ^ 32"
proof -
  have i: "unat i < 1024" using assms(2) by (simp add: word_less_nat_alt)
  obtain k where "unat b = 4096 * k" "k < 1048576" using aligned_page[OF assms(1)] .
  then have "unat b + 4096 \<le> 2 ^ 32" by simp
  moreover have "unat (4 * i) = 4 * unat i" using i by (simp add: unat_word_ariths)
  ultimately show "unat (entry_at b i) = unat b + 4 * unat i" "unat (entry_at b i) + 4 \<le> 2 ^ 32"
    using i unat_add_small[of b "4 * i"] by (auto simp: entry_at_def)
qed

lemma entry_at_apart:
  assumes "aligned b" "aligned b'" "i < 1024" "i' < 1024" "\<not> (b = b' \<and> i = i')"
  shows "unat (entry_at b i) + 4 \<le> unat (entry_at b' i') \<or> unat (entry_at b' i') + 4 \<le> unat (entry_at b i)"
proof -
  have i: "unat i < 1024" "unat i' < 1024" using assms(3,4) by (simp_all add: word_less_nat_alt)
  obtain k k' where k: "unat b = 4096 * k" "unat b' = 4096 * k'"
    using aligned_page[OF assms(1)] aligned_page[OF assms(2)] by metis
  have "k \<noteq> k' \<or> unat i \<noteq> unat i'" using assms(5) k by (auto simp: word_unat_eq_iff)
  then consider "k < k'" | "k' < k" | "k = k'" "unat i < unat i'" | "k = k'" "unat i' < unat i" by linarith
  then show ?thesis by cases (use i k in \<open>simp_all add: unat_entry_at assms\<close>)
qed

lemma get_set_entry [mem_simps]:
  assumes "aligned b" "aligned b'" "i < 1024" "i' < 1024"
  shows "get_entry (set_entry b i v m) b' i' = (if b = b' \<and> i = i' then v else get_entry m b' i')"
proof (cases "b = b' \<and> i = i'")
  case False
  then have "get_entry (set_entry b i v m) b' i' = get_entry m b' i'"
    unfolding get_entry_def set_entry_def
    by (intro rd32_wr32_disjoint unat_entry_at entry_at_apart assms)
  then show ?thesis by (simp only: False if_False)
qed (simp add: get_entry_def set_entry_def)

lemma get_fill_entries:
  assumes b: "aligned b" "aligned b'" "k < 1024"
    and f: "\<And>i v m j. i < 1024 \<Longrightarrow> j < 1024 \<Longrightarrow> f (set_entry b i v m) j = f m j"
  shows "get_entry (fill_entries b f m) b' k = (if b = b' then f m k else get_entry m b' k)"
proof -
  let ?F = "\<lambda>n. fold (\<lambda>i m. set_entry b (of_nat i) (f m (of_nat i)) m) [0..<n] m"
  have "(\<forall>j < 1024. f (?F n) j = f m j) \<and> get_entry (?F n) b' k
      = (if b = b' \<and> unat k < n then f m k else get_entry m b' k)" if "n \<le> 1024" for n
    using that
  proof (induction n)
    case (Suc n)
    then have IH: "\<forall>j < 1024. f (?F n) j = f m j"
      "get_entry (?F n) b' k = (if b = b' \<and> unat k < n then f m k else get_entry m b' k)" by simp_all
    have n: "(of_nat n :: u32) < 1024" "unat (of_nat n :: u32) = n"
      using Suc.prems by (simp_all add: word_less_nat_alt unat_of_nat)
    have "(of_nat n = k) = (unat k = n)" using n(2) by (auto simp: word_unat_eq_iff)
    then show ?case
      using IH n b by (auto simp: get_set_entry f)
  qed simp
  from this[of 1024] show ?thesis
    using b(3) by (simp add: fill_entries_def word_less_nat_alt)
qed

lemma get_fill_zero [mem_simps]:
  "aligned b \<Longrightarrow> aligned b' \<Longrightarrow> k < 1024 \<Longrightarrow>
     get_entry (fill_entries b (\<lambda>_ _. v) m) b' k = (if b = b' then v else get_entry m b' k)"
  by (subst get_fill_entries) simp_all

lemma get_copy_entries [mem_simps]:
  "aligned b \<Longrightarrow> aligned b' \<Longrightarrow> aligned c \<Longrightarrow> b \<noteq> c \<Longrightarrow> k < 1024 \<Longrightarrow>
     get_entry (fill_entries b (\<lambda>m j. get_entry m c j) m) b' k
     = (if b = b' then get_entry m c k else get_entry m b' k)"
  by (subst get_fill_entries) (simp_all add: get_set_entry)

lemma get_memset_page [mem_simps]:
  assumes "aligned b" "aligned b'" "k < 1024"
  shows "get_entry (memset m b 0 4096) b' k = (if b = b' then 0 else get_entry m b' k)"
proof -
  have k: "unat k < 1024" using assms(3) by (simp add: word_less_nat_alt)
  obtain i j where ij: "unat b = 4096 * i" "unat b' = 4096 * j" "i < 1048576"
    using aligned_page[OF assms(1)] aligned_page[OF assms(2)] by metis
  have byte: "memset m b 0 4096 (entry_at b' k + of_nat d) = (if b = b' then 0 else m (entry_at b' k + of_nat d))"
    if d: "d < 4" for d
  proof -
    have u: "unat (entry_at b' k + of_nat d) = 4096 * j + 4 * unat k + d"
      using unat_entry_at[OF assms(2,3)] d ij(2) by (subst unat_offset) auto
    consider "i = j" | "i < j" | "j < i" by linarith
    then have "unat (entry_at b' k + of_nat d - b) < 4096 \<longleftrightarrow> i = j"
      by cases (use u ij k d unat_sub_if'[of "entry_at b' k + of_nat d" b] in \<open>simp_all split: if_splits\<close>)
    moreover have "i = j \<longleftrightarrow> b = b'" using ij by (auto simp: word_unat_eq_iff)
    ultimately show ?thesis by (simp add: memset_apply)
  qed
  show ?thesis
    using byte[of 0] byte[of 1] byte[of 2] byte[of 3] by (simp add: get_entry_def rd32_def)
qed

section \<open>Translation\<close>

definition table :: "u32 \<Rightarrow> u32" where "table e = e AND 0xFFFFF000"
definition present :: "u32 \<Rightarrow> bool" where "present e \<longleftrightarrow> e AND 1 \<noteq> 0"

text \<open>The processor's translation: the frame of the page that holds \<open>virt\<close>, and the
  writable (2) and user (4) rights that both levels grant.\<close>

definition walk :: "memory \<Rightarrow> u32 \<Rightarrow> u32 \<Rightarrow> (u32 \<times> u32) option" where
  "walk m pd virt =
     (let e = get_entry m pd (pd_index virt); p = get_entry m (table e) (pt_index virt)
      in if present e \<and> present p then Some (table p, e AND p AND 6) else None)"

definition same_page :: "u32 \<Rightarrow> u32 \<Rightarrow> bool" where
  "same_page v w \<longleftrightarrow> drop_bit 12 v = drop_bit 12 w"

text \<open>The directory \<open>pd\<close> and its tables are different pages among \<open>U\<close>.\<close>

definition space_ok :: "u32 set \<Rightarrow> memory \<Rightarrow> u32 \<Rightarrow> bool" where
  "space_ok U m pd \<longleftrightarrow> aligned pd \<and> pd \<in> U
     \<and> (\<forall>i < 1024. present (get_entry m pd i) \<longrightarrow> table (get_entry m pd i) \<in> U - {pd})
     \<and> (\<forall>i < 1024. \<forall>j < 1024. present (get_entry m pd i) \<and> present (get_entry m pd j)
          \<and> table (get_entry m pd i) = table (get_entry m pd j) \<longrightarrow> i = j)"

text \<open>\<open>same_entries U m m'\<close>: the pages in \<open>U\<close> have the same entries in \<open>m'\<close> as in \<open>m\<close>.\<close>

definition same_entries :: "u32 set \<Rightarrow> memory \<Rightarrow> memory \<Rightarrow> bool" where
  "same_entries U m m' \<longleftrightarrow> (\<forall>b \<in> U. \<forall>k < 1024. aligned b \<longrightarrow> get_entry m' b k = get_entry m b k)"

lemma same_entriesD: "same_entries U m m' \<Longrightarrow> b \<in> U \<Longrightarrow> aligned b \<Longrightarrow> k < 1024 \<Longrightarrow> get_entry m' b k = get_entry m b k"
  by (simp add: same_entries_def)

lemma same_entries_refl [simp]: "same_entries U m m"
  by (simp add: same_entries_def)

lemma same_entries_trans: "same_entries U m m' \<Longrightarrow> same_entries U m' m'' \<Longrightarrow> same_entries U m m''"
  by (simp add: same_entries_def)

lemma same_entries_mono: "same_entries U m m' \<Longrightarrow> V \<subseteq> U \<Longrightarrow> same_entries V m m'"
  by (auto simp: same_entries_def)

lemma aligned_table [simp]: "aligned (table e)"
  by (simp add: table_def)

lemma table_or [simp]: "aligned p \<Longrightarrow> f AND 0xFFF = f \<Longrightarrow> table (p OR f) = p"
  by (simp add: table_def page_or)

lemma flags_or [simp]:
  "aligned p \<Longrightarrow> f AND 0xFFF = f \<Longrightarrow> g AND 0xFFF = g \<Longrightarrow> (p OR f) AND g = f AND g"
  by (metis page_or(2) and_flag)

lemma present_or [simp]: "aligned p \<Longrightarrow> f AND 0xFFF = f \<Longrightarrow> present (p OR f) = present f"
  by (simp add: present_def)

lemma present_zero [simp]: "\<not> present 0"
  by (simp add: present_def)

lemma space_ok_same:
  assumes "space_ok U m pd" and "same_entries U m m'" and "U \<subseteq> V"
  shows "space_ok V m' pd" and "walk m' pd w = walk m pd w"
proof -
  have pd: "aligned pd" "pd \<in> U" and tab: "\<forall>i < 1024. present (get_entry m pd i) \<longrightarrow> table (get_entry m pd i) \<in> U - {pd}"
    and inj: "\<forall>i < 1024. \<forall>j < 1024. present (get_entry m pd i) \<and> present (get_entry m pd j)
          \<and> table (get_entry m pd i) = table (get_entry m pd j) \<longrightarrow> i = j"
    using assms(1) unfolding space_ok_def by blast+
  have e: "\<forall>k < 1024. get_entry m' pd k = get_entry m pd k"
    using same_entriesD[OF assms(2) pd(2,1)] by simp
  show "space_ok V m' pd" using pd tab inj e assms(3) by (auto simp: space_ok_def)
  show "walk m' pd w = walk m pd w"
    using tab e same_entriesD[OF assms(2)] by (auto simp: walk_def Let_def)
qed

lemma set_pte:
  fixes v :: u32
  assumes ok: "space_ok U m pd" and p: "present (get_entry m pd (pd_index virt))"
  defines "m' \<equiv> set_entry (table (get_entry m pd (pd_index virt))) (pt_index virt) v m"
  shows "space_ok U m' pd"
    and "walk m' pd w = (if same_page w virt
      then if present v then Some (table v, get_entry m pd (pd_index virt) AND v AND 6) else None
      else walk m pd w)"
    and "same_entries (- {table (get_entry m pd (pd_index virt))}) m m'"
    and "get_entry m' pd (pd_index w) = get_entry m pd (pd_index w)"
proof -
  let ?t = "table (get_entry m pd (pd_index virt))"
  have pd: "aligned pd" "pd \<in> U" and tab: "\<forall>i < 1024. present (get_entry m pd i) \<longrightarrow> table (get_entry m pd i) \<in> U - {pd}"
    and inj: "\<forall>i < 1024. \<forall>j < 1024. present (get_entry m pd i) \<and> present (get_entry m pd j)
          \<and> table (get_entry m pd i) = table (get_entry m pd j) \<longrightarrow> i = j"
    using ok unfolding space_ok_def by blast+
  show same: "same_entries (- {?t}) m m'" by (auto simp: same_entries_def m'_def get_set_entry)
  have ne: "?t \<noteq> pd" using tab p by auto
  have e: "get_entry m' pd k = get_entry m pd k" if "k < 1024" for k
    using same_entriesD[OF same _ pd(1) that] ne by auto
  show "space_ok U m' pd" using pd tab inj e by (simp add: space_ok_def)
  show "get_entry m' pd (pd_index w) = get_entry m pd (pd_index w)" by (simp add: e)
  show "walk m' pd w = (if same_page w virt
      then if present v then Some (table v, get_entry m pd (pd_index virt) AND v AND 6) else None
      else walk m pd w)"
  proof (cases "present (get_entry m pd (pd_index w))")
    case False
    then have "\<not> same_page w virt" using p unfolding same_page_def index_page[symmetric] by auto
    then show ?thesis using False by (simp add: walk_def e)
  next
    case True
    have "table (get_entry m pd (pd_index w)) = ?t \<longleftrightarrow> pd_index w = pd_index virt"
      using inj True p by auto
    then have "get_entry m' (table (get_entry m pd (pd_index w))) (pt_index w)
      = (if same_page w virt then v else get_entry m (table (get_entry m pd (pd_index w))) (pt_index w))"
      unfolding same_page_def index_page[symmetric] by (auto simp: m'_def get_set_entry)
    then show ?thesis
      using True unfolding same_page_def index_page[symmetric] by (auto simp: walk_def e Let_def)
  qed
qed

lemma add_table:
  assumes ok: "space_ok U m pd" and np: "\<not> present (get_entry m pd i)" and i: "i < 1024"
    and pt: "aligned pt" "pt \<notin> U" and f: "f AND 0xFFF = f" "present f"
    and m': "\<And>b k. aligned b \<Longrightarrow> k < 1024 \<Longrightarrow>
      get_entry m' b k = (if b = pd \<and> k = i then pt OR f else if b = pt then 0 else get_entry m b k)"
  shows "space_ok (insert pt U) m' pd" and "walk m' pd w = walk m pd w"
    and "same_entries (- {pd, pt}) m m'" and "get_entry m' pd i = pt OR f"
proof -
  have pd: "aligned pd" "pd \<in> U" and tab: "\<forall>i < 1024. present (get_entry m pd i) \<longrightarrow> table (get_entry m pd i) \<in> U - {pd}"
    and inj: "\<forall>i < 1024. \<forall>j < 1024. present (get_entry m pd i) \<and> present (get_entry m pd j)
          \<and> table (get_entry m pd i) = table (get_entry m pd j) \<longrightarrow> i = j"
    using ok unfolding space_ok_def by blast+
  have ne: "pd \<noteq> pt" using pd(2) pt(2) by auto
  have e: "get_entry m' pd k = (if k = i then pt OR f else get_entry m pd k)" if "k < 1024" for k
    using m'[OF pd(1) that] ne by simp
  show "get_entry m' pd i = pt OR f" using e[OF i] by simp
  show "same_entries (- {pd, pt}) m m'" using m' by (auto simp: same_entries_def)
  have tabs: "table (get_entry m pd k) \<noteq> pt" if "k < 1024" "present (get_entry m pd k)" for k
    using tab pt(2) that by auto
  then have tabs': "pt \<noteq> table (get_entry m pd k)" if "k < 1024" "present (get_entry m pd k)" for k
    using that by metis
  show "space_ok (insert pt U) m' pd"
    unfolding space_ok_def using pd ne tab inj tabs tabs' pt f by (auto simp: e)
  have "walk m' pd w = None" "walk m pd w = None" if "pd_index w = i"
    using np that pt f m'[OF pt(1)] ne e[OF i] by (simp_all add: walk_def Let_def)
  moreover have "walk m' pd w = walk m pd w" if "pd_index w \<noteq> i"
    using that tab tabs by (auto simp: walk_def e Let_def m')
  ultimately show "walk m' pd w = walk m pd w" by metis
qed

section \<open>Mapping and unmapping a page\<close>

lemma pmm_page_aligned: "pmm_inv s \<Longrightarrow> p \<in> pmm_pages s \<Longrightarrow> aligned p"
  by (auto simp: pmm_pages_def aligned_def unat_page_addr pmm_inv_def)

lemma page_alloc_cases:
  assumes "pmm_inv s"
  obtains (none) "pmm_alloc_page s = Inr (nullptr, s)" "pmm_allocated s = pmm_pages s"
  | (page) p bm u where "pmm_alloc_page s = Inr (p, s\<lparr>bitmap := bm, used_pages := u\<rparr>)" "p \<noteq> nullptr" "aligned p"
    "p \<in> pmm_pages s" "p \<notin> pmm_allocated s" "pmm_inv (s\<lparr>bitmap := bm, used_pages := u\<rparr>)"
    "pmm_allocated (s\<lparr>bitmap := bm, used_pages := u\<rparr>) = insert p (pmm_allocated s)"
proof (cases "pmm_allocated s = pmm_pages s")
  case True
  then show thesis using pmm.alloc_none[OF assms] none by blast
next
  case False
  obtain p s' where a: "pmm_alloc_page s = Inr (p, s')" "p \<in> pmm_pages s - pmm_allocated s" "pmm_inv s'"
    "pmm_allocated s' = insert p (pmm_allocated s)" using pmm.alloc_some[OF assms False] by blast
  obtain bm u where s': "s' = s\<lparr>bitmap := bm, used_pages := u\<rparr>" using pmm_alloc_more[OF a(1)] by blast
  have "p \<noteq> nullptr" using a(2) pmm.null_allocated[OF assms] by blast
  then show thesis using page[of p u bm] a pmm_page_aligned[OF assms] by (simp add: s')
qed

lemma pmm_mem [simp]:
  "pmm_inv (s\<lparr>mem := m\<rparr>) = pmm_inv s" "pmm_allocated (s\<lparr>mem := m\<rparr>) = pmm_allocated s"
  "pmm_pages (s\<lparr>mem := m\<rparr>) = pmm_pages s"
  by (simp_all add: pmm_inv_def pmm_allocated_def pmm_pages_def used_set_def)

lemma flag_and [simp]: "(x AND 0xFFF) AND 6 = x AND (6 :: u32)" "(x AND 0xFFF) AND 1 = x AND (1 :: u32)"
  "(x AND 0xFFF) AND 0xFFF = x AND (0xFFF :: u32)"
  by (simp_all add: and.assoc)

lemma pte_flags [simp]:
  "table ((phys AND 0xFFFFF000) OR (flags AND 0xFFF)) = phys AND 0xFFFFF000"
  "present ((phys AND 0xFFFFF000) OR (flags AND 0xFFF)) = present flags"
  "((phys AND 0xFFFFF000) OR (flags AND 0xFFF)) AND 6 = flags AND 6"
  by (simp_all add: present_def)

lemma rights_all: "aligned p \<Longrightarrow> (p OR 7) AND x AND 6 = x AND 6"
proof -
  assume "aligned p"
  then have "(p OR 7) AND 6 = 6" by simp
  then show ?thesis by (metis and.assoc and.commute)
qed

lemma vmm_map_present:
  assumes "space_ok U (mem s) space" and "present (get_entry (mem s) space (pd_index virt))"
  obtains m where "vmm_map space virt phys flags s = Inr (0, s\<lparr>mem := m\<rparr>)" "space_ok U m space"
    "\<forall>w. walk m space w = (if same_page w virt
       then if present flags then Some (phys AND 0xFFFFF000, get_entry (mem s) space (pd_index virt) AND flags AND 6)
            else None
       else walk (mem s) space w)"
    "same_entries (- {table (get_entry (mem s) space (pd_index virt))}) (mem s) m"
proof (rule that)
  show "vmm_map space virt phys flags s = Inr (0, s\<lparr>mem := set_entry (table (get_entry (mem s) space (pd_index virt)))
      (pt_index virt) ((phys AND 0xFFFFF000) OR (flags AND 0xFFF)) (mem s)\<rparr>)"
    using assms(2) by (simp add: vmm_map_def Let_def present_def table_def vmm_consts)
qed (simp_all add: set_pte[OF assms])

lemma vmm_map_absent:
  assumes "space_ok (pmm_allocated s) (mem s) space" and "\<not> present (get_entry (mem s) space (pd_index virt))"
    and "pmm_alloc_page s = Inr (pt, s\<lparr>bitmap := bm, used_pages := u\<rparr>)" "pt \<noteq> nullptr" "aligned pt"
    and "pt \<notin> pmm_allocated s"
  obtains m where "vmm_map space virt phys flags s = Inr (0, s\<lparr>bitmap := bm, used_pages := u, mem := m\<rparr>)"
    "space_ok (insert pt (pmm_allocated s)) m space"
    "\<forall>w. walk m space w = (if same_page w virt
       then if present flags then Some (phys AND 0xFFFFF000, flags AND 6) else None
       else walk (mem s) space w)"
    "same_entries (- {space, pt}) (mem s) m"
    "get_entry m space (pd_index virt) = pt OR 7"
    "\<forall>k < 1024. k \<noteq> pd_index virt \<longrightarrow> get_entry m space k = get_entry (mem s) space k"
proof -
  let ?i = "pd_index virt" and ?v = "(phys AND 0xFFFFF000) OR (flags AND 0xFFF)"
  define m1 where "m1 = set_entry space ?i (pt OR 7) (fill_entries pt (\<lambda>_ _. 0) (mem s))"
  have al: "aligned space" "pt \<noteq> space" using assms(1,6) by (auto simp: space_ok_def)
  have g: "get_entry m1 b k = (if b = space \<and> k = ?i then pt OR 7 else if b = pt then 0 else get_entry (mem s) b k)"
    if "aligned b" "k < 1024" for b k
    using al assms(5) that by (auto simp: m1_def get_set_entry get_fill_zero)
  note at = add_table[where m' = m1 and i = ?i and f = 7, OF assms(1,2) index_bound(1) assms(5,6) _ _ g, simplified]
  have seven: "present 7" by (simp add: present_def)
  note ok = at(1)[OF seven] and w1 = at(2)[OF seven] and same1 = at(3)[OF seven] and e = at(4)[OF seven]
  have p: "present (get_entry m1 space ?i)" using assms(5) seven by (simp add: e)
  have t: "table (get_entry m1 space ?i) = pt" using assms(5) by (simp add: e)
  note sp = set_pte[OF ok p, of ?v]
  show thesis
  proof (rule that)
    have "vmm_map space virt phys flags s = Inr (0, s\<lparr>bitmap := bm, used_pages := u,
        mem := set_entry (get_entry m1 space ?i AND 0xFFFFF000) (pt_index virt) ?v m1\<rparr>)"
      using assms(2-4) by (simp add: vmm_map_def present_def vmm_consts m1_def Let_def or.assoc)
    then show "vmm_map space virt phys flags s = Inr (0, s\<lparr>bitmap := bm, used_pages := u,
        mem := set_entry (table (get_entry m1 space ?i)) (pt_index virt) ?v m1\<rparr>)"
      by (simp add: table_def)
    show "\<forall>w. walk (set_entry (table (get_entry m1 space ?i)) (pt_index virt) ?v m1) space w = (if same_page w virt
       then if present flags then Some (phys AND 0xFFFFF000, flags AND 6) else None
       else walk (mem s) space w)"
      using sp(2) w1 rights_all[OF assms(5)] by (simp add: e)
    show "same_entries (- {space, pt}) (mem s) (set_entry (table (get_entry m1 space ?i)) (pt_index virt) ?v m1)"
      using same_entries_trans[OF same1 same_entries_mono[OF sp(3)]] unfolding t by auto
    show "get_entry (set_entry (table (get_entry m1 space ?i)) (pt_index virt) ?v m1) space ?i = pt OR 7"
      using sp(4) e by simp
    show "\<forall>k < 1024. k \<noteq> ?i \<longrightarrow> get_entry (set_entry (table (get_entry m1 space ?i)) (pt_index virt) ?v m1) space k
        = get_entry (mem s) space k"
      unfolding t using al assms(5) by (simp add: get_set_entry g)
  qed (use sp(1) in simp)
qed

section \<open>Destroying an address space\<close>

lemma free_page_ok:
  assumes "pmm_inv s" and "p \<in> pmm_allocated s" and "p \<noteq> nullptr"
  obtains bm u where "pmm_free_page p s = Inr (s\<lparr>bitmap := bm, used_pages := u\<rparr>)"
    "pmm_inv (s\<lparr>bitmap := bm, used_pages := u\<rparr>)"
    "pmm_allocated (s\<lparr>bitmap := bm, used_pages := u\<rparr>) = pmm_allocated s - {p}"
proof -
  obtain s' where s': "pmm_free_page p s = Inr s'" "pmm_inv s'" "pmm_allocated s' = pmm_allocated s - {p}"
    using pmm.free_allocated[OF assms] by metis
  obtain bm u where "s' = s\<lparr>bitmap := bm, used_pages := u\<rparr>" using pmm_free_more[OF s'(1)] by metis
  then show thesis using that[of u bm] s' by simp
qed

definition owned :: "u32 \<Rightarrow> bool" where
  "owned e \<longleftrightarrow> present e \<and> e AND 4 \<noteq> 0"

text \<open>The user page tables of a directory, among the entries with index in \<open>I\<close>.\<close>

definition tables :: "memory \<Rightarrow> u32 \<Rightarrow> nat set \<Rightarrow> u32 set" where
  "tables m pd I = {table (get_entry m pd (of_nat i)) | i. i \<in> I \<and> owned (get_entry m pd (of_nat i))}"

definition separate :: "memory \<Rightarrow> u32 \<Rightarrow> nat set \<Rightarrow> bool" where
  "separate m pd I \<longleftrightarrow> (\<forall>i \<in> I. \<forall>j \<in> I. owned (get_entry m pd (of_nat i)) \<and> owned (get_entry m pd (of_nat j))
     \<and> table (get_entry m pd (of_nat i)) = table (get_entry m pd (of_nat j)) \<longrightarrow> i = j)"

lemma tables_insert:
  "tables m pd (insert i I) = (if owned (get_entry m pd (of_nat i))
     then insert (table (get_entry m pd (of_nat i))) (tables m pd I) else tables m pd I)"
  by (auto simp: tables_def)

lemma tables_in: "i \<in> I \<Longrightarrow> owned (get_entry m pd (of_nat i)) \<Longrightarrow> table (get_entry m pd (of_nat i)) \<in> tables m pd I"
  by (auto simp: tables_def)

lemma separate_subset: "separate m pd I \<Longrightarrow> J \<subseteq> I \<Longrightarrow> separate m pd J"
  unfolding separate_def by blast

lemma free_tables_ok:
  assumes "pmm_inv s" and "distinct is" and "separate (mem s) pd (set is)"
    and "tables (mem s) pd (set is) \<subseteq> pmm_allocated s - {nullptr}"
  obtains bm u where "free_tables pd is s = Inr (s\<lparr>bitmap := bm, used_pages := u\<rparr>)"
    "pmm_inv (s\<lparr>bitmap := bm, used_pages := u\<rparr>)"
    "pmm_allocated (s\<lparr>bitmap := bm, used_pages := u\<rparr>) = pmm_allocated s - tables (mem s) pd (set is)"
  using assms
proof (induction "is" arbitrary: s thesis)
  case Nil
  then show ?case using Nil(1)[of "used_pages s" "bitmap s"] by (simp add: tables_def)
next
  case (Cons i "is")
  let ?e = "get_entry (mem s) pd (of_nat i)"
  have sep: "separate (mem s) pd (set is)" using Cons.prems(4) by (rule separate_subset) auto
  show ?case
  proof (cases "owned ?e")
    case False
    then have eq: "free_tables pd (i # is) s = free_tables pd is s"
      by (auto simp: owned_def present_def vmm_consts Let_def)
    have "tables (mem s) pd (set (i # is)) = tables (mem s) pd (set is)"
      using False by (simp add: tables_insert)
    then show ?thesis
      using Cons.IH[of s] Cons.prems sep unfolding eq by auto
  next
    case True
    have "table ?e \<in> pmm_allocated s" "table ?e \<noteq> nullptr"
      using Cons.prems(5) True by (auto simp: tables_insert)
    from free_page_ok[OF Cons.prems(2) this] obtain bm u where fp:
      "pmm_free_page (table ?e) s = Inr (s\<lparr>bitmap := bm, used_pages := u\<rparr>)"
      "pmm_inv (s\<lparr>bitmap := bm, used_pages := u\<rparr>)"
      "pmm_allocated (s\<lparr>bitmap := bm, used_pages := u\<rparr>) = pmm_allocated s - {table ?e}" by blast
    let ?s = "s\<lparr>bitmap := bm, used_pages := u\<rparr>"
    have nin: "table ?e \<notin> tables (mem s) pd (set is)"
      using Cons.prems(3,4) True by (auto simp: tables_def separate_def)
    have "tables (mem ?s) pd (set is) \<subseteq> pmm_allocated ?s - {nullptr}"
      using Cons.prems(5) nin True by (auto simp: fp(3) tables_insert)
    then obtain bm' u' where r: "free_tables pd is ?s = Inr (?s\<lparr>bitmap := bm', used_pages := u'\<rparr>)"
      "pmm_inv (?s\<lparr>bitmap := bm', used_pages := u'\<rparr>)"
      "pmm_allocated (?s\<lparr>bitmap := bm', used_pages := u'\<rparr>) = pmm_allocated ?s - tables (mem s) pd (set is)"
      using Cons.IH[of ?s] Cons.prems(3) fp(2) sep by auto
    have "free_tables pd (i # is) s = free_tables pd is ?s"
      using True fp(1) by (simp add: owned_def present_def table_def vmm_consts)
    moreover have "pmm_allocated ?s - tables (mem s) pd (set is) = pmm_allocated s - tables (mem s) pd (set (i # is))"
      using True unfolding fp(3) by (simp add: tables_insert) blast
    ultimately show ?thesis
      using Cons.prems(1)[of u' bm'] r by simp
  qed
qed

lemma free_user_tables_eq:
  assumes "\<forall>i \<in> set is. get_entry (mem s) pd (of_nat i) AND 4 \<noteq> 0 \<longrightarrow> present (get_entry (mem s) pd (of_nat i))"
  shows "free_user_tables pd is s = free_tables pd is s"
  using assms
proof (induction "is" arbitrary: s)
  case (Cons i "is")
  let ?e = "get_entry (mem s) pd (of_nat i)"
  have step: "bindR (pmm_free_page p s) (free_user_tables pd is) = bindR (pmm_free_page p s) (free_tables pd is)" for p
  proof (cases "pmm_free_page p s")
    case (Inr t)
    then have "mem t = mem s" using pmm_free_more by fastforce
    then show ?thesis using Cons Inr by auto
  qed simp
  have IH: "free_user_tables pd is s = free_tables pd is s" using Cons by simp
  have "present ?e \<or> ?e AND 4 = 0" using Cons.prems by auto
  then consider "?e AND 4 = 0" | "?e AND 4 \<noteq> 0" "?e AND 1 \<noteq> 0" by (auto simp: present_def)
  then show ?case by cases (simp_all add: IH step vmm_consts Let_def)
qed simp

lemma vmm_destroy_ok:
  assumes "pmm_inv s" and "separate (mem s) pd {..<1024}" and "pd \<noteq> nullptr" and "pd \<in> pmm_allocated s"
    and "tables (mem s) pd {..<1024} \<subseteq> pmm_allocated s - {nullptr, pd}"
  obtains bm u where "vmm_destroy_space pd s = Inr (s\<lparr>bitmap := bm, used_pages := u\<rparr>)"
    "pmm_inv (s\<lparr>bitmap := bm, used_pages := u\<rparr>)"
    "pmm_allocated (s\<lparr>bitmap := bm, used_pages := u\<rparr>)
       = pmm_allocated s - tables (mem s) pd {..<1024} - {pd}"
proof -
  have set: "set [0..<1024] = {..<1024}" by auto
  obtain bm u where f: "free_tables pd [0..<1024] s = Inr (s\<lparr>bitmap := bm, used_pages := u\<rparr>)"
    "pmm_inv (s\<lparr>bitmap := bm, used_pages := u\<rparr>)"
    "pmm_allocated (s\<lparr>bitmap := bm, used_pages := u\<rparr>) = pmm_allocated s - tables (mem s) pd {..<1024}"
    by (rule free_tables_ok[of s "[0..<1024]" pd, unfolded set, OF assms(1) _ assms(2)]) (use assms(5) in auto)
  have "pd \<in> pmm_allocated (s\<lparr>bitmap := bm, used_pages := u\<rparr>)" using assms f(3) by auto
  then obtain bm' u' where g:
    "pmm_free_page pd (s\<lparr>bitmap := bm, used_pages := u\<rparr>) = Inr (s\<lparr>bitmap := bm', used_pages := u'\<rparr>)"
    "pmm_inv (s\<lparr>bitmap := bm', used_pages := u'\<rparr>)"
    "pmm_allocated (s\<lparr>bitmap := bm', used_pages := u'\<rparr>) = pmm_allocated s - tables (mem s) pd {..<1024} - {pd}"
    by (rule free_page_ok[OF f(2) _ assms(3)]) (simp add: f(3))
  show thesis
    using that[of u' bm'] g f(1) assms(3) by (simp add: vmm_destroy_space_def del: upt_rec_numeral)
qed

section \<open>Creating an address space\<close>

text \<open>Entry \<open>e'\<close> of the copy for entry \<open>e\<close> of the original: absent entries stay absent,
  kernel tables are shared, user tables are copied.\<close>

definition entry_copy :: "memory \<Rightarrow> u32 \<Rightarrow> memory \<Rightarrow> u32 \<Rightarrow> bool" where
  "entry_copy m e m' e' \<longleftrightarrow>
     (if \<not> present e then e' = 0
      else if \<not> owned e then e' = e
      else e' AND 0xFFF = e AND 0xFFF \<and> (\<forall>k < 1024. get_entry m' (table e') k = get_entry m (table e) k))"

text \<open>The first \<open>n\<close> entries of the directory \<open>K\<close> have been copied to the page \<open>pd\<close>,
  starting from memory \<open>m\<close> with the pages \<open>U\<close> in use.\<close>

definition copied :: "u32 set \<Rightarrow> memory \<Rightarrow> u32 \<Rightarrow> u32 \<Rightarrow> nat \<Rightarrow> 'z vmm_state_scheme \<Rightarrow> bool" where
  "copied U m K pd n s \<longleftrightarrow> pmm_inv s \<and> aligned pd \<and> pd \<notin> U \<and> nullptr \<in> U \<and> same_entries U m (mem s)
     \<and> separate (mem s) pd {..<n} \<and> tables (mem s) pd {..<n} \<inter> insert pd U = {}
     \<and> pmm_allocated s = insert pd U \<union> tables (mem s) pd {..<n}
     \<and> (\<forall>i < n. entry_copy m (get_entry m K (of_nat i)) (mem s) (get_entry (mem s) pd (of_nat i)))"

lemma and_bit: "e AND 0xFFF = e' AND 0xFFF \<Longrightarrow> (f :: u32) AND 0xFFF = f \<Longrightarrow> e AND f = e' AND f"
  by (metis and_flag)

lemma entry_copy_owned: "entry_copy m e m' e' \<Longrightarrow> owned e' = owned e"
  using and_bit[of e' e 1] and_bit[of e' e 4]
  by (auto simp: entry_copy_def owned_def present_def split: if_splits)

lemma entry_copy_user: "entry_copy m e m' e' \<Longrightarrow> e' AND 4 \<noteq> 0 \<Longrightarrow> present e'"
  using and_bit[of e' e 1] by (auto simp: entry_copy_def owned_def present_def split: if_splits)

lemma entry_copy_same:
  assumes "entry_copy m e m' e'" and "owned e' \<Longrightarrow> table e' \<in> V" and "same_entries V m' m''"
  shows "entry_copy m e m'' e'"
  using assms same_entriesD[OF assms(3)] entry_copy_owned[OF assms(1)] by (auto simp: entry_copy_def)

lemma copied_extend:
  assumes c: "copied U m K pd n s" and inv: "pmm_inv s'"
    and same: "same_entries (pmm_allocated s - {pd}) (mem s) (mem s')"
    and old: "\<forall>i < n. get_entry (mem s') pd (of_nat i) = get_entry (mem s) pd (of_nat i)"
    and e: "entry_copy m (get_entry m K (of_nat n)) (mem s') (get_entry (mem s') pd (of_nat n))"
    and al: "if owned (get_entry (mem s') pd (of_nat n))
      then table (get_entry (mem s') pd (of_nat n)) \<notin> pmm_allocated s
        \<and> pmm_allocated s' = insert (table (get_entry (mem s') pd (of_nat n))) (pmm_allocated s)
      else pmm_allocated s' = pmm_allocated s"
  shows "copied U m K pd (Suc n) s'"
proof -
  let ?e = "get_entry (mem s') pd (of_nat n)"
  have c': "aligned pd" "pd \<notin> U" "nullptr \<in> U" "same_entries U m (mem s)" "separate (mem s) pd {..<n}"
    "tables (mem s) pd {..<n} \<inter> insert pd U = {}" "pmm_allocated s = insert pd U \<union> tables (mem s) pd {..<n}"
    and cp: "\<forall>i < n. entry_copy m (get_entry m K (of_nat i)) (mem s) (get_entry (mem s) pd (of_nat i))"
    using c unfolding copied_def by blast+
  have tn: "tables (mem s') pd {..<n} = tables (mem s) pd {..<n}" using old unfolding tables_def by (intro Collect_cong) (metis lessThan_iff)
  have t: "tables (mem s') pd {..<Suc n} = (if owned ?e then insert (table ?e) (tables (mem s) pd {..<n})
      else tables (mem s) pd {..<n})"
    unfolding lessThan_Suc tables_insert tn by simp
  have U: "same_entries U m (mem s')"
    using same_entries_trans[OF c'(4) same_entries_mono[OF same]] c'(2,7) by blast
  have new: "owned ?e \<Longrightarrow> i < n \<Longrightarrow> owned (get_entry (mem s) pd (of_nat i)) \<Longrightarrow> table (get_entry (mem s) pd (of_nat i)) \<noteq> table ?e" for i
    using al tables_in[of i "{..<n}" "mem s" pd] c'(7) by auto
  have sep: "separate (mem s') pd {..<Suc n}"
    unfolding separate_def
  proof (intro ballI impI)
    fix i j
    assume ij: "i \<in> {..<Suc n}" "j \<in> {..<Suc n}"
      and o: "owned (get_entry (mem s') pd (of_nat i)) \<and> owned (get_entry (mem s') pd (of_nat j))
        \<and> table (get_entry (mem s') pd (of_nat i)) = table (get_entry (mem s') pd (of_nat j))"
    show "i = j"
    proof (cases "i < n \<and> j < n")
      case True
      then show ?thesis using c'(5) o old unfolding separate_def by auto
    next
      case False
      then have "i = n \<or> j = n" using ij by auto
      then show ?thesis using new[of i] new[of j] o old ij by (auto simp: less_Suc_eq)
    qed
  qed
  have "entry_copy m (get_entry m K (of_nat i)) (mem s') (get_entry (mem s') pd (of_nat i))" if "i < Suc n" for i
  proof (cases "i = n")
    case False
    then have i: "i < n" using that by simp
    show ?thesis
    proof (rule entry_copy_same[OF _ _ same])
      show "entry_copy m (get_entry m K (of_nat i)) (mem s) (get_entry (mem s') pd (of_nat i))"
        using cp i old by simp
      show "table (get_entry (mem s') pd (of_nat i)) \<in> pmm_allocated s - {pd}"
        if "owned (get_entry (mem s') pd (of_nat i))"
        using tables_in[of i "{..<n}" "mem s'" pd] that i c'(6,7) tn by auto
    qed
  qed (use e in simp)
  moreover have "pmm_allocated s' = insert pd U \<union> tables (mem s') pd {..<Suc n}"
    using al c'(7) unfolding t by (auto split: if_splits)
  moreover have "tables (mem s') pd {..<Suc n} \<inter> insert pd U = {}"
    using al c'(6,7) unfolding t by (auto split: if_splits)
  ultimately show ?thesis
    using inv c'(1-3) U sep unfolding copied_def by blast
qed

lemma of_nat_index: "i < 1024 \<Longrightarrow> j < 1024 \<Longrightarrow> (of_nat i :: u32) = of_nat j \<longleftrightarrow> i = j"
  "i < 1024 \<Longrightarrow> (of_nat i :: u32) < 1024"
  by (auto simp: word_unat_eq_iff word_less_nat_alt unat_of_nat)

lemma copied_share:
  assumes c: "copied U m K pd n s" and n: "n < 1024"
    and e: "\<not> owned (get_entry m K (of_nat n))"
    and v: "v = (if present (get_entry m K (of_nat n)) then get_entry m K (of_nat n) else 0)"
  shows "copied U m K pd (Suc n) (s\<lparr>mem := set_entry pd (of_nat n) v (mem s)\<rparr>)"
proof (rule copied_extend[OF c])
  have pd: "aligned pd" "pmm_inv s" using c by (simp_all add: copied_def)
  have "\<not> owned v" using e v by (simp add: owned_def)
  then show "if owned (get_entry (mem (s\<lparr>mem := set_entry pd (of_nat n) v (mem s)\<rparr>)) pd (of_nat n))
      then table (get_entry (mem (s\<lparr>mem := set_entry pd (of_nat n) v (mem s)\<rparr>)) pd (of_nat n)) \<notin> pmm_allocated s
        \<and> pmm_allocated (s\<lparr>mem := set_entry pd (of_nat n) v (mem s)\<rparr>)
          = insert (table (get_entry (mem (s\<lparr>mem := set_entry pd (of_nat n) v (mem s)\<rparr>)) pd (of_nat n))) (pmm_allocated s)
      else pmm_allocated (s\<lparr>mem := set_entry pd (of_nat n) v (mem s)\<rparr>) = pmm_allocated s"
    using pd n by (simp add: get_set_entry of_nat_index)
qed (use c n e v in \<open>auto simp: copied_def same_entries_def get_set_entry of_nat_index entry_copy_def\<close>)

lemma copied_table:
  assumes c: "copied U m K pd n s" and n: "n < 1024" and ok: "space_ok U m K"
    and e: "owned (get_entry m K (of_nat n))"
    and pt: "pt \<notin> pmm_allocated s" "aligned pt"
    and s1: "pmm_inv (s\<lparr>bitmap := bm, used_pages := u\<rparr>)" "pmm_allocated (s\<lparr>bitmap := bm, used_pages := u\<rparr>) = insert pt (pmm_allocated s)"
  shows "copied U m K pd (Suc n) (s\<lparr>bitmap := bm, used_pages := u,
    mem := set_entry pd (of_nat n) (pt OR (get_entry m K (of_nat n) AND 0xFFF))
      (fill_entries pt (\<lambda>x j. get_entry x (table (get_entry m K (of_nat n))) j) (mem s))\<rparr>)"
    (is "copied U m K pd (Suc n) (_\<lparr>mem := ?m\<rparr>)")
proof -
  let ?e = "get_entry m K (of_nat n)" and ?s = "s\<lparr>bitmap := bm, used_pages := u, mem := ?m\<rparr>"
  have pd: "aligned pd" "pd \<in> pmm_allocated s" "U \<subseteq> pmm_allocated s" "same_entries U m (mem s)"
    using c unfolding copied_def by blast+
  have ne: "pt \<noteq> pd" using pd pt by auto
  have tU: "table ?e \<in> U" "present ?e"
    using ok e n of_nat_index(2)[OF n] by (auto simp: space_ok_def owned_def)
  then have tne: "pt \<noteq> table ?e" using pd pt by auto
  have g: "get_entry ?m b k = (if b = pd \<and> k = of_nat n then pt OR (?e AND 0xFFF)
      else if b = pt then get_entry (mem s) (table ?e) k else get_entry (mem s) b k)"
    if "aligned b" "k < 1024" for b k
    using that pd(1) pt(2) ne tne n by (auto simp: get_set_entry get_copy_entries of_nat_index)
  show ?thesis
  proof (rule copied_extend[OF c])
    have f: "present (?e AND 0xFFF)" "(?e AND 0xFFF) AND 4 = ?e AND 4"
      using tU(2) by (simp_all add: present_def and.assoc)
    have en: "get_entry ?m pd (of_nat n) = pt OR (?e AND 0xFFF)"
      using g[OF pd(1) of_nat_index(2)[OF n]] by simp
    have tt: "table (pt OR (?e AND 0xFFF)) = pt" using pt(2) by simp
    show "entry_copy m ?e (mem ?s) (get_entry (mem ?s) pd (of_nat n))"
      using e tU same_entriesD[OF pd(4) tU(1)] pt(2) ne
      by (simp add: entry_copy_def en tt g owned_def page_or)
    show "if owned (get_entry (mem ?s) pd (of_nat n))
      then table (get_entry (mem ?s) pd (of_nat n)) \<notin> pmm_allocated s
        \<and> pmm_allocated ?s = insert (table (get_entry (mem ?s) pd (of_nat n))) (pmm_allocated s)
      else pmm_allocated ?s = pmm_allocated s"
      using e f pt s1(2) by (simp add: en tt owned_def)
    show "same_entries (pmm_allocated s - {pd}) (mem s) (mem ?s)"
      using pt(1) by (auto simp: same_entries_def g)
    show "\<forall>i < n. get_entry (mem ?s) pd (of_nat i) = get_entry (mem s) pd (of_nat i)"
      using n ne pd(1) by (simp add: g of_nat_index)
  qed (use s1(1) in simp)
qed

text \<open>\<open>s'\<close> differs from \<open>s\<close> at most in the page allocator's state and in memory.\<close>

definition pages_mem :: "'z vmm_state_scheme \<Rightarrow> 'z vmm_state_scheme \<Rightarrow> bool" where
  "pages_mem s s' \<longleftrightarrow> (\<exists>bm u m. s' = s\<lparr>bitmap := bm, used_pages := u, mem := m\<rparr>)"

lemma pages_mem_intro [simp]:
  "pages_mem s s" "pages_mem s (s\<lparr>mem := m\<rparr>)" "pages_mem s (s\<lparr>bitmap := bm, used_pages := u\<rparr>)"
  "pages_mem s (s\<lparr>bitmap := bm, used_pages := u, mem := m\<rparr>)"
proof -
  have "s = s\<lparr>bitmap := bitmap s, used_pages := used_pages s, mem := mem s\<rparr>"
    "s\<lparr>mem := m\<rparr> = s\<lparr>bitmap := bitmap s, used_pages := used_pages s, mem := m\<rparr>"
    "s\<lparr>bitmap := bm, used_pages := u\<rparr> = s\<lparr>bitmap := bm, used_pages := u, mem := mem s\<rparr>" by simp_all
  then show "pages_mem s s" "pages_mem s (s\<lparr>mem := m\<rparr>)" "pages_mem s (s\<lparr>bitmap := bm, used_pages := u\<rparr>)"
    "pages_mem s (s\<lparr>bitmap := bm, used_pages := u, mem := m\<rparr>)"
    unfolding pages_mem_def by metis+
qed

lemma pages_mem_trans: "pages_mem s s' \<Longrightarrow> pages_mem s' s'' \<Longrightarrow> pages_mem s s''"
proof -
  assume "pages_mem s s'" "pages_mem s' s''"
  then obtain b u m b' u' m' where "s' = s\<lparr>bitmap := b, used_pages := u, mem := m\<rparr>"
    "s'' = s'\<lparr>bitmap := b', used_pages := u', mem := m'\<rparr>" unfolding pages_mem_def by metis
  then have "s'' = s\<lparr>bitmap := b', used_pages := u', mem := m'\<rparr>" by simp
  then show ?thesis by simp
qed

lemma pages_mem_same:
  "pages_mem s s' \<Longrightarrow> kernel_space s' = kernel_space s \<and> user_code_phys s' = user_code_phys s
     \<and> pmm_pages s' = pmm_pages s \<and> console s' = console s \<and> cr3 s' = cr3 s"
  by (auto simp: pages_mem_def pmm_pages_def)

lemma copied_undo:
  assumes c: "copied U m K pd n s"
  obtains bm u where "bindR (free_user_tables pd [0..<n] s) (pmm_free_page pd) = Inr (s\<lparr>bitmap := bm, used_pages := u\<rparr>)"
    "pmm_inv (s\<lparr>bitmap := bm, used_pages := u\<rparr>)" "pmm_allocated (s\<lparr>bitmap := bm, used_pages := u\<rparr>) = U"
proof -
  have c': "pmm_inv s" "pd \<notin> U" "nullptr \<in> U" "separate (mem s) pd {..<n}"
    "tables (mem s) pd {..<n} \<inter> insert pd U = {}" "pmm_allocated s = insert pd U \<union> tables (mem s) pd {..<n}"
    and cp: "\<forall>i < n. entry_copy m (get_entry m K (of_nat i)) (mem s) (get_entry (mem s) pd (of_nat i))"
    using c unfolding copied_def by blast+
  have set: "set [0..<n] = {..<n}" by auto
  have eq: "free_user_tables pd [0..<n] s = free_tables pd [0..<n] s"
    by (rule free_user_tables_eq) (use cp entry_copy_user in auto)
  have sub: "tables (mem s) pd {..<n} \<subseteq> pmm_allocated s - {nullptr}" using c'(3,5,6) by blast
  obtain bm u where f: "free_tables pd [0..<n] s = Inr (s\<lparr>bitmap := bm, used_pages := u\<rparr>)"
    "pmm_inv (s\<lparr>bitmap := bm, used_pages := u\<rparr>)"
    "pmm_allocated (s\<lparr>bitmap := bm, used_pages := u\<rparr>) = pmm_allocated s - tables (mem s) pd {..<n}"
    by (rule free_tables_ok[of s "[0..<n]" pd, unfolded set, OF c'(1) _ c'(4) sub]) simp
  have "pmm_allocated s - tables (mem s) pd {..<n} = insert pd U" using c'(5,6) by blast
  note f = f(1,2) f(3)[unfolded this]
  obtain bm' u' where g: "pmm_free_page pd (s\<lparr>bitmap := bm, used_pages := u\<rparr>) = Inr (s\<lparr>bitmap := bm', used_pages := u'\<rparr>)"
    "pmm_inv (s\<lparr>bitmap := bm', used_pages := u'\<rparr>)"
    "pmm_allocated (s\<lparr>bitmap := bm', used_pages := u'\<rparr>) = insert pd U - {pd}"
    by (rule free_page_ok[OF f(2), of pd]) (use c'(2,3) f(3) in auto)
  show thesis using that[of u' bm'] g f(1) c'(2) by (simp add: eq)
qed

lemma copy_directory_ok:
  assumes "copied U m K pd n s" and "n \<le> 1024" and "space_ok U m K"
  shows "\<exists>ok s'. copy_directory pd K [n..<1024] s = Inr (ok, s') \<and> pages_mem s s'
    \<and> (if ok then copied U m K pd 1024 s'
       else pmm_inv s' \<and> pmm_allocated s' = U \<and> same_entries U m (mem s'))"
  using assms(2,1)
proof (induction "1024 - n" arbitrary: n s)
  case 0
  then show ?case
    by (intro exI[of _ True] exI[of _ s]) simp
next
  case (Suc l)
  then have n: "n < 1024" "l = 1024 - Suc n" "Suc n \<le> 1024" by simp_all
  have up: "[n..<1024] = n # [Suc n..<1024]" using n(1) by (rule upt_conv_Cons)
  let ?e = "get_entry m K (of_nat n)"
  have K: "aligned K" "K \<in> U" using assms(3) by (auto simp: space_ok_def)
  have c: "pmm_inv s" "same_entries U m (mem s)" using Suc.prems(2) by (auto simp: copied_def)
  have e: "get_entry (mem s) K (of_nat n) = ?e"
    using same_entriesD[OF c(2) K(2,1) of_nat_index(2)[OF n(1)]] .
  note IH = Suc.hyps(1)[OF n(2,3)]
  show ?case
  proof (cases "owned ?e")
    case False
    let ?s = "s\<lparr>mem := set_entry pd (of_nat n) (if present ?e then ?e else 0) (mem s)\<rparr>"
    have "copy_directory pd K [n..<1024] s = copy_directory pd K [Suc n..<1024] ?s"
      unfolding up using False by (auto simp: e owned_def present_def vmm_consts Let_def)
    moreover have "copied U m K pd (Suc n) ?s" by (rule copied_share[OF Suc.prems(2) n(1) False]) simp
    ultimately show ?thesis using IH[of ?s] pages_mem_trans[of s ?s] pages_mem_intro(2)[of s] by metis
  next
    case True
    then have p: "?e AND 1 \<noteq> 0" "?e AND 4 \<noteq> 0" by (auto simp: owned_def present_def)
    show ?thesis
    proof (rule page_alloc_cases[OF c(1)], goal_cases none page)
      case none
      obtain bm u where un: "bindR (free_user_tables pd [0..<n] s) (pmm_free_page pd) = Inr (s\<lparr>bitmap := bm, used_pages := u\<rparr>)"
        "pmm_inv (s\<lparr>bitmap := bm, used_pages := u\<rparr>)" "pmm_allocated (s\<lparr>bitmap := bm, used_pages := u\<rparr>) = U"
        using copied_undo[OF Suc.prems(2)] .
      have "copy_directory pd K [n..<1024] s = bindR (bindR (free_user_tables pd [0..<n] s) (pmm_free_page pd)) (\<lambda>s. Inr (False, s))"
        unfolding up using p none(1) by (simp add: e vmm_consts Let_def bindR_assoc)
      then show ?thesis
        using un c(2) by (intro exI[of _ False] exI[of _ "s\<lparr>bitmap := bm, used_pages := u\<rparr>"]) simp
    next
      case (page pt bm u)
      let ?s = "s\<lparr>bitmap := bm, used_pages := u, mem := set_entry pd (of_nat n) (pt OR (?e AND 0xFFF))
        (fill_entries pt (\<lambda>x j. get_entry x (table ?e) j) (mem s))\<rparr>"
      have "copy_directory pd K [n..<1024] s = copy_directory pd K [Suc n..<1024] ?s"
        unfolding up using p page(1,2) by (simp add: e vmm_consts Let_def table_def)
      moreover have "copied U m K pd (Suc n) ?s"
        by (rule copied_table[OF Suc.prems(2) n(1) assms(3) True page(5,3,6,7)])
      ultimately show ?thesis using IH[of ?s] pages_mem_trans[of s ?s] pages_mem_intro(4)[of s] by metis
    qed
  qed
qed

lemma copied_walk:
  assumes c: "copied U m K pd 1024 s" and ok: "space_ok U m K"
  shows "walk (mem s) pd w = walk m K w"
proof -
  let ?e = "get_entry m K (pd_index w)" and ?e' = "get_entry (mem s) pd (pd_index w)"
  have "unat (pd_index w) < 1024" using index_bound(1)[of w] by (simp add: word_less_nat_alt)
  then have cp: "entry_copy m ?e (mem s) ?e'"
    using c[unfolded copied_def] by (elim conjE allE[of _ "unat (pd_index w)"]) simp
  have same: "same_entries U m (mem s)" using c by (simp add: copied_def)
  consider "\<not> present ?e" | "present ?e" "\<not> owned ?e" | "present ?e" "owned ?e" by blast
  then show ?thesis
  proof cases
    case 2
    then have "table ?e \<in> U" using ok by (simp add: space_ok_def)
    then show ?thesis using 2 cp same_entriesD[OF same] by (simp add: entry_copy_def walk_def)
  next
    case 3
    then have f: "?e' AND 0xFFF = ?e AND 0xFFF" "\<forall>k < 1024. get_entry (mem s) (table ?e') k = get_entry m (table ?e) k"
      using cp by (auto simp: entry_copy_def)
    have "?e' AND p AND 6 = ?e AND p AND 6" for p
    proof -
      have "x AND p AND 6 = (x AND 6) AND p" for x :: u32 by (simp only: and.assoc and.commute and.left_commute)
      then show ?thesis using and_bit[OF f(1), of 6] by simp
    qed
    moreover have "present ?e' = present ?e" using and_bit[OF f(1), of 1] by (simp add: present_def)
    ultimately show ?thesis using f(2) by (simp add: walk_def Let_def)
  qed (use cp in \<open>simp add: entry_copy_def walk_def\<close>)
qed

lemma copied_space_ok:
  assumes c: "copied U m K pd 1024 s" and ok: "space_ok U m K"
  shows "space_ok (pmm_allocated s) (mem s) pd"
proof -
  let ?E = "\<lambda>i. get_entry m K (of_nat i)" and ?N = "\<lambda>i. get_entry (mem s) pd (of_nat i)"
  have c': "aligned pd" "pd \<notin> U" "separate (mem s) pd {..<1024}"
    "tables (mem s) pd {..<1024} \<inter> insert pd U = {}" "pmm_allocated s = insert pd U \<union> tables (mem s) pd {..<1024}"
    and cp: "\<And>i. i < 1024 \<Longrightarrow> entry_copy m (?E i) (mem s) (?N i)"
    using c unfolding copied_def by blast+
  have shared: "?N i = ?E i \<and> table (?N i) \<in> U" if "i < 1024" "present (?N i)" "\<not> owned (?N i)" for i
    using cp[OF that(1)] that entry_copy_owned[OF cp[OF that(1)]] ok of_nat_index(2)[OF that(1)]
    by (auto simp: entry_copy_def space_ok_def split: if_splits)
  have own: "table (?N i) \<in> tables (mem s) pd {..<1024}" if "i < 1024" "owned (?N i)" for i
    using tables_in[of i "{..<1024}"] that by simp
  have tab: "table (?N i) \<in> pmm_allocated s - {pd}" if "i < 1024" "present (?N i)" for i
    using own[of i] shared[of i] that c'(2,4,5) by (cases "owned (?N i)") auto
  have inj: "i = j" if "i < 1024" "j < 1024" "present (?N i)" "present (?N j)" "table (?N i) = table (?N j)" for i j
  proof (cases "owned (?N i) \<longleftrightarrow> owned (?N j)")
    case True
    show ?thesis
    proof (cases "owned (?N i)")
      case own: True
      then show ?thesis using c'(3) True that unfolding separate_def by auto
    next
      case False
      then have "?N i = ?E i" "?N j = ?E j" using shared that True by auto
      then have "(of_nat i :: u32) = of_nat j"
        using ok that of_nat_index(2) unfolding space_ok_def by metis
      then show ?thesis using of_nat_index(1) that by blast
    qed
  next
    case False
    then show ?thesis using own[of i] own[of j] shared[of i] shared[of j] that c'(4) by auto
  qed
  have idx: "\<exists>n < 1024. i = of_nat n" if "i < 1024" for i :: u32
    using that by (intro exI[of _ "unat i"]) (simp add: word_less_nat_alt)
  have "table (get_entry (mem s) pd i) \<in> pmm_allocated s - {pd}" if "i < 1024" "present (get_entry (mem s) pd i)" for i
    using idx[OF that(1)] tab that by metis
  moreover have "i = j" if "i < 1024" "j < 1024" "present (get_entry (mem s) pd i) \<and> present (get_entry (mem s) pd j)
      \<and> table (get_entry (mem s) pd i) = table (get_entry (mem s) pd j)" for i j
    using idx[OF that(1)] idx[OF that(2)] inj that by metis
  ultimately show ?thesis
    using c'(1,5) unfolding space_ok_def by blast
qed

lemma vmm_create_cases:
  assumes inv: "pmm_inv s" and ok: "space_ok (pmm_allocated s) (mem s) (kernel_space s)"
  obtains (full) s' where "vmm_create_space s = Inr (0, s')" "pages_mem s s'" "pmm_inv s'"
    "pmm_allocated s' = pmm_allocated s" "same_entries (pmm_allocated s) (mem s) (mem s')"
  | (made) pd s' where "vmm_create_space s = Inr (pd, s')" "pd \<noteq> 0" "pages_mem s s'"
    "copied (pmm_allocated s) (mem s) (kernel_space s) pd 1024 s'"
proof (rule page_alloc_cases[OF inv])
  assume "pmm_alloc_page s = Inr (nullptr, s)"
  then show thesis using full[of s] inv by (simp add: vmm_create_space_def)
next
  fix pd bm u
  let ?s = "s\<lparr>bitmap := bm, used_pages := u\<rparr>" and ?U = "pmm_allocated s"
  assume page: "pmm_alloc_page s = Inr (pd, ?s)" "pd \<noteq> nullptr" "aligned pd" "pd \<notin> ?U" "pmm_inv ?s"
    "pmm_allocated ?s = insert pd ?U"
  have "copied ?U (mem s) (kernel_space s) pd 0 ?s"
    using page pmm.null_allocated[OF inv] by (simp add: copied_def separate_def tables_def)
  from copy_directory_ok[OF this _ ok] obtain ok s' where
    c: "copy_directory pd (kernel_space s) [0..<1024] ?s = Inr (ok, s')" "pages_mem ?s s'"
    "if ok then copied ?U (mem s) (kernel_space s) pd 1024 s'
     else pmm_inv s' \<and> pmm_allocated s' = ?U \<and> same_entries ?U (mem s) (mem s')" by auto
  have "vmm_create_space s = Inr (if ok then pd else 0, s')"
    using page(1,2) c(1) by (simp add: vmm_create_space_def del: upt_rec_numeral)
  moreover have "pages_mem s s'" using pages_mem_trans[OF _ c(2)] by simp
  ultimately show thesis using full[of s'] made[of pd s'] c(3) page(2) by (cases ok) auto
qed

lemma copied_destroy:
  assumes "copied U m K pd 1024 s"
  obtains bm u where "vmm_destroy_space pd s = Inr (s\<lparr>bitmap := bm, used_pages := u\<rparr>)"
    "pmm_inv (s\<lparr>bitmap := bm, used_pages := u\<rparr>)" "pmm_allocated (s\<lparr>bitmap := bm, used_pages := u\<rparr>) = U"
proof -
  have c: "pmm_inv s" "pd \<notin> U" "nullptr \<in> U" "separate (mem s) pd {..<1024}"
    "tables (mem s) pd {..<1024} \<inter> insert pd U = {}" "pmm_allocated s = insert pd U \<union> tables (mem s) pd {..<1024}"
    using assms unfolding copied_def by blast+
  have eq: "pmm_allocated s - tables (mem s) pd {..<1024} - {pd} = U" using c(2,5,6) by blast
  have "pd \<noteq> nullptr" "pd \<in> pmm_allocated s" "tables (mem s) pd {..<1024} \<subseteq> pmm_allocated s - {nullptr, pd}"
    using c by blast+
  from vmm_destroy_ok[OF c(1,4) this] show thesis using that unfolding eq by metis
qed

end
