(* ===== verification/Descriptors.thy ===== *)
theory Descriptors
  imports Terminal
begin

text \<open>
  The processor's tables: the segment descriptors of \<open>src/src/interrupts/gdt.cpp\<close>,
  the interrupt gates of \<open>src/src/interrupts/idt.cpp\<close> and the task state segment of
  \<open>src/src/interrupts/tss.cpp\<close>, with the exception handlers that report and stop
  (\<open>isr.cpp\<close>, \<open>gp.cpp\<close>, \<open>page_fault.cpp\<close>). Addresses of tables and of assembly
  stubs come from the linker and are arguments; loading a table into the processor
  (\<open>gdt_flush\<close>, \<open>idt_flush\<close>, \<open>tss_flush\<close>) is its last step and leaves the table
  unchanged.
\<close>

section \<open>gdt.cpp\<close>

record gdt_entry =
  limit_low :: u16
  base_low :: u16
  base_middle :: u8
  access :: u8
  granularity :: u8
  base_high :: u8

record gdt_ptr =
  gp_limit :: u16
  gp_base :: u32

definition zero_gdt_entry :: gdt_entry where
  "zero_gdt_entry = \<lparr>limit_low = 0, base_low = 0, base_middle = 0, access = 0, granularity = 0, base_high = 0\<rparr>"

definition gdt_set_gate :: "nat \<Rightarrow> u32 \<Rightarrow> u32 \<Rightarrow> u8 \<Rightarrow> u8 \<Rightarrow> gdt_entry list \<Rightarrow> gdt_entry list res" where
  "gdt_set_gate num base limit acc gran gdt =
     bindR (array_get gdt num) (\<lambda>e.
     array_set gdt num
       (e\<lparr>base_low := ucast (base AND 0xFFFF),
          base_middle := ucast (drop_bit 16 base AND 0xFF),
          base_high := ucast (drop_bit 24 base AND 0xFF),
          limit_low := ucast (limit AND 0xFFFF),
          granularity := ucast (drop_bit 16 limit AND 0x0F) OR (gran AND 0xF0),
          access := acc\<rparr>))"

definition gdt_init :: "u32 \<Rightarrow> gdt_entry list \<Rightarrow> (gdt_ptr \<times> gdt_entry list) res" where
  "gdt_init gdt_addr gdt =
     (let p = \<lparr>gp_limit = 8 * 6 - 1, gp_base = gdt_addr\<rparr> in
      bindR (gdt_set_gate 0 0 0 0 0 gdt) (\<lambda>gdt.
      bindR (gdt_set_gate 1 0 0xFFFFFFFF 0x9A 0xCF gdt) (\<lambda>gdt.
      bindR (gdt_set_gate 2 0 0xFFFFFFFF 0x92 0xCF gdt) (\<lambda>gdt.
      bindR (gdt_set_gate 3 0 0xFFFFFFFF 0xFA 0xCF gdt) (\<lambda>gdt.
      bindR (gdt_set_gate 4 0 0xFFFFFFFF 0xF2 0xCF gdt) (\<lambda>gdt.
      Inr (p, gdt)))))))"

section \<open>tss.cpp\<close>

record tss_entry =
  prev_tss :: u32
  tss_esp0 :: u32
  tss_ss0 :: u32
  tss_esp1 :: u32
  tss_ss1 :: u32
  tss_esp2 :: u32
  tss_ss2 :: u32
  tss_cr3 :: u32
  tss_eip :: u32
  tss_eflags :: u32
  tss_eax :: u32
  tss_ecx :: u32
  tss_edx :: u32
  tss_ebx :: u32
  tss_esp :: u32
  tss_ebp :: u32
  tss_esi :: u32
  tss_edi :: u32
  tss_es :: u32
  tss_cs :: u32
  tss_ss :: u32
  tss_ds :: u32
  tss_fs :: u32
  tss_gs :: u32
  tss_ldt :: u32
  tss_trap :: u16
  tss_iomap_base :: u16

definition zero_tss :: tss_entry where
  "zero_tss = \<lparr>prev_tss = 0, tss_esp0 = 0, tss_ss0 = 0, tss_esp1 = 0, tss_ss1 = 0, tss_esp2 = 0, tss_ss2 = 0, tss_cr3 = 0,
     tss_eip = 0, tss_eflags = 0, tss_eax = 0, tss_ecx = 0, tss_edx = 0, tss_ebx = 0, tss_esp = 0, tss_ebp = 0, tss_esi = 0, tss_edi = 0,
     tss_es = 0, tss_cs = 0, tss_ss = 0, tss_ds = 0, tss_fs = 0, tss_gs = 0, tss_ldt = 0, tss_trap = 0, tss_iomap_base = 0\<rparr>"

definition tss_set_kernel_stack :: "u32 \<Rightarrow> tss_entry \<Rightarrow> tss_entry" where
  "tss_set_kernel_stack stack t = t\<lparr>tss_esp0 := stack\<rparr>"

text \<open>\<open>sizeof(TSSEntry)\<close> is 25 words and two half words.\<close>

definition tss_init :: "u32 \<Rightarrow> u32 \<Rightarrow> tss_entry \<Rightarrow> gdt_entry list \<Rightarrow> (tss_entry \<times> gdt_entry list) res" where
  "tss_init tss_addr stack_top t gdt =
     (let t = zero_tss; limit = 104 - 1 in
      bindR (gdt_set_gate 5 tss_addr limit 0x89 0x40 gdt) (\<lambda>gdt.
      Inr (t\<lparr>tss_ss0 := 0x10, tss_esp0 := stack_top, tss_cs := 0x0B, tss_ss := 0x13, tss_ds := 0x13, tss_es := 0x13, tss_fs := 0x13,
             tss_gs := 0x13, tss_iomap_base := 104\<rparr>, gdt)))"

section \<open>idt.cpp\<close>

record idt_entry =
  off_low :: u16
  selector :: u16
  always0 :: u8
  gate_flags :: u8
  off_high :: u16

record idt_ptr =
  ip_limit :: u16
  ip_base :: u32

definition idt_set_gate :: "u8 \<Rightarrow> u32 \<Rightarrow> u16 \<Rightarrow> u8 \<Rightarrow> idt_entry list \<Rightarrow> idt_entry list res" where
  "idt_set_gate num base sel fl idt =
     bindR (array_get idt (unat num)) (\<lambda>e.
     array_set idt (unat num)
       (e\<lparr>off_low := ucast (base AND 0xFFFF), off_high := ucast (drop_bit 16 base AND 0xFFFF),
          selector := sel, always0 := 0, gate_flags := fl\<rparr>))"

text \<open>The addresses of the assembly stubs the gates point to.\<close>

record stubs =
  default_isr :: u32
  isr0 :: u32
  irq0_stub :: u32
  irq1_stub :: u32
  gp_stub :: u32
  page_fault_stub :: u32
  syscall_stub_addr :: u32

text \<open>The loop that sets every gate to the default stub, over the numbers in \<open>is\<close>.\<close>

fun idt_defaults :: "u32 \<Rightarrow> nat list \<Rightarrow> idt_entry list \<Rightarrow> idt_entry list res" where
  "idt_defaults addr [] idt = Inr idt"
| "idt_defaults addr (i # is) idt = bindR (idt_set_gate (of_nat i) addr 0x08 0x8E idt) (idt_defaults addr is)"

definition idt_init :: "u32 \<Rightarrow> stubs \<Rightarrow> idt_entry list \<Rightarrow> (idt_ptr \<times> idt_entry list) res" where
  "idt_init idt_addr st idt =
     (let p = \<lparr>ip_limit = 8 * 256 - 1, ip_base = idt_addr\<rparr> in
      bindR (idt_defaults (default_isr st) [0..<256] idt) (\<lambda>idt.
      bindR (idt_set_gate 0 (isr0 st) 0x08 0x8E idt) (\<lambda>idt.
      bindR (idt_set_gate 32 (irq0_stub st) 0x08 0x8E idt) (\<lambda>idt.
      bindR (idt_set_gate 33 (irq1_stub st) 0x08 0x8E idt) (\<lambda>idt.
      bindR (idt_set_gate 13 (gp_stub st) 0x08 0x8E idt) (\<lambda>idt.
      bindR (idt_set_gate 14 (page_fault_stub st) 0x08 0x8E idt) (\<lambda>idt.
      bindR (idt_set_gate 128 (syscall_stub_addr st) 0x08 0xEE idt) (\<lambda>idt.
      Inr (p, idt)))))))))"

section \<open>Exception reports\<close>

text \<open>\<open>default_interrupt_handler\<close> on the word that the stub left in \<open>default_vector\<close>.\<close>

definition default_interrupt_handler :: "u32 \<Rightarrow> terminal \<Rightarrow> terminal res" where
  "default_interrupt_handler default_vector t =
     bindR (term_write ''INT? vec='' t) (\<lambda>t.
     bindR (itoa default_vector) (\<lambda>buf.
     bindR (term_write buf t) (\<lambda>t.
     term_write [CHR 0x0A] t)))"

text \<open>\<open>gp_print\<close> and \<open>pf_print\<close> are the same function in two files.\<close>

definition gp_print :: "string \<Rightarrow> u32 \<Rightarrow> terminal \<Rightarrow> terminal res" where
  "gp_print label v t =
     bindR (itoa v) (\<lambda>buf.
     bindR (term_write label t) (\<lambda>t.
     bindR (term_write buf t) (\<lambda>t.
     term_write [CHR 0x0A] t)))"

definition pf_print :: "string \<Rightarrow> u32 \<Rightarrow> terminal \<Rightarrow> terminal res" where
  "pf_print label v t =
     bindR (itoa v) (\<lambda>buf.
     bindR (term_write label t) (\<lambda>t.
     bindR (term_write buf t) (\<lambda>t.
     term_write [CHR 0x0A] t)))"

text \<open>The loop of \<open>gp_handler\<close> over the stack words with the numbers in \<open>is\<close>.\<close>

fun gp_dump :: "memory \<Rightarrow> u32 \<Rightarrow> nat list \<Rightarrow> terminal \<Rightarrow> terminal res" where
  "gp_dump m stack [] t = Inr t"
| "gp_dump m stack (i # is) t =
     bindR (term_write [CHR ''['', char_of (48 + i div 10), char_of (48 + i mod 10), CHR '']'', CHR ''=''] t) (\<lambda>t.
     bindR (gp_print [] (rd32 m (stack + 4 * of_nat i)) t) (gp_dump m stack is))"

text \<open>The handlers end in \<open>PANIC\<close>: the result is the screen when the machine stops.\<close>

definition gp_handler :: "u32 \<Rightarrow> u32 \<Rightarrow> memory \<Rightarrow> u32 \<Rightarrow> terminal \<Rightarrow> terminal res" where
  "gp_handler gp_err gp_eip m stack t =
     bindR (term_write (''#GP'' @ [CHR 0x0A]) t) (\<lambda>t.
     bindR (gp_print '' err='' gp_err t) (\<lambda>t.
     bindR (gp_print '' eip='' gp_eip t) (\<lambda>t.
     bindR (gp_dump m stack [0..<12] t) (\<lambda>t.
     panic ''#GP'' ''src/interrupts/gp.cpp'' 38 t))))"

definition page_fault_handler :: "u32 \<Rightarrow> u32 \<Rightarrow> terminal \<Rightarrow> terminal res" where
  "page_fault_handler pf_err cr2 t =
     bindR (term_write (''PAGE FAULT'' @ [CHR 0x0A]) t) (\<lambda>t.
     bindR (pf_print '' err='' pf_err t) (\<lambda>t.
     bindR (pf_print '' cr2='' cr2 t) (\<lambda>t.
     panic ''PAGE FAULT'' ''src/interrupts/page_fault.cpp'' 29 t)))"

section \<open>What the processor reads from the tables\<close>

text \<open>The handler's address in a gate; the base, the limit and the flags of a segment.\<close>

definition gate_target :: "idt_entry \<Rightarrow> u32" where
  "gate_target e = ucast (off_low e) OR push_bit 16 (ucast (off_high e))"

definition seg_base :: "gdt_entry \<Rightarrow> u32" where
  "seg_base e = ucast (base_low e) OR push_bit 16 (ucast (base_middle e)) OR push_bit 24 (ucast (base_high e))"

definition seg_limit :: "gdt_entry \<Rightarrow> u32" where
  "seg_limit e = ucast (limit_low e) OR push_bit 16 (ucast (granularity e AND 0x0F))"

lemma masks: "(0xFFFF :: u32) = mask 16" "(0xFF :: u32) = mask 8" "(0x0F :: u32) = mask 4" "(0xF0 :: u8) = push_bit 4 (mask 4)"
  "(0x0F :: u8) = mask 4"
  by (simp_all add: mask_numeral)

lemma halves_join:
  "ucast (ucast (b AND 0xFFFF) :: u16) OR push_bit 16 (ucast (ucast (drop_bit 16 b AND 0xFFFF) :: u16)) = (b :: u32)"
  unfolding masks by (rule bit_word_eqI) (auto simp: bit_simps)

definition gate_view :: "idt_entry \<Rightarrow> u32 \<times> u16 \<times> u8" where
  "gate_view e = (gate_target e, selector e, gate_flags e)"

lemma idt_set_gate_ok:
  assumes "length idt = 256"
  obtains idt' where "idt_set_gate n base sel fl idt = Inr idt'" "length idt' = 256"
    "map gate_view idt' = (map gate_view idt)[unat n := (base, sel, fl)]"
proof -
  have n: "unat n < length idt" using assms unsigned_less[of n, where 'a = nat] by simp
  have "idt_set_gate n base sel fl idt = Inr (idt[unat n := (idt ! unat n)\<lparr>off_low := ucast (base AND 0xFFFF),
      off_high := ucast (drop_bit 16 base AND 0xFFFF), selector := sel, always0 := 0, gate_flags := fl\<rparr>])"
    using n by (simp add: idt_set_gate_def)
  then show thesis
    by (rule that) (use assms in \<open>simp_all add: gate_view_def gate_target_def halves_join map_update\<close>)
qed

lemma idt_defaults_ok:
  assumes "length idt = 256" and "set is \<subseteq> {..<256}"
  shows "\<exists>idt'. idt_defaults addr is idt = Inr idt' \<and> length idt' = 256
    \<and> (\<forall>k < 256. map gate_view idt' ! k = (if k \<in> set is then (addr, 0x08, 0x8E) else map gate_view idt ! k))"
  using assms
proof (induction "is" arbitrary: idt)
  case (Cons i "is")
  obtain idt1 where g: "idt_set_gate (of_nat i) addr 0x08 0x8E idt = Inr idt1" "length idt1 = 256"
    "map gate_view idt1 = (map gate_view idt)[unat (of_nat i :: u8) := (addr, 0x08, 0x8E)]"
    by (rule idt_set_gate_ok[OF Cons.prems(1)])
  have i: "unat (of_nat i :: u8) = i" "i < 256" using Cons.prems(2) by (simp_all add: unat_of_nat)
  have "set is \<subseteq> {..<256}" using Cons.prems(2) by simp
  from Cons.IH[OF g(2) this] obtain idt' where "idt_defaults addr is idt1 = Inr idt'" "length idt' = 256"
    "\<forall>k < 256. map gate_view idt' ! k = (if k \<in> set is then (addr, 0x08, 0x8E) else map gate_view idt1 ! k)" by blast
  then show ?case
    using g(1) Cons.prems(1) i unfolding g(3) by (auto simp: nth_list_update simp del: nth_map)
qed simp

text \<open>The stub each interrupt must reach.\<close>

definition handler_of :: "stubs \<Rightarrow> nat \<Rightarrow> u32" where
  "handler_of st n = (if n = 0 then isr0 st else if n = 13 then gp_stub st else if n = 14 then page_fault_stub st
     else if n = 32 then irq0_stub st else if n = 33 then irq1_stub st else if n = 128 then syscall_stub_addr st
     else default_isr st)"

section \<open>Properties\<close>

text \<open>C37: \<open>idt_init\<close> fills all 256 gates: every interrupt number reaches its stub through the
  kernel code segment, and only the system call gate 128 may be used from user mode
  (flags 0xEE against 0x8E).\<close>

theorem idt_init_gates:
  assumes "length idt = 256"
  shows "\<exists>p idt'. idt_init idt_addr st idt = Inr (p, idt') \<and> ip_base p = idt_addr \<and> ip_limit p = 2047
    \<and> map gate_view idt' = map (\<lambda>n. (handler_of st n, 0x08, if n = 128 then 0xEE else 0x8E)) [0..<256]"
proof -
  have "set [0..<256] \<subseteq> {..<256}" by auto
  from idt_defaults_ok[OF assms this] obtain i0 where i0: "idt_defaults (default_isr st) [0..<256] idt = Inr i0"
    "length i0 = 256" "\<forall>k < 256. map gate_view i0 ! k = (default_isr st, 0x08, 0x8E)"
    by (auto simp del: upt_rec_numeral nth_map)
  obtain i1 where i1: "idt_set_gate 0 (isr0 st) 0x08 0x8E i0 = Inr i1" "length i1 = 256"
    "map gate_view i1 = (map gate_view i0)[unat (0 :: u8) := (isr0 st, 0x08, 0x8E)]"
    by (rule idt_set_gate_ok[OF i0(2)])
  obtain i2 where i2: "idt_set_gate 32 (irq0_stub st) 0x08 0x8E i1 = Inr i2" "length i2 = 256"
    "map gate_view i2 = (map gate_view i1)[unat (32 :: u8) := (irq0_stub st, 0x08, 0x8E)]"
    by (rule idt_set_gate_ok[OF i1(2)])
  obtain i3 where i3: "idt_set_gate 33 (irq1_stub st) 0x08 0x8E i2 = Inr i3" "length i3 = 256"
    "map gate_view i3 = (map gate_view i2)[unat (33 :: u8) := (irq1_stub st, 0x08, 0x8E)]"
    by (rule idt_set_gate_ok[OF i2(2)])
  obtain i4 where i4: "idt_set_gate 13 (gp_stub st) 0x08 0x8E i3 = Inr i4" "length i4 = 256"
    "map gate_view i4 = (map gate_view i3)[unat (13 :: u8) := (gp_stub st, 0x08, 0x8E)]"
    by (rule idt_set_gate_ok[OF i3(2)])
  obtain i5 where i5: "idt_set_gate 14 (page_fault_stub st) 0x08 0x8E i4 = Inr i5" "length i5 = 256"
    "map gate_view i5 = (map gate_view i4)[unat (14 :: u8) := (page_fault_stub st, 0x08, 0x8E)]"
    by (rule idt_set_gate_ok[OF i4(2)])
  obtain i6 where i6: "idt_set_gate 128 (syscall_stub_addr st) 0x08 0xEE i5 = Inr i6" "length i6 = 256"
    "map gate_view i6 = (map gate_view i5)[unat (128 :: u8) := (syscall_stub_addr st, 0x08, 0xEE)]"
    by (rule idt_set_gate_ok[OF i5(2)])
  have "map gate_view i6 = map (\<lambda>n. (handler_of st n, 0x08, if n = 128 then 0xEE else 0x8E)) [0..<256]"
    unfolding i6(3) i5(3) i4(3) i3(3) i2(3) i1(3)
    by (rule nth_equalityI)
      (use i0(2,3) in \<open>simp_all add: nth_list_update handler_of_def del: upt_rec_numeral nth_map[of _ i0]\<close>)
  then show ?thesis
    using i0(1) i1(1) i2(1) i3(1) i4(1) i5(1) i6(1) by (simp add: idt_init_def del: upt_rec_numeral)
qed

text \<open>The table as the loader leaves it, and some stub addresses.\<close>

definition boot_idt :: "idt_entry list" where
  "boot_idt = replicate 256 \<lparr>off_low = 0, selector = 0, always0 = 0, gate_flags = 0, off_high = 0\<rparr>"

definition demo_stubs :: stubs where
  "demo_stubs = \<lparr>default_isr = 0x100100, isr0 = 0x100200, irq0_stub = 0x100300, irq1_stub = 0x100400,
     gp_stub = 0x100500, page_fault_stub = 0x100600, syscall_stub_addr = 0x100700\<rparr>"

theorem idt_init_gates_witness:
  "\<exists>p idt'. idt_init 0x5000 demo_stubs boot_idt = Inr (p, idt') \<and> map gate_view idt' ! 128 = (0x100700, 0x08, 0xEE)"
proof -
  have "length boot_idt = 256" unfolding boot_idt_def by (rule length_replicate)
  from idt_init_gates[OF this, of "0x5000" demo_stubs] obtain p idt' where i: "idt_init 0x5000 demo_stubs boot_idt = Inr (p, idt')"
    "map gate_view idt' = map (\<lambda>n. (handler_of demo_stubs n, 0x08, if n = 128 then 0xEE else 0x8E)) [0..<256]" by blast
  have "map gate_view idt' ! 128 = (0x100700, 0x08, 0xEE)"
    unfolding i(2) by (simp add: handler_of_def demo_stubs_def del: upt_rec_numeral)
  then show ?thesis using i(1) by blast
qed

text \<open>A segment descriptor written by \<open>gdt_set_gate\<close> reads back as it was given: the base, the
  low 20 bits of the limit, the access byte and the four flag bits; no other
  descriptor changes.\<close>

theorem gdt_set_gate_decodes:
  assumes "num < length gdt"
  shows "\<exists>gdt'. gdt_set_gate num base limit acc gran gdt = Inr gdt' \<and> length gdt' = length gdt
    \<and> seg_base (gdt' ! num) = base \<and> seg_limit (gdt' ! num) = limit AND 0xFFFFF
    \<and> access (gdt' ! num) = acc \<and> granularity (gdt' ! num) AND 0xF0 = gran AND 0xF0
    \<and> (\<forall>k. k \<noteq> num \<longrightarrow> gdt' ! k = gdt ! k)"
proof -
  let ?e = "(gdt ! num)\<lparr>base_low := ucast (base AND 0xFFFF), base_middle := ucast (drop_bit 16 base AND 0xFF),
      base_high := ucast (drop_bit 24 base AND 0xFF), limit_low := ucast (limit AND 0xFFFF),
      granularity := ucast (drop_bit 16 limit AND 0x0F) OR (gran AND 0xF0), access := acc\<rparr>"
  have "(0xFFFFF :: u32) = mask 20" by (simp add: mask_numeral)
  note m = masks this
  have "gdt_set_gate num base limit acc gran gdt = Inr (gdt[num := ?e])" using assms by (simp add: gdt_set_gate_def)
  moreover have "seg_base ?e = base"
  proof (rule bit_word_eqI)
    fix n assume n: "n < LENGTH(32)"
    consider "n < 16" | "16 \<le> n" "n < 24" | "24 \<le> n" by linarith
    then show "bit (seg_base ?e) n = bit base n"
      unfolding seg_base_def m by cases (use n in \<open>auto simp: bit_simps\<close>)
  qed
  moreover have "seg_limit ?e = limit AND 0xFFFFF"
    unfolding seg_limit_def m by (rule bit_word_eqI) (auto simp: bit_simps)
  moreover have "granularity ?e AND 0xF0 = gran AND 0xF0"
    unfolding m by (rule bit_word_eqI) (auto simp: bit_simps)
  ultimately show ?thesis using assms by auto
qed

theorem gdt_set_gate_decodes_witness:
  "\<exists>gdt'. gdt_set_gate 5 0x12345678 103 0x89 0x40 (replicate 6 zero_gdt_entry) = Inr gdt' \<and> seg_base (gdt' ! 5) = 0x12345678"
proof -
  have "5 < length (replicate 6 zero_gdt_entry)" by simp
  from gdt_set_gate_decodes[OF this, of "0x12345678" 103 "0x89" "0x40"] show ?thesis by blast
qed

end
