(* ===== verification/Process.thy ===== *)
theory Process
  imports Vmm_Correct Descriptors
begin

text \<open>
  Processes and scheduling: \<open>src/src/process/process.cpp\<close>,
  \<open>src/src/scheduler/scheduler.cpp\<close> and \<open>src/src/scheduler/task.cpp\<close>. A \<open>Process\<close>
  object is in a store indexed by its address; the address comes from \<open>kmalloc\<close> and
  goes back with \<open>kfree\<close>, and using an address without an object is the fault
  \<open>Out_of_bounds\<close>. The message queues of \<open>src/src/ipc/ipc.hpp\<close> are in a store of the
  same kind. Kernel stacks and the frames on them are in byte memory.
\<close>

section \<open>State\<close>

datatype task_state = TASK_FREE | TASK_READY | TASK_RUNNING | TASK_BLOCKED | TASK_DEAD
datatype process_ring = RING_KERNEL | RING_USER

record process =
  pid :: u32
  parent_pid :: u32
  state :: task_state
  ring :: process_ring
  address_space :: u32
  kernel_stack :: u32
  kernel_stack_top :: u32
  kernel_stack_bottom :: u32
  saved_esp :: u32
  user_entry :: u32
  user_esp :: u32
  exit_code :: int
  main_task :: u32
  msg_queue :: u32

text \<open>What \<open>kmalloc\<close> leaves in a new object: zeros.\<close>

definition zero_process :: process where
  "zero_process = \<lparr>pid = 0, parent_pid = 0, state = TASK_FREE, ring = RING_KERNEL, address_space = 0,
     kernel_stack = 0, kernel_stack_top = 0, kernel_stack_bottom = 0, saved_esp = 0, user_entry = 0,
     user_esp = 0, exit_code = 0, main_task = 0, msg_queue = 0\<rparr>"

record ipc_msg =
  sender_pid :: u32
  msg_size :: u32
  msg_data :: "u8 list"

record ipc_queue =
  msgs :: "ipc_msg list"
  qhead :: int
  qtail :: int
  qcount :: int

record task =
  t_pid :: u32
  t_state :: task_state
  t_entry :: u32
  t_esp :: u32
  t_stack_bottom :: u32
  t_stack_size :: u32
  t_process :: u32

record proc_state = vmm_state +
  procs :: "u32 \<Rightarrow> process option"
  queues :: "u32 \<Rightarrow> ipc_queue option"
  next_pid :: u32
  process_table :: "u32 list"
  process_count :: int
  current_process :: int
  tss :: tss_entry
  tasks :: "task list"
  task_count_value :: int
  task_next_pid :: u32

definition KERNEL_STACK_BYTES :: u32 where "KERNEL_STACK_BYTES = 2 * 4096"
definition MAX_PROCESSES :: int where "MAX_PROCESSES = 16"

text \<open>\<open>p->...\<close> as a read and as a write.\<close>

definition get_proc :: "u32 \<Rightarrow> 'z proc_state_scheme \<Rightarrow> process res" where
  "get_proc p s = (case procs s p of None \<Rightarrow> Inl Out_of_bounds | Some x \<Rightarrow> Inr x)"

definition set_proc :: "u32 \<Rightarrow> (process \<Rightarrow> process) \<Rightarrow> 'z proc_state_scheme \<Rightarrow> 'z proc_state_scheme res" where
  "set_proc p f s = bindR (get_proc p s) (\<lambda>x. Inr (s\<lparr>procs := (procs s)(p \<mapsto> f x)\<rparr>))"

definition free_proc :: "u32 \<Rightarrow> 'z proc_state_scheme \<Rightarrow> 'z proc_state_scheme res" where
  "free_proc p s = bindR (kfree p s) (\<lambda>s. Inr (s\<lparr>procs := (procs s)(p := None)\<rparr>))"

section \<open>process.cpp\<close>

definition push :: "u32 \<Rightarrow> u32 \<times> memory \<Rightarrow> u32 \<times> memory" where
  "push v = (\<lambda>(sp, m). (sp - 4, wr32 m (sp - 4) v))"

definition register_process :: "u32 \<Rightarrow> 'z proc_state_scheme \<Rightarrow> 'z proc_state_scheme res" where
  "register_process proc s =
     (if process_count s \<ge> MAX_PROCESSES then Inl (Panic ''process: table full'')
      else bindR (array_set (process_table s) (nat (process_count s)) proc) (\<lambda>t.
           Inr (s\<lparr>process_table := t, process_count := process_count s + 1\<rparr>)))"

text \<open>The result is the stack and the value left in \<open>out_bottom\<close>, which the callers set to 0
  before. The function calls itself again when the two pages are not adjacent.\<close>

partial_function (option) alloc_kernel_stack ::
    "'z proc_state_scheme \<Rightarrow> (u32 \<times> u32 \<times> 'z proc_state_scheme) res option" where
  "alloc_kernel_stack s =
     (case bindR (pmm_alloc_page s) (\<lambda>(lo, s). bindR (pmm_alloc_page s) (\<lambda>(hi, s). Inr (lo, hi, s))) of
        Inl e \<Rightarrow> Some (Inl e)
      | Inr (lo, hi, s) \<Rightarrow>
          if lo = nullptr \<or> hi = nullptr
          then Some (bindR (if lo \<noteq> nullptr then pmm_free_page lo s else Inr s) (\<lambda>s.
                     bindR (if hi \<noteq> nullptr then pmm_free_page hi s else Inr s) (\<lambda>s.
                     Inr (nullptr, 0, s))))
          else if hi \<noteq> lo + 4096
          then (case bindR (pmm_free_page lo s) (pmm_free_page hi) of
                  Inl e \<Rightarrow> Some (Inl e)
                | Inr s \<Rightarrow> alloc_kernel_stack s)
          else Some (Inr (lo, lo, s\<lparr>mem := memset (mem s) lo 0 KERNEL_STACK_BYTES\<rparr>)))"

definition build_user_frame :: "u32 \<Rightarrow> u32 \<Rightarrow> u32 \<Rightarrow> memory \<Rightarrow> u32 \<times> memory" where
  "build_user_frame sp entry uesp m =
     fold push [0x23, uesp, 0x202, 0x1B, entry, 0, 0, 0, 0, 0, 0, 0, 0] (sp, m)"

definition build_kernel_frame :: "u32 \<Rightarrow> u32 \<Rightarrow> u32 \<Rightarrow> memory \<Rightarrow> u32 \<times> memory" where
  "build_kernel_frame sp entry initial_esp m =
     fold push [0x202, 0x08, entry, 0, 0, 0, 0, 0, 0, 0, 0] (sp, m)"

definition process_create :: "u32 \<Rightarrow> u32 \<Rightarrow> u32 \<Rightarrow> 'z proc_state_scheme \<Rightarrow> (u32 \<times> 'z proc_state_scheme) res" where
  "process_create entry uentry uesp s =
     bindR (kmalloc 52 s) (\<lambda>(proc, s).
     if proc = nullptr then Inr (nullptr, s)
     else
       let p = zero_process\<lparr>pid := next_pid s, parent_pid := 1, state := TASK_READY, ring := RING_USER, exit_code := 0\<rparr>;
           s = s\<lparr>procs := (procs s)(proc \<mapsto> p), next_pid := next_pid s + 1\<rparr>
       in bindR (vmm_create_space s) (\<lambda>(space, s).
          bindR (set_proc proc (\<lambda>p. p\<lparr>address_space := space\<rparr>) s) (\<lambda>s.
          if space = 0 then bindR (free_proc proc s) (\<lambda>s. Inr (nullptr, s))
          else
            bindR (user_install_into_space space s) (\<lambda>s.
            bindR (set_proc proc (\<lambda>p. p\<lparr>kernel_stack := 0, kernel_stack_top := 0, kernel_stack_bottom := 0,
                     saved_esp := 0, user_entry := uentry, user_esp := uesp, main_task := nullptr,
                     msg_queue := nullptr\<rparr>) s) (\<lambda>s.
            bindR (bindR (returns (alloc_kernel_stack s)) id) (\<lambda>(kstack, bottom, s).
            if kstack = nullptr then bindR (free_proc proc s) (\<lambda>s. Inr (nullptr, s))
            else
              let (sp, m) = build_user_frame (kstack + KERNEL_STACK_BYTES) uentry uesp (mem s)
              in bindR (set_proc proc (\<lambda>p. p\<lparr>kernel_stack_bottom := bottom, kernel_stack_top := sp,
                          kernel_stack := kstack + KERNEL_STACK_BYTES\<rparr>) (s\<lparr>mem := m\<rparr>)) (\<lambda>s.
                 bindR (register_process proc s) (\<lambda>s. Inr (proc, s)))))))))"

definition process_create_kernel :: "u32 \<Rightarrow> 'z proc_state_scheme \<Rightarrow> (u32 \<times> 'z proc_state_scheme) res" where
  "process_create_kernel entry s =
     bindR (kmalloc 52 s) (\<lambda>(proc, s).
     if proc = nullptr then Inr (nullptr, s)
     else
       let p = zero_process\<lparr>pid := next_pid s, parent_pid := 1, state := TASK_READY, ring := RING_KERNEL,
                 address_space := vmm_get_kernel_space s, exit_code := 0, kernel_stack := 0,
                 kernel_stack_top := 0, kernel_stack_bottom := 0, saved_esp := 0, user_entry := 0,
                 user_esp := 0, main_task := nullptr, msg_queue := nullptr\<rparr>;
           s = s\<lparr>procs := (procs s)(proc \<mapsto> p), next_pid := next_pid s + 1\<rparr>
       in bindR (bindR (returns (alloc_kernel_stack s)) id) (\<lambda>(kstack, bottom, s).
          if kstack = nullptr then bindR (free_proc proc s) (\<lambda>s. Inr (nullptr, s))
          else
            let (sp, m) = build_kernel_frame (kstack + KERNEL_STACK_BYTES) entry (kstack + KERNEL_STACK_BYTES) (mem s)
            in bindR (set_proc proc (\<lambda>p. p\<lparr>kernel_stack_bottom := bottom, kernel_stack_top := sp,
                        kernel_stack := kstack + KERNEL_STACK_BYTES\<rparr>) (s\<lparr>mem := m\<rparr>)) (\<lambda>s.
               bindR (register_process proc s) (\<lambda>s. Inr (proc, s)))))"

text \<open>The loop of \<open>process_destroy\<close> over the table positions in \<open>is\<close>: the last entry takes
  the place of the one removed.\<close>

fun remove_process :: "u32 \<Rightarrow> nat list \<Rightarrow> 'z proc_state_scheme \<Rightarrow> 'z proc_state_scheme res" where
  "remove_process proc [] s = Inr s"
| "remove_process proc (i # is) s =
     bindR (array_get (process_table s) i) (\<lambda>p.
     if p = proc
     then let n = process_count s - 1
          in bindR (array_get (process_table s) (nat n)) (\<lambda>last.
             bindR (array_set (process_table s) i last) (\<lambda>t.
             Inr (s\<lparr>process_table := t, process_count := n\<rparr>)))
     else remove_process proc is s)"

definition process_destroy :: "u32 \<Rightarrow> 'z proc_state_scheme \<Rightarrow> 'z proc_state_scheme res" where
  "process_destroy proc s =
     (if proc = nullptr then Inr s
      else
        bindR (set_proc proc (\<lambda>p. p\<lparr>state := TASK_DEAD\<rparr>) s) (\<lambda>s.
        bindR (get_proc proc s) (\<lambda>p.
        bindR (if ring p = RING_USER \<and> address_space p \<noteq> vmm_get_kernel_space s
               then vmm_destroy_space (address_space p) s else Inr s) (\<lambda>s.
        bindR (if kernel_stack_bottom p \<noteq> 0
               then bindR (pmm_free_page (kernel_stack_bottom p) s) (pmm_free_page (kernel_stack_bottom p + 4096))
               else Inr s) (\<lambda>s.
        bindR (if msg_queue p \<noteq> nullptr
               then bindR (kfree (msg_queue p) s) (\<lambda>s. Inr (s\<lparr>queues := (queues s)(msg_queue p := None)\<rparr>))
               else Inr s) (\<lambda>s.
        bindR (remove_process proc [0..<nat (process_count s)] s) (\<lambda>s.
        free_proc proc s)))))))"

definition process_get :: "int \<Rightarrow> 'z proc_state_scheme \<Rightarrow> u32 res" where
  "process_get index s =
     (if index < 0 \<or> index \<ge> process_count s then Inr nullptr
      else array_get (process_table s) (nat index))"

definition process_total :: "'z proc_state_scheme \<Rightarrow> int" where
  "process_total s = process_count s"

definition process_switch :: "u32 \<Rightarrow> u32 \<Rightarrow> 'z proc_state_scheme \<Rightarrow> 'z proc_state_scheme res" where
  "process_switch prev nxt s =
     (if nxt = nullptr then Inr s
      else bindR (get_proc nxt s) (\<lambda>p.
        let s = (if kernel_stack p \<noteq> 0 then s\<lparr>tss := tss_set_kernel_stack (kernel_stack p) (tss s)\<rparr> else s)
        in Inr (if address_space p \<noteq> 0 then vmm_switch (address_space p) s else s)))"

definition process_kernel_esp :: "u32 \<Rightarrow> 'z proc_state_scheme \<Rightarrow> u32 res" where
  "process_kernel_esp proc s = bindR (get_proc proc s) (\<lambda>p. Inr (kernel_stack_top p))"

section \<open>scheduler.cpp\<close>

definition scheduler_init :: "'z proc_state_scheme \<Rightarrow> 'z proc_state_scheme" where
  "scheduler_init s = s\<lparr>current_process := -1\<rparr>"

definition scheduler_mark_current :: "int \<Rightarrow> 'z proc_state_scheme \<Rightarrow> 'z proc_state_scheme" where
  "scheduler_mark_current idx s = s\<lparr>current_process := idx\<rparr>"

definition scheduler_current_idx :: "'z proc_state_scheme \<Rightarrow> int" where
  "scheduler_current_idx s = current_process s"

definition scheduler_current_process :: "'z proc_state_scheme \<Rightarrow> u32 res" where
  "scheduler_current_process s =
     (if current_process s < 0 then Inr nullptr else process_get (current_process s) s)"

definition scheduler_mark_dead :: "'z proc_state_scheme \<Rightarrow> 'z proc_state_scheme res" where
  "scheduler_mark_dead s =
     bindR (if current_process s \<ge> 0 then process_get (current_process s) s else Inr nullptr) (\<lambda>p.
     if p \<noteq> nullptr then set_proc p (\<lambda>x. x\<lparr>state := TASK_DEAD\<rparr>) s else Inr s)"

text \<open>The loop of \<open>find_next\<close> over the steps still to try. \<open>from\<close> is at least -1 and a step is
  at least 1, so the remainder is that of a number that is not negative.\<close>

fun find_step :: "int \<Rightarrow> int list \<Rightarrow> 'z proc_state_scheme \<Rightarrow> int res" where
  "find_step from [] s = Inr (-1)"
| "find_step from (step # steps) s =
     (let idx = (from + step) mod process_total s
      in bindR (process_get idx s) (\<lambda>p.
         if p = nullptr then find_step from steps s
         else bindR (get_proc p s) (\<lambda>x.
              if state x \<noteq> TASK_DEAD \<and> state x \<noteq> TASK_BLOCKED then Inr idx
              else find_step from steps s)))"

definition find_next :: "int \<Rightarrow> 'z proc_state_scheme \<Rightarrow> int res" where
  "find_next from s =
     (let total = process_total s
      in if total = 0 then Inr (-1) else find_step from [1..total] s)"

definition scheduler_tick :: "u32 \<Rightarrow> 'z proc_state_scheme \<Rightarrow> (u32 \<times> 'z proc_state_scheme) res" where
  "scheduler_tick current_esp s =
     (if process_total s = 0 then Inr (current_esp, s)
      else
        let prev = current_process s in
        bindR (if prev \<ge> 0 then process_get prev s else Inr nullptr) (\<lambda>prev_p.
        bindR (if prev_p = nullptr then Inr s
               else set_proc prev_p (\<lambda>x.
                      if state x = TASK_RUNNING then x\<lparr>state := TASK_READY, saved_esp := current_esp\<rparr>
                      else if state x = TASK_BLOCKED then x\<lparr>saved_esp := current_esp\<rparr>
                      else x) s) (\<lambda>s.
        bindR (find_next prev s) (\<lambda>next_idx.
        bindR (if next_idx \<ge> 0 then process_get next_idx s else Inr nullptr) (\<lambda>next_p.
        if next_p = nullptr then Inr (current_esp, s)
        else
          bindR (process_switch prev_p next_p s) (\<lambda>s.
          bindR (set_proc next_p (\<lambda>x. x\<lparr>state := TASK_RUNNING\<rparr>) s) (\<lambda>s.
          let s = s\<lparr>current_process := next_idx\<rparr>
          in bindR (get_proc next_p s) (\<lambda>x.
             Inr (if saved_esp x \<noteq> 0 then saved_esp x else kernel_stack_top x, s)))))))))"

section \<open>process.cpp, entering and leaving a process\<close>

text \<open>The loop of \<open>process_first_enter\<close> over the positions in \<open>is\<close>.\<close>

fun mark_entered :: "u32 \<Rightarrow> int list \<Rightarrow> 'z proc_state_scheme \<Rightarrow> 'z proc_state_scheme res" where
  "mark_entered proc [] s = Inr s"
| "mark_entered proc (i # is) s =
     bindR (process_get i s) (\<lambda>p.
     if p = proc then Inr (scheduler_mark_current i s) else mark_entered proc is s)"

text \<open>\<open>process_first_enter\<close> does not return: its result is the stack pointer from which
  \<open>process_first_enter_asm\<close> pops the registers and the interrupt frame. Without a
  process it halts for good.\<close>

definition process_first_enter :: "u32 \<Rightarrow> 'z proc_state_scheme \<Rightarrow> (u32 \<times> 'z proc_state_scheme) res" where
  "process_first_enter proc s =
     (if proc = nullptr then Inl Diverges
      else
        bindR (set_proc proc (\<lambda>x. x\<lparr>state := TASK_RUNNING\<rparr>) s) (\<lambda>s.
        bindR (process_switch nullptr proc s) (\<lambda>s.
        bindR (mark_entered proc [0..15] s) (\<lambda>s.
        bindR (get_proc proc s) (\<lambda>x. Inr (kernel_stack_top x, s))))))"

definition process_current :: "'z proc_state_scheme \<Rightarrow> u32 res" where
  "process_current s =
     (let idx = scheduler_current_idx s in if idx < 0 then Inr nullptr else process_get idx s)"

text \<open>The state in which \<open>process_exit_current\<close> halts, waiting for the next timer interrupt.\<close>

definition process_exit_current :: "int \<Rightarrow> 'z proc_state_scheme \<Rightarrow> 'z proc_state_scheme res" where
  "process_exit_current code s =
     bindR (process_current s) (\<lambda>me.
     if me \<noteq> nullptr then set_proc me (\<lambda>x. x\<lparr>exit_code := code, state := TASK_DEAD\<rparr>) s else Inr s)"

definition process_set_entry :: "u32 \<Rightarrow> u32 \<Rightarrow> u32 \<Rightarrow> 'z proc_state_scheme \<Rightarrow> 'z proc_state_scheme res" where
  "process_set_entry proc entry uesp s =
     (if proc = nullptr then Inr s
      else
        bindR (set_proc proc (\<lambda>x. x\<lparr>user_entry := entry, user_esp := uesp\<rparr>) s) (\<lambda>s.
        bindR (get_proc proc s) (\<lambda>x.
        let (sp, m) = build_user_frame (kernel_stack_bottom x + 8192) entry uesp (mem s)
        in set_proc proc (\<lambda>x. x\<lparr>kernel_stack_top := sp\<rparr>) (s\<lparr>mem := m\<rparr>))))"

section \<open>task.cpp\<close>

text \<open>The search loop of \<open>task_create\<close> over the slots in \<open>is\<close>: the first free slot.\<close>

fun free_slot :: "nat list \<Rightarrow> task list \<Rightarrow> nat option res" where
  "free_slot [] ts = Inr None"
| "free_slot (i # is) ts =
     bindR (array_get ts i) (\<lambda>t. if t_state t = TASK_FREE then Inr (Some i) else free_slot is ts)"

text \<open>The result is the slot (the address of a task is a slot of the static array), or
  \<open>None\<close> for the null pointer.\<close>

definition task_create :: "u32 \<Rightarrow> u32 \<Rightarrow> u32 \<Rightarrow> 'z proc_state_scheme \<Rightarrow> (nat option \<times> 'z proc_state_scheme) res" where
  "task_create task_trampoline entry process s =
     bindR (pmm_alloc_page s) (\<lambda>(stack, s).
     if stack = nullptr then Inr (None, s)
     else
       let (sp, m) = fold push [0x202, 0x08, task_trampoline, entry, 0, 0, 0, 0, 0, 0, 0]
                       (stack + 4 * 1024, memset (mem s) stack 0 4096);
           s = s\<lparr>mem := m\<rparr>
       in bindR (free_slot [0..<16] (tasks s)) (\<lambda>slot.
          case slot of
            Some i \<Rightarrow>
              bindR (array_set (tasks s) i \<lparr>t_pid = task_next_pid s, t_state = TASK_READY, t_entry = entry,
                t_esp = sp, t_stack_bottom = stack, t_stack_size = 4096, t_process = process\<rparr>) (\<lambda>ts.
              Inr (Some i, s\<lparr>tasks := ts, task_next_pid := task_next_pid s + 1,
                             task_count_value := task_count_value s + 1\<rparr>))
          | None \<Rightarrow> bindR (kfree stack s) (\<lambda>s. Inr (None, s))))"

definition task_count :: "'z proc_state_scheme \<Rightarrow> int" where
  "task_count s = task_count_value s"

text \<open>The loop of \<open>task_cleanup_dead\<close> over the slots in \<open>is\<close>.\<close>

fun cleanup_slots :: "nat list \<Rightarrow> 'z proc_state_scheme \<Rightarrow> 'z proc_state_scheme res" where
  "cleanup_slots [] s = Inr s"
| "cleanup_slots (i # is) s =
     bindR (array_get (tasks s) i) (\<lambda>t.
     if t_state t = TASK_DEAD
     then bindR (if t_stack_bottom t \<noteq> 0 then pmm_free_page (t_stack_bottom t) s else Inr s) (\<lambda>s.
          bindR (array_set (tasks s) i (t\<lparr>t_state := TASK_FREE, t_pid := 0, t_stack_bottom := 0, t_process := nullptr\<rparr>)) (\<lambda>ts.
          cleanup_slots is (s\<lparr>tasks := ts, task_count_value := task_count_value s - 1\<rparr>)))
     else cleanup_slots is s)"

definition task_cleanup_dead :: "'z proc_state_scheme \<Rightarrow> 'z proc_state_scheme res" where
  "task_cleanup_dead s = cleanup_slots [0..<16] s"

end
