(* ===== verification/Fifo.thy ===== *)
theory Fifo
  imports Nemo_Prelude
begin

text \<open>
  The contract of a bounded first-in first-out queue, which the kernel implements
  twice as a ring buffer: the keyboard buffer and the message queue of a
  process. The locale states what a client may rely on; the two components
  interpret it. \<open>fits\<close> says which elements a slot can hold. The facts on ring buffers that both need are here too.
\<close>

section \<open>Rings\<close>

text \<open>The \<open>n\<close> elements of a ring from position \<open>i\<close> on.\<close>

definition ring_list :: "'a list \<Rightarrow> nat \<Rightarrow> nat \<Rightarrow> 'a list" where
  "ring_list buf i n = map (\<lambda>k. buf ! ((i + k) mod length buf)) [0..<n]"

lemma length_ring_list [simp]: "length (ring_list buf i n) = n"
  by (simp add: ring_list_def)

lemma ring_list_0 [simp]: "ring_list buf i 0 = []"
  by (simp add: ring_list_def)

lemma ring_index_inj:
  assumes "(k :: nat) < N" and "j < N"
  shows "(i + k) mod N = (i + j) mod N \<longleftrightarrow> k = j"
proof
  assume "(i + k) mod N = (i + j) mod N"
  then have "int N dvd int (i + k) - int (i + j)"
    by (metis mod_eq_dvd_iff zmod_int)
  then have "int N dvd int k - int j" by simp
  moreover have "\<bar>int k - int j\<bar> < int N" using assms by auto
  ultimately show "k = j" using zdvd_imp_le[of "int N" "\<bar>int k - int j\<bar>"] by auto
qed simp

lemma ring_list_push:
  assumes "n < length buf"
  shows "ring_list (buf[(i + n) mod length buf := x]) i (Suc n) = ring_list buf i n @ [x]"
proof -
  have "length buf > 0" using assms by auto
  then have in_range: "(i + k) mod length buf < length buf" for k by simp
  have old: "(buf[(i + n) mod length buf := x]) ! ((i + k) mod length buf) = buf ! ((i + k) mod length buf)"
    if "k < n" for k
    using ring_index_inj[of k "length buf" n i] that assms by simp
  show ?thesis using in_range old by (simp add: ring_list_def)
qed

lemma ring_list_pop:
  assumes "i < length buf"
  shows "ring_list buf i (Suc n) = buf ! i # ring_list buf ((i + 1) mod length buf) n"
proof -
  have "[0..<Suc n] = 0 # map Suc [0..<n]" by (simp add: upt_conv_Cons map_Suc_upt)
  then show ?thesis
    using assms by (simp add: ring_list_def mod_add_left_eq del: upt_Suc)
qed

section \<open>The queue contract\<close>

text \<open>Popping up to \<open>n\<close> elements, as the read system call and the shell do.\<close>

primrec pop_n :: "('q \<Rightarrow> ('a \<times> 'q) option) \<Rightarrow> nat \<Rightarrow> 'q \<Rightarrow> 'a list \<times> 'q" where
  "pop_n pop 0 q = ([], q)"
| "pop_n pop (Suc n) q =
     (case pop q of None \<Rightarrow> ([], q)
      | Some (x, q') \<Rightarrow> (let (xs, q'') = pop_n pop n q' in (x # xs, q'')))"

datatype 'a queue_op = Push 'a | Pop

text \<open>A run of a queue: the elements its pops return (\<open>None\<close> for a pop of an empty queue).\<close>

fun queue_run ::
  "('a \<Rightarrow> 'q \<Rightarrow> 'q) \<Rightarrow> ('q \<Rightarrow> ('a \<times> 'q) option) \<Rightarrow> 'a queue_op list \<Rightarrow> 'q \<Rightarrow> 'a option list \<times> 'q" where
  "queue_run push pop [] q = ([], q)"
| "queue_run push pop (Push x # ops) q = queue_run push pop ops (push x q)"
| "queue_run push pop (Pop # ops) q =
     (case pop q of
        None \<Rightarrow> (let (out, q') = queue_run push pop ops q in (None # out, q'))
      | Some (x, q1) \<Rightarrow> (let (out, q') = queue_run push pop ops q1 in (Some x # out, q')))"

text \<open>The abstract queue: a list that ignores a push when it is full.\<close>

definition list_push :: "nat \<Rightarrow> 'a \<Rightarrow> 'a list \<Rightarrow> 'a list" where
  "list_push cap x xs = (if length xs < cap then xs @ [x] else xs)"

definition list_pop :: "'a list \<Rightarrow> ('a \<times> 'a list) option" where
  "list_pop xs = (case xs of [] \<Rightarrow> None | x # xs' \<Rightarrow> Some (x, xs'))"

locale bounded_fifo =
  fixes push :: "'a \<Rightarrow> 'q \<Rightarrow> 'q"
    and pop :: "'q \<Rightarrow> ('a \<times> 'q) option"
    and contents :: "'q \<Rightarrow> 'a list"
    and inv :: "'q \<Rightarrow> bool"
    and fits :: "'a \<Rightarrow> bool"
    and cap :: nat
  assumes contents_bound: "inv q \<Longrightarrow> length (contents q) \<le> cap"
    and push_room: "inv q \<Longrightarrow> fits x \<Longrightarrow> length (contents q) < cap \<Longrightarrow>
      inv (push x q) \<and> contents (push x q) = contents q @ [x]"
    and push_full: "inv q \<Longrightarrow> length (contents q) = cap \<Longrightarrow> push x q = q"
    and pop_empty: "inv q \<Longrightarrow> contents q = [] \<Longrightarrow> pop q = None"
    and pop_first: "inv q \<Longrightarrow> contents q = x # xs \<Longrightarrow>
      \<exists>q'. pop q = Some (x, q') \<and> inv q' \<and> contents q' = xs"
begin

lemma push_list: "inv q \<Longrightarrow> fits x \<Longrightarrow> inv (push x q) \<and> contents (push x q) = list_push cap x (contents q)"
  using push_room[of q x] push_full[of q x] contents_bound[of q]
  by (cases "length (contents q) < cap") (auto simp: list_push_def)

lemma pop_list:
  assumes "inv q"
  shows "case pop q of
      None \<Rightarrow> contents q = []
    | Some (x, q') \<Rightarrow> inv q' \<and> contents q = x # contents q'"
  using pop_empty[OF assms] pop_first[OF assms] by (cases "contents q") auto

lemma pop_n_takes:
  "inv q \<Longrightarrow> \<exists>q'. pop_n pop n q = (take n (contents q), q') \<and> inv q' \<and> contents q' = drop n (contents q)"
proof (induction n arbitrary: q)
  case 0
  then show ?case by simp
next
  case (Suc n)
  show ?case
  proof (cases "contents q")
    case Nil
    then show ?thesis using Suc.prems pop_empty by simp
  next
    case (Cons x xs)
    then obtain q1 where "pop q = Some (x, q1)" "inv q1" "contents q1 = xs"
      using pop_first Suc.prems by blast
    then show ?thesis using Suc.IH[of q1] Cons by auto
  qed
qed

text \<open>Every run behaves like the run of the abstract queue.\<close>

lemma run_refines:
  "inv q \<Longrightarrow> (\<And>x. Push x \<in> set ops \<Longrightarrow> fits x) \<Longrightarrow> \<exists>q'. queue_run push pop ops q
      = (fst (queue_run (list_push cap) list_pop ops (contents q)), q')
    \<and> inv q' \<and> contents q' = snd (queue_run (list_push cap) list_pop ops (contents q))"
proof (induction ops arbitrary: q)
  case Nil
  then show ?case by simp
next
  case (Cons op ops)
  show ?case
  proof (cases op)
    case (Push x)
    then show ?thesis using Cons.IH[of "push x q"] push_list[OF Cons.prems(1), of x] Cons.prems(2) by simp
  next
    case Pop
    show ?thesis
    proof (cases "pop q")
      case None
      then have "contents q = []" using pop_list[OF Cons.prems(1)] by simp
      then show ?thesis
        using Cons.IH[OF Cons.prems(1)] Cons.prems(2) Pop None by (auto simp: list_pop_def split: prod.splits)
    next
      case (Some r)
      obtain x q1 where r: "r = (x, q1)" by (cases r)
      then have "inv q1" "contents q = x # contents q1"
        using pop_list[OF Cons.prems(1)] Some by auto
      then show ?thesis
        using Cons.IH[of q1] Cons.prems(2) Pop Some r by (auto simp: list_pop_def split: prod.splits)
    qed
  qed
qed

end

end
