(* ===== verification/Keyboard.thy ===== *)
theory Keyboard
  imports Fifo
begin

text \<open>
  The PS/2 keyboard: translation of scancodes (\<open>src/src/drivers/keyboard.cpp\<close>),
  the ring buffer of typed characters (\<open>keyboard_buffer.cpp\<close>) and the interrupt
  handler that joins them (\<open>src/src/interrupts/keyboard_irq.cpp\<close>). A character
  is a byte; 0 means "no character".
\<close>

section \<open>keyboard.cpp\<close>

record kbd_state =
  shift_pressed :: bool
  ctrl_pressed :: bool
  alt_pressed :: bool
  caps_lock :: bool

definition SC_SHIFT_L :: u8 where "SC_SHIFT_L = 0x2A"
definition SC_SHIFT_R :: u8 where "SC_SHIFT_R = 0x36"
definition SC_CTRL_L :: u8 where "SC_CTRL_L = 0x1D"
definition SC_ALT_L :: u8 where "SC_ALT_L = 0x38"
definition SC_CAPS :: u8 where "SC_CAPS = 0x3A"

lemmas scancode_defs = SC_SHIFT_L_def SC_SHIFT_R_def SC_CTRL_L_def SC_ALT_L_def SC_CAPS_def

text \<open>The two tables as their initialisers are written; the elements after the
  last initialiser are zero.\<close>

definition lower_table :: "char list" where
  "lower_table =
     [CHR 0x00, CHR 0x1B] @ ''1234567890-='' @ [CHR 0x08, CHR 0x09] @ ''qwertyuiop[]''
     @ [CHR 0x0A, CHR 0x00] @ ''asdfghjkl;'' @ [CHR 0x27, CHR 0x60, CHR 0x00, CHR 0x5C]
     @ ''zxcvbnm,./'' @ [CHR 0x00, CHR ''*'', CHR 0x00, CHR '' '', CHR 0x00]
     @ replicate 69 (CHR 0x00)"

definition upper_table :: "char list" where
  "upper_table =
     [CHR 0x00, CHR 0x1B] @ ''!@#$%^&*()_+'' @ [CHR 0x08, CHR 0x09] @ ''QWERTYUIOP{}''
     @ [CHR 0x0A, CHR 0x00] @ ''ASDFGHJKL:'' @ [CHR 0x22, CHR ''~'', CHR 0x00, CHR ''|'']
     @ ''ZXCVBNM<>?'' @ [CHR 0x00, CHR ''*'', CHR 0x00, CHR '' '', CHR 0x00]
     @ replicate 69 (CHR 0x00)"

definition keyboard_scancode_to_ascii :: "u8 \<Rightarrow> kbd_state \<Rightarrow> char \<times> kbd_state" where
  "keyboard_scancode_to_ascii scancode k =
     (if scancode AND 0x80 \<noteq> 0 then
        let make = scancode AND 0x7F;
            k1 = (if make = SC_SHIFT_L \<or> make = SC_SHIFT_R then k\<lparr>shift_pressed := False\<rparr> else k);
            k2 = (if make = SC_CTRL_L then k1\<lparr>ctrl_pressed := False\<rparr> else k1);
            k3 = (if make = SC_ALT_L then k2\<lparr>alt_pressed := False\<rparr> else k2)
        in (CHR 0x00, k3)
      else if scancode = SC_CAPS then (CHR 0x00, k\<lparr>caps_lock := \<not> caps_lock k\<rparr>)
      else if scancode = SC_SHIFT_L \<or> scancode = SC_SHIFT_R then (CHR 0x00, k\<lparr>shift_pressed := True\<rparr>)
      else if scancode = SC_CTRL_L then (CHR 0x00, k\<lparr>ctrl_pressed := True\<rparr>)
      else if scancode = SC_ALT_L then (CHR 0x00, k\<lparr>alt_pressed := True\<rparr>)
      else if scancode \<ge> 128 then (CHR 0x00, k)
      else let shift = shift_pressed k \<or> caps_lock k
           in (if shift then upper_table ! unat scancode else lower_table ! unat scancode, k))"

definition keyboard_init :: "kbd_state \<Rightarrow> kbd_state" where
  "keyboard_init k =
     k\<lparr>shift_pressed := False, ctrl_pressed := False, alt_pressed := False, caps_lock := False\<rparr>"

section \<open>keyboard_buffer.cpp\<close>

record kbd_buffer =
  kbuf :: "char list"
  head :: nat
  tail :: nat

definition kbd_buffer_empty :: kbd_buffer where
  "kbd_buffer_empty = \<lparr>kbuf = replicate 256 (CHR 0x00), head = 0, tail = 0\<rparr>"

definition keyboard_buffer_push :: "char \<Rightarrow> kbd_buffer \<Rightarrow> kbd_buffer" where
  "keyboard_buffer_push c q =
     (let nxt = (head q + 1) mod 256
      in if nxt = tail q then q
         else q\<lparr>kbuf := (kbuf q)[head q := c], head := nxt\<rparr>)"

definition keyboard_buffer_pop :: "kbd_buffer \<Rightarrow> (char \<times> kbd_buffer) option" where
  "keyboard_buffer_pop q =
     (if tail q = head q then None
      else Some (kbuf q ! tail q, q\<lparr>tail := (tail q + 1) mod 256\<rparr>))"

section \<open>keyboard\_irq.cpp\<close>

text \<open>The interrupt handler on the byte read from port 0x60; the end-of-interrupt
  write to the PIC is not part of this state.\<close>

definition keyboard_irq_handler :: "u8 \<Rightarrow> kbd_state \<times> kbd_buffer \<Rightarrow> kbd_state \<times> kbd_buffer" where
  "keyboard_irq_handler sc = (\<lambda>(k, q).
     let (c, k') = keyboard_scancode_to_ascii sc k
     in (k', if c \<noteq> CHR 0x00 then keyboard_buffer_push c q else q))"

section \<open>The buffer is a bounded queue\<close>

definition kbd_count :: "kbd_buffer \<Rightarrow> nat" where
  "kbd_count q = (head q + 256 - tail q) mod 256"

definition kbd_contents :: "kbd_buffer \<Rightarrow> char list" where
  "kbd_contents q = ring_list (kbuf q) (tail q) (kbd_count q)"

definition kbd_inv :: "kbd_buffer \<Rightarrow> bool" where
  "kbd_inv q \<longleftrightarrow> length (kbuf q) = 256 \<and> head q < 256 \<and> tail q < 256"

lemma kbd_count_less: "kbd_count q < 256"
  by (simp add: kbd_count_def)

lemma kbd_head_eq: "kbd_inv q \<Longrightarrow> (tail q + kbd_count q) mod 256 = head q"
  by (simp add: kbd_inv_def kbd_count_def mod_add_right_eq)

lemma kbd_count_cases:
  "kbd_inv q \<Longrightarrow> kbd_count q = (if tail q \<le> head q then head q - tail q else head q + 256 - tail q)"
  by (auto simp: kbd_inv_def kbd_count_def mod_if)

lemma kbd_inv_push: "kbd_inv q \<Longrightarrow> length b = 256 \<Longrightarrow> kbd_inv (q\<lparr>kbuf := b, head := (head q + 1) mod 256\<rparr>)"
  by (simp add: kbd_inv_def)

lemma kbd_inv_pop: "kbd_inv q \<Longrightarrow> kbd_inv (q\<lparr>tail := (tail q + 1) mod 256\<rparr>)"
  by (simp add: kbd_inv_def)

lemma kbd_full_iff: "kbd_inv q \<Longrightarrow> (head q + 1) mod 256 = tail q \<longleftrightarrow> kbd_count q = 255"
  by (subst kbd_count_cases) (auto simp: kbd_inv_def mod_if)

lemma kbd_empty_iff: "kbd_inv q \<Longrightarrow> tail q = head q \<longleftrightarrow> kbd_count q = 0"
  by (subst kbd_count_cases) (auto simp: kbd_inv_def)

lemma kbd_count_push:
  assumes "kbd_inv q" and "kbd_count q < 255" and "length b = 256"
  shows "kbd_count (q\<lparr>kbuf := b, head := (head q + 1) mod 256\<rparr>) = Suc (kbd_count q)"
  using assms(2) kbd_count_cases[OF assms(1)] kbd_count_cases[OF kbd_inv_push[OF assms(1,3)]] assms(1)
  by (auto simp: kbd_inv_def mod_if split: if_splits)

lemma kbd_count_pop:
  assumes "kbd_inv q" and "kbd_count q = Suc n"
  shows "kbd_count (q\<lparr>tail := (tail q + 1) mod 256\<rparr>) = n"
  using assms(2) kbd_count_cases[OF assms(1)] kbd_count_cases[OF kbd_inv_pop[OF assms(1)]] assms(1)
  by (auto simp: kbd_inv_def mod_if split: if_splits)

interpretation kbd: bounded_fifo keyboard_buffer_push keyboard_buffer_pop kbd_contents kbd_inv "\<lambda>_. True" 255
proof
  fix q x
  assume inv: "kbd_inv q"
  show "length (kbd_contents q) \<le> 255"
    using kbd_count_less[of q] by (simp add: kbd_contents_def)
  show "kbd_inv (keyboard_buffer_push x q) \<and> kbd_contents (keyboard_buffer_push x q) = kbd_contents q @ [x]"
    if "length (kbd_contents q) < 255"
  proof -
    have n: "kbd_count q < 255" using that by (simp add: kbd_contents_def)
    then have push: "keyboard_buffer_push x q = q\<lparr>kbuf := (kbuf q)[head q := x], head := (head q + 1) mod 256\<rparr>"
      using kbd_full_iff[OF inv] by (simp add: keyboard_buffer_push_def Let_def)
    have "kbd_inv (keyboard_buffer_push x q)"
      using inv push by (simp add: kbd_inv_def)
    moreover have "kbd_contents (keyboard_buffer_push x q) = kbd_contents q @ [x]"
      using ring_list_push[of "kbd_count q" "kbuf q" "tail q" x] n inv kbd_head_eq[OF inv]
        kbd_count_push[OF inv n, of "(kbuf q)[head q := x]"]
      by (simp add: push kbd_contents_def kbd_inv_def)
    ultimately show ?thesis ..
  qed
  show "keyboard_buffer_push x q = q" if "length (kbd_contents q) = 255"
    using that kbd_full_iff[OF inv] by (simp add: kbd_contents_def keyboard_buffer_push_def Let_def)
  show "keyboard_buffer_pop q = None" if "kbd_contents q = []"
    using arg_cong[OF that, of length] kbd_empty_iff[OF inv]
    by (simp add: kbd_contents_def keyboard_buffer_pop_def)
  show "\<exists>q'. keyboard_buffer_pop q = Some (y, q') \<and> kbd_inv q' \<and> kbd_contents q' = ys"
    if c: "kbd_contents q = y # ys" for y ys
  proof -
    obtain n where n: "kbd_count q = Suc n"
      using arg_cong[OF c, of length] by (simp add: kbd_contents_def)
    then have "y = kbuf q ! tail q" "ys = ring_list (kbuf q) ((tail q + 1) mod 256) n"
      using c inv ring_list_pop[of "tail q" "kbuf q" n] by (simp_all add: kbd_contents_def kbd_inv_def)
    then show ?thesis
      using n kbd_empty_iff[OF inv] inv kbd_count_pop[OF inv n]
      by (simp add: keyboard_buffer_pop_def kbd_inv_def kbd_contents_def)
  qed
qed

lemma kbd_buffer_empty_inv [simp]: "kbd_inv kbd_buffer_empty" "kbd_contents kbd_buffer_empty = []"
  by (simp_all add: kbd_inv_def kbd_contents_def kbd_count_def kbd_buffer_empty_def)

section \<open>Typing\<close>

text \<open>The characters a sequence of scancodes produces.\<close>

fun typed :: "u8 list \<Rightarrow> kbd_state \<Rightarrow> char list" where
  "typed [] k = []"
| "typed (sc # scs) k =
     (let (c, k') = keyboard_scancode_to_ascii sc k
      in (if c = CHR 0x00 then [] else [c]) @ typed scs k')"

lemma typed_buffered:
  "kbd_inv q \<Longrightarrow>
     kbd_inv (snd (fold keyboard_irq_handler scs (k, q)))
   \<and> kbd_contents (snd (fold keyboard_irq_handler scs (k, q)))
       = fold (list_push 255) (typed scs k) (kbd_contents q)"
proof (induction scs arbitrary: k q)
  case Nil
  then show ?case by simp
next
  case (Cons sc scs)
  obtain c k' where t: "keyboard_scancode_to_ascii sc k = (c, k')" by fastforce
  show ?case
  proof (cases "c = CHR 0x00")
    case True
    then show ?thesis using Cons t by (simp add: keyboard_irq_handler_def)
  next
    case False
    then show ?thesis
      using Cons.IH[of "keyboard_buffer_push c q" k'] kbd.push_list[OF Cons.prems TrueI, of c] t
      by (simp add: keyboard_irq_handler_def)
  qed
qed

lemma fold_list_push: "length xs \<le> cap \<Longrightarrow> fold (list_push cap) ys xs = take cap (xs @ ys)"
proof (induction ys arbitrary: xs)
  case Nil
  then show ?case by simp
next
  case (Cons y ys)
  show ?case
  proof (cases "length xs < cap")
    case True
    then show ?thesis using Cons.IH[of "xs @ [y]"] by (simp add: list_push_def)
  next
    case False
    then have "length xs = cap" using Cons.prems by simp
    then show ?thesis using Cons.IH[of xs] by (simp add: list_push_def)
  qed
qed

lemma table_lengths [simp]: "length lower_table = 128" "length upper_table = 128"
  by (simp_all add: lower_table_def upper_table_def)

lemma break_code: "(sc AND 0x80 \<noteq> 0) = (128 \<le> sc)" for sc :: u8
proof -
  have "(sc AND 2 ^ 7 = 0) = (\<not> bit sc 7)" by (rule and_exp_eq_0_iff_not_bit)
  moreover have "bit sc 7 = bit (unat sc) 7" by (simp add: bit_unsigned_iff)
  then have "bit sc 7 = odd (unat sc div 128)" by (simp add: bit_iff_odd)
  moreover have "unat sc < 256" using unsigned_less[of sc, where 'a = nat] by simp
  then have "odd (unat sc div 128) = (128 \<le> unat sc)"
    by (auto simp: div_if)
  ultimately show ?thesis by (simp add: word_le_nat_alt)
qed

text \<open>The letter keys of the US layout: scancode, small letter, capital letter.\<close>

definition letter_keys :: "(u8 \<times> char \<times> char) list" where
  "letter_keys = zip
     [0x10, 0x11, 0x12, 0x13, 0x14, 0x15, 0x16, 0x17, 0x18, 0x19,
      0x1E, 0x1F, 0x20, 0x21, 0x22, 0x23, 0x24, 0x25, 0x26,
      0x2C, 0x2D, 0x2E, 0x2F, 0x30, 0x31, 0x32]
     (zip ''qwertyuiopasdfghjklzxcvbnm'' ''QWERTYUIOPASDFGHJKLZXCVBNM'')"

lemma letter_keys_table:
  "list_all (\<lambda>(sc, lo, up). lower_table ! unat sc = lo \<and> upper_table ! unat sc = up
      \<and> lo \<noteq> CHR 0x00 \<and> up \<noteq> CHR 0x00 \<and> sc < 128
      \<and> sc \<notin> {SC_SHIFT_L, SC_SHIFT_R, SC_CTRL_L, SC_ALT_L, SC_CAPS}) letter_keys"
  by (simp add: letter_keys_def lower_table_def upper_table_def scancode_defs)

lemma letter_key:
  assumes "(sc, lo, up) \<in> set letter_keys"
  shows "lower_table ! unat sc = lo" and "upper_table ! unat sc = up" and "lo \<noteq> CHR 0x00"
    and "up \<noteq> CHR 0x00" and "sc < 128" and "sc \<noteq> SC_SHIFT_L" "sc \<noteq> SC_SHIFT_R" "sc \<noteq> SC_CTRL_L"
    "sc \<noteq> SC_ALT_L" "sc \<noteq> SC_CAPS"
  using letter_keys_table assms unfolding list_all_iff by auto

section \<open>Properties\<close>

text \<open>C32: The keyboard buffer refines the abstract bounded queue of 255 characters: on every
  sequence of pushes and pops, started from the empty buffer, the pops return
  exactly what the abstract queue returns.\<close>

theorem keyboard_buffer_refines_queue:
  "fst (queue_run keyboard_buffer_push keyboard_buffer_pop ops kbd_buffer_empty)
     = fst (queue_run (list_push 255) list_pop ops [])"
  using kbd.run_refines[of kbd_buffer_empty ops] by auto

text \<open>After any sequence of keyboard interrupts on an empty buffer, the buffer holds the
  translated characters in the order typed, the first 255 of them, and popping
  returns them in that order.\<close>

theorem keyboard_interrupts_in_order:
  "fst (pop_n keyboard_buffer_pop n (snd (fold keyboard_irq_handler scs (k, kbd_buffer_empty))))
     = take n (take 255 (typed scs k))"
proof -
  let ?q = "snd (fold keyboard_irq_handler scs (k, kbd_buffer_empty))"
  have "kbd_inv ?q" and "kbd_contents ?q = take 255 (typed scs k)"
    using typed_buffered[of kbd_buffer_empty scs k] by (simp_all add: fold_list_push)
  then show ?thesis using kbd.pop_n_takes[of ?q n] by auto
qed

text \<open>Pressing a shift key, typing a letter, releasing the shift key and typing the letter
  again produces the capital and then the small letter, when caps lock is off
  and no shift key was held.\<close>

theorem keyboard_shift_capitalises:
  assumes "(sc, lo, up) \<in> set letter_keys"
    and "\<not> caps_lock k" and "\<not> shift_pressed k" and "sh \<in> {SC_SHIFT_L, SC_SHIFT_R}"
  shows "typed [sh, sc, sh OR 0x80, sc] k = [up, lo]"
proof -
  note l = letter_key[OF assms(1)]
  have "\<not> 128 \<le> sc" using l(5) by simp
  then show ?thesis
    using l assms(2-4)
    by (auto simp: keyboard_scancode_to_ascii_def break_code Let_def scancode_defs)
qed

theorem keyboard_shift_capitalises_witness:
  "typed [0x2A, 0x1E, 0xAA, 0x1E] (keyboard_init \<lparr>shift_pressed = True, ctrl_pressed = True,
      alt_pressed = True, caps_lock = True\<rparr>) = ''Aa''"
  using keyboard_shift_capitalises[of "0x1E" "CHR ''a''" "CHR ''A''" "keyboard_init \<lparr>shift_pressed = True,
      ctrl_pressed = True, alt_pressed = True, caps_lock = True\<rparr>" SC_SHIFT_L]
  by (simp add: keyboard_init_def letter_keys_def SC_SHIFT_L_def)

end
