(* ===== verification/Syscall.thy ===== *)
theory Syscall
  imports Process Keyboard Fifo
begin

text \<open>
  Messages between processes (\<open>src/src/ipc/ipc.cpp\<close>), sleeping
  (\<open>src/src/ipc/sleep.cpp\<close>), the timer interrupt (\<open>src/src/interrupts/irq.cpp\<close> and
  the stub \<open>irq0\<close>) and the system calls (\<open>src/src/syscalls/syscall.cpp\<close> and its
  stub). System call buffers are addresses of the calling process, so the
  kernel reaches them through the page tables that \<open>cr3\<close> points to; an address that
  is not mapped is the fault \<open>Page_fault\<close>.
\<close>

section \<open>State and access to user memory\<close>

record kernel_state = proc_state +
  timer_ticks :: u32
  sleep_ticks :: u32
  kbd :: kbd_state
  kbd_buf :: kbd_buffer

text \<open>The address the processor uses for \<open>a\<close>: \<open>a\<close> itself until paging is turned on.\<close>

definition physical :: "'z vmm_state_scheme \<Rightarrow> u32 \<Rightarrow> u32 res" where
  "physical s a =
     (if cr0 s AND 0x80000000 = 0 then Inr a
      else case walk (mem s) (cr3 s) a of
             None \<Rightarrow> Inl (Page_fault a)
           | Some (frame, _) \<Rightarrow> Inr (frame OR (a AND 0xFFF)))"

definition load8 :: "'z vmm_state_scheme \<Rightarrow> u32 \<Rightarrow> u8 res" where
  "load8 s a = bindR (physical s a) (\<lambda>p. Inr (mem s p))"

definition store8 :: "u32 \<Rightarrow> u8 \<Rightarrow> 'z vmm_state_scheme \<Rightarrow> 'z vmm_state_scheme res" where
  "store8 a v s = bindR (physical s a) (\<lambda>p. Inr (s\<lparr>mem := (mem s)(p := v)\<rparr>))"

text \<open>\<open>memcpy\<close> from and to a buffer of a process.\<close>

primrec load_bytes :: "nat \<Rightarrow> u32 \<Rightarrow> 'z vmm_state_scheme \<Rightarrow> u8 list res" where
  "load_bytes 0 a s = Inr []"
| "load_bytes (Suc n) a s = bindR (load8 s a) (\<lambda>b. bindR (load_bytes n (a + 1) s) (\<lambda>bs. Inr (b # bs)))"

fun store_bytes :: "u32 \<Rightarrow> u8 list \<Rightarrow> 'z vmm_state_scheme \<Rightarrow> 'z vmm_state_scheme res" where
  "store_bytes a [] s = Inr s"
| "store_bytes a (b # bs) s = bindR (store8 a b s) (store_bytes (a + 1) bs)"

section \<open>ipc.cpp\<close>

definition IPC_MAX_MSG_SIZE :: nat where "IPC_MAX_MSG_SIZE = 64"
definition IPC_MAX_MSG_PER_PROC :: int where "IPC_MAX_MSG_PER_PROC = 16"

definition get_queue :: "u32 \<Rightarrow> 'z proc_state_scheme \<Rightarrow> ipc_queue res" where
  "get_queue q s = (case queues s q of None \<Rightarrow> Inl Out_of_bounds | Some x \<Rightarrow> Inr x)"

definition ipc_queue_init :: "ipc_queue \<Rightarrow> ipc_queue" where
  "ipc_queue_init q = q\<lparr>qhead := 0, qtail := 0, qcount := 0\<rparr>"

text \<open>Storing a message at the tail of a queue, and taking the one at its head.\<close>

definition queue_put :: "u32 \<Rightarrow> u8 list \<Rightarrow> ipc_queue \<Rightarrow> ipc_queue res" where
  "queue_put sender bytes q =
     bindR (array_get (msgs q) (nat (qtail q))) (\<lambda>m.
     bindR (array_set (msgs q) (nat (qtail q))
              (m\<lparr>sender_pid := sender, msg_size := of_nat (length bytes),
                 msg_data := bytes @ drop (length bytes) (msg_data m)\<rparr>)) (\<lambda>ms.
     Inr (q\<lparr>msgs := ms, qtail := (qtail q + 1) mod IPC_MAX_MSG_PER_PROC, qcount := qcount q + 1\<rparr>)))"

definition queue_take :: "ipc_queue \<Rightarrow> (ipc_msg \<times> ipc_queue) res" where
  "queue_take q =
     bindR (array_get (msgs q) (nat (qhead q))) (\<lambda>m.
     Inr (m, q\<lparr>qhead := (qhead q + 1) mod IPC_MAX_MSG_PER_PROC, qcount := qcount q - 1\<rparr>))"

text \<open>The loop of \<open>ipc_send\<close> over the table positions in \<open>is\<close>.\<close>

fun send_loop :: "int list \<Rightarrow> u32 \<Rightarrow> u32 \<Rightarrow> u32 \<Rightarrow> 'z proc_state_scheme \<Rightarrow> (int \<times> 'z proc_state_scheme) res" where
  "send_loop [] target_pid data sz s = Inr (-1, s)"
| "send_loop (i # is) target_pid data sz s =
     bindR (process_get i s) (\<lambda>p.
     if p = nullptr then send_loop is target_pid data sz s
     else bindR (get_proc p s) (\<lambda>x.
       if pid x \<noteq> target_pid then send_loop is target_pid data sz s
       else if state x = TASK_DEAD then Inr (-1, s)
       else if msg_queue x = nullptr then Inr (-1, s)
       else bindR (get_queue (msg_queue x) s) (\<lambda>q.
            if qcount q \<ge> IPC_MAX_MSG_PER_PROC then Inr (-1, s)
            else
              bindR (scheduler_current_process s) (\<lambda>me.
              bindR (if me \<noteq> nullptr then bindR (get_proc me s) (\<lambda>y. Inr (pid y)) else Inr 0) (\<lambda>sender.
              bindR (load_bytes (unat sz) data s) (\<lambda>bytes.
              bindR (queue_put sender bytes q) (\<lambda>q.
              let s = s\<lparr>queues := (queues s)(msg_queue x \<mapsto> q)\<rparr>
              in bindR (if state x = TASK_BLOCKED then set_proc p (\<lambda>x. x\<lparr>state := TASK_READY\<rparr>) s else Inr s) (\<lambda>s.
                 Inr (0, s)))))))))"

definition ipc_send :: "u32 \<Rightarrow> u32 \<Rightarrow> u32 \<Rightarrow> 'z proc_state_scheme \<Rightarrow> (int \<times> 'z proc_state_scheme) res" where
  "ipc_send target_pid data sz s =
     (if data = nullptr \<or> sz = 0 \<or> unat sz > IPC_MAX_MSG_SIZE then Inr (-1, s)
      else send_loop [0..process_total s - 1] target_pid data sz s)"

text \<open>\<open>sender\<close> is the address the sender's number goes to, or null. The \<open>while\<close> of the
  source returns in its first round, so it is a test. The result is the C++
  \<open>int\<close>.\<close>

definition ipc_recv :: "u32 \<Rightarrow> u32 \<Rightarrow> u32 \<Rightarrow> 'z proc_state_scheme \<Rightarrow> (int \<times> 'z proc_state_scheme) res" where
  "ipc_recv sender buf sz s =
     bindR (scheduler_current_process s) (\<lambda>me.
     if me = nullptr \<or> buf = nullptr \<or> sz = 0 then Inr (-1, s)
     else bindR (get_proc me s) (\<lambda>x.
       if msg_queue x = nullptr then Inr (-1, s)
       else bindR (get_queue (msg_queue x) s) (\<lambda>q.
         if qcount q = 0 then bindR (set_proc me (\<lambda>x. x\<lparr>state := TASK_BLOCKED\<rparr>) s) (\<lambda>s. Inr (0, s))
         else bindR (queue_take q) (\<lambda>(m, q').
           let copy_size = (if msg_size m < sz then msg_size m else sz)
           in bindR (if sender \<noteq> nullptr
                     then store_bytes sender (map (\<lambda>k. ucast (drop_bit (8 * k) (sender_pid m))) [0..<4]) s
                     else Inr s) (\<lambda>s.
              bindR (store_bytes buf (take (unat copy_size) (msg_data m)) s) (\<lambda>s.
              Inr (sint copy_size, s\<lparr>queues := (queues s)(msg_queue x \<mapsto> q')\<rparr>)))))))"

section \<open>sleep.cpp\<close>

definition sleep_init :: "'z kernel_state_scheme \<Rightarrow> 'z kernel_state_scheme" where
  "sleep_init s = s\<lparr>sleep_ticks := 0\<rparr>"

definition sleep_tick :: "'z kernel_state_scheme \<Rightarrow> 'z kernel_state_scheme" where
  "sleep_tick s = s\<lparr>sleep_ticks := sleep_ticks s + 1\<rparr>"

text \<open>The wait of \<open>sleep_ms\<close>: \<open>wakes\<close> is the number of timer interrupts in each \<open>hlt\<close> the
  loop executes. \<open>Some n\<close> says that the wait is over and that \<open>n\<close> rounds are left;
  \<open>None\<close> says that it still waits after all of them.\<close>

fun sleep_wait :: "u32 \<Rightarrow> u32 \<Rightarrow> nat list \<Rightarrow> nat list option" where
  "sleep_wait ticks target wakes =
     (if ticks < target
      then case wakes of [] \<Rightarrow> None | w # ws \<Rightarrow> sleep_wait (ticks + of_nat w) target ws
      else Some wakes)"

definition sleep_ms :: "u32 \<Rightarrow> nat list \<Rightarrow> 'z kernel_state_scheme \<Rightarrow> nat list option" where
  "sleep_ms ms wakes s = sleep_wait (sleep_ticks s) (sleep_ticks s + ms div 10) wakes"

section \<open>Interrupts\<close>

definition irq_handler :: "'z kernel_state_scheme \<Rightarrow> 'z kernel_state_scheme" where
  "irq_handler s = sleep_tick (s\<lparr>timer_ticks := timer_ticks s + 1\<rparr>)"

text \<open>The timer interrupt: the stub saves the registers at \<open>esp\<close>, and the result is the
  stack pointer from which it restores them.\<close>

definition irq0 :: "u32 \<Rightarrow> 'z kernel_state_scheme \<Rightarrow> (u32 \<times> 'z kernel_state_scheme) res" where
  "irq0 esp s = scheduler_tick esp (irq_handler s)"

definition irq1 :: "u8 \<Rightarrow> 'z kernel_state_scheme \<Rightarrow> 'z kernel_state_scheme" where
  "irq1 sc s = (let (k, b) = keyboard_irq_handler sc (kbd s, kbd_buf s) in s\<lparr>kbd := k, kbd_buf := b\<rparr>)"

section \<open>syscall.cpp\<close>

text \<open>The loops of the calls: printing \<open>n\<close> more characters from \<open>a\<close> on, and reading up to \<open>n\<close>
  more characters into the buffer from \<open>a\<close> on.\<close>

primrec sys_write_loop :: "nat \<Rightarrow> u32 \<Rightarrow> 'z kernel_state_scheme \<Rightarrow> 'z kernel_state_scheme res" where
  "sys_write_loop 0 a s = Inr s"
| "sys_write_loop (Suc n) a s =
     bindR (load8 s a) (\<lambda>c.
     if c = 0 then Inr s
     else bindR (putchar (char_of (unat c)) (console s)) (\<lambda>t.
          sys_write_loop n (a + 1) (s\<lparr>console := t\<rparr>)))"

primrec sys_read_loop :: "nat \<Rightarrow> u32 \<Rightarrow> u32 \<Rightarrow> 'z kernel_state_scheme \<Rightarrow> (u32 \<times> 'z kernel_state_scheme) res" where
  "sys_read_loop 0 a count s = Inr (count, s)"
| "sys_read_loop (Suc n) a count s =
     (case keyboard_buffer_pop (kbd_buf s) of
        None \<Rightarrow> Inr (count, s)
      | Some (c, b) \<Rightarrow>
          bindR (store8 a (of_char c) (s\<lparr>kbd_buf := b\<rparr>)) (sys_read_loop n (a + 1) (count + 1)))"

text \<open>The loops of \<open>waitpid\<close> and \<open>kill\<close> over the table positions in \<open>is\<close>.\<close>

fun wait_loop :: "int list \<Rightarrow> u32 \<Rightarrow> int \<Rightarrow> 'z proc_state_scheme \<Rightarrow> (u32 \<times> 'z proc_state_scheme) res" where
  "wait_loop [] me_pid pd s = Inr (0xFFFFFFFF, s)"
| "wait_loop (i # is) me_pid pd s =
     bindR (process_get i s) (\<lambda>child.
     if child = nullptr then wait_loop is me_pid pd s
     else bindR (get_proc child s) (\<lambda>c.
       if parent_pid c \<noteq> me_pid then wait_loop is me_pid pd s
       else if pd \<ge> 0 \<and> sint (pid c) \<noteq> pd then wait_loop is me_pid pd s
       else if state c = TASK_DEAD
            then bindR (process_destroy child s) (\<lambda>s. Inr (pid c, s))
            else wait_loop is me_pid pd s))"

fun kill_loop :: "int list \<Rightarrow> int \<Rightarrow> 'z proc_state_scheme \<Rightarrow> (u32 \<times> 'z proc_state_scheme) res" where
  "kill_loop [] pd s = Inr (0xFFFFFFFF, s)"
| "kill_loop (i # is) pd s =
     bindR (process_get i s) (\<lambda>p.
     if p = nullptr then kill_loop is pd s
     else bindR (get_proc p s) (\<lambda>x.
       if sint (pid x) = pd
       then bindR (set_proc p (\<lambda>x. x\<lparr>state := TASK_DEAD\<rparr>) s) (\<lambda>s. Inr (0, s))
       else kill_loop is pd s))"

definition syscall_dispatch :: "u32 \<Rightarrow> u32 \<Rightarrow> u32 \<Rightarrow> u32 \<Rightarrow> 'z kernel_state_scheme \<Rightarrow> (u32 \<times> 'z kernel_state_scheme) res" where
  "syscall_dispatch eax ebx ecx edx s =
     (if eax = 1 then Inr (timer_ticks s, s)
      else if eax = 2 then
        (if ebx = nullptr then Inr (0, s)
         else bindR (sys_write_loop (unat ecx) ebx s) (\<lambda>s. Inr (ecx, s)))
      else if eax = 3 then
        (if ebx = nullptr \<or> ecx = 0 then Inr (0, s)
         else sys_read_loop (unat ecx) ebx 0 s)
      else if eax = 4 then
        bindR (scheduler_current_process s) (\<lambda>p.
        if p \<noteq> nullptr
        then bindR (set_proc p (\<lambda>x. x\<lparr>exit_code := sint ebx, state := TASK_DEAD\<rparr>) s) (\<lambda>s. Inr (0, s))
        else Inr (0, s))
      else if eax = 5 then
        bindR (scheduler_current_process s) (\<lambda>me.
        if me = nullptr then Inr (0xFFFFFFFF, s)
        else bindR (get_proc me s) (\<lambda>x. wait_loop [0..process_total s - 1] (pid x) (sint ebx) s))
      else if eax = 6 then kill_loop [0..process_total s - 1] (sint ebx) s
      else if eax = 7 then bindR (ipc_send ebx ecx edx s) (\<lambda>(r, s). Inr (word_of_int r, s))
      else if eax = 8 then bindR (ipc_recv nullptr ebx ecx s) (\<lambda>(r, s). Inr (word_of_int r, s))
      else Inr (0xFFFFFFFF, s))"

text \<open>The stub: the result of the call goes to the saved \<open>eax\<close> of the frame at \<open>esp\<close>, then the
  scheduler picks who runs next.\<close>

definition syscall_stub :: "u32 \<Rightarrow> u32 \<Rightarrow> u32 \<Rightarrow> u32 \<Rightarrow> u32 \<Rightarrow> 'z kernel_state_scheme \<Rightarrow> (u32 \<times> 'z kernel_state_scheme) res" where
  "syscall_stub eax ebx ecx edx esp s =
     bindR (syscall_dispatch eax ebx ecx edx s) (\<lambda>(r, s).
     scheduler_tick esp (s\<lparr>mem := wr32 (mem s) (esp + 28) r\<rparr>))"

end
