(* ===== verification/Vmm_Properties.thy ===== *)
theory Vmm_Properties
  imports Vmm_Correct
begin

text \<open>
  The identity mapping built by \<open>paging_init\<close>, the user pages installed in a process's
  address space, and the properties of virtual memory.
\<close>

section \<open>The identity mapping\<close>

text \<open>The directory maps exactly the addresses below \<open>n\<close>, each to itself, for the kernel only.\<close>

definition identity_below :: "nat \<Rightarrow> memory \<Rightarrow> u32 \<Rightarrow> bool" where
  "identity_below n m pd \<longleftrightarrow>
     (\<forall>w. walk m pd w = (if unat w < n then Some (w AND 0xFFFFF000, 2) else None))
     \<and> (\<forall>i < 1024. present (get_entry m pd i) \<longrightarrow> get_entry m pd i AND 6 = 2)"

lemma same_page_div: "same_page w v \<longleftrightarrow> unat w div 4096 = unat v div 4096"
  unfolding same_page_def word_unat_eq_iff by (simp add: drop_bit_eq_div unat_div)

lemma page_interval: "(x :: nat) div 4096 = k \<longleftrightarrow> 4096 * k \<le> x \<and> x < 4096 * k + 4096"
proof
  assume "x div 4096 = k"
  then have "x = 4096 * k + x mod 4096" "x mod 4096 < 4096" using mult_div_mod_eq[of 4096 x] by simp_all
  then show "4096 * k \<le> x \<and> x < 4096 * k + 4096" by linarith
qed (auto intro: div_nat_eqI)

lemma same_page_mask: "same_page w v \<Longrightarrow> w AND 0xFFFFF000 = v AND 0xFFFFF000"
proof -
  assume "same_page w v"
  then have b: "bit (drop_bit 12 w) n = bit (drop_bit 12 v) n" for n by (simp add: same_page_def)
  have "bit w n = bit v n" if "12 \<le> n" for n using b[of "n - 12"] that by (simp add: bit_simps)
  then show ?thesis unfolding page_mask by (auto intro!: bit_word_eqI simp: bit_simps)
qed

lemma identity_page:
  assumes id: "identity_below (unat a) m pd" and al: "aligned a" and ok: "space_ok U m pd"
    and p: "present (get_entry m pd (pd_index a))"
  defines "m' \<equiv> set_entry (table (get_entry m pd (pd_index a))) (pt_index a) (a OR 3) m"
  shows "identity_below (unat a + 4096) m' pd" "space_ok U m' pd" "\<And>i. i < 1024 \<Longrightarrow> get_entry m' pd i = get_entry m pd i"
proof -
  note sp = set_pte[OF ok p, of "a OR 3", folded m'_def]
  have e: "get_entry m pd (pd_index a) AND 6 = 2" using id p by (simp add: identity_below_def)
  have "get_entry m pd (pd_index a) AND (a OR 3) AND 6 = 2"
  proof -
    have "(a OR 3) AND 6 = 2" using al by simp
    moreover have "get_entry m pd (pd_index a) AND 2 = (get_entry m pd (pd_index a) AND 6) AND 2"
      by (simp add: and.assoc)
    ultimately show ?thesis using e by simp
  qed
  moreover have "present (a OR 3)" "table (a OR 3) = a" using al by (simp_all add: present_def)
  moreover have "same_page w a \<Longrightarrow> w AND 0xFFFFF000 = a" for w
    using same_page_mask[of w a] page_or(1)[OF al, of 0] by simp
  moreover obtain k where "unat a = 4096 * k" using aligned_page[OF al] .
  then have "same_page w a \<longleftrightarrow> unat a \<le> unat w \<and> unat w < unat a + 4096" for w
    unfolding same_page_div using page_interval[of "unat w"] by simp
  ultimately have "walk m' pd w = (if unat w < unat a + 4096 then Some (w AND 0xFFFFF000, 2) else None)" for w
    using sp(2)[of w] id by (auto simp: identity_below_def)
  moreover show same: "get_entry m' pd i = get_entry m pd i" if "i < 1024" for i
  proof -
    have "pd \<noteq> table (get_entry m pd (pd_index a))" "aligned pd"
      using ok p index_bound(1)[of a] unfolding space_ok_def by (metis Diff_iff singletonI)+
    then show ?thesis using same_entriesD[OF sp(3)] that by simp
  qed
  ultimately show "identity_below (unat a + 4096) m' pd"
    using id by (simp add: identity_below_def)
qed (simp add: m'_def set_pte[OF ok p])

text \<open>There is a page table for each 4 MB with an address below \<open>n\<close>, and no other.\<close>

definition tables_below :: "nat \<Rightarrow> memory \<Rightarrow> u32 \<Rightarrow> bool" where
  "tables_below n m pd \<longleftrightarrow> (\<forall>i < 1024. present (get_entry m pd i) \<longleftrightarrow> unat i * 0x400000 < n)"

definition identity_state :: "u32 \<Rightarrow> nat \<Rightarrow> 'z vmm_state_scheme \<Rightarrow> bool" where
  "identity_state pd n s \<longleftrightarrow> pmm_inv s \<and> space_ok (pmm_allocated s) (mem s) pd \<and> identity_below n (mem s) pd \<and> tables_below n (mem s) pd"

text \<open>Pages are counted by their addresses.\<close>

lemma finite_pmm_allocated [simp]: "finite (pmm_allocated s)"
  using finite_subset[OF used_set_subset, of s] by (simp add: pmm_allocated_def)

lemma card_pmm:
  assumes "pmm_inv s"
  shows "card (pmm_pages s) = unat (total_pages s)" "unat (pmm_free_pages s) + card (pmm_allocated s) = unat (total_pages s)"
    "card (pmm_allocated s) = unat (total_pages s) \<longleftrightarrow> pmm_allocated s = pmm_pages s"
proof -
  have inj: "inj_on page_addr {..<unat (total_pages s)}"
    using page_addr_inject pmm_total_bound[OF assms] by (auto intro!: inj_onI)
  then show c: "card (pmm_pages s) = unat (total_pages s)" by (simp add: pmm_pages_def card_image)
  have u: "card (pmm_allocated s) = unat (used_pages s)"
    using assms card_image[OF inj_on_subset[OF inj used_set_subset]] by (simp add: pmm_allocated_def pmm_inv_def)
  have sub: "pmm_allocated s \<subseteq> pmm_pages s" "finite (pmm_pages s)"
    using used_set_subset[of s] by (auto simp: pmm_allocated_def pmm_pages_def)
  then have "card (pmm_allocated s) \<le> unat (total_pages s)" using card_mono c by metis
  then show "unat (pmm_free_pages s) + card (pmm_allocated s) = unat (total_pages s)"
    unfolding u by (simp add: pmm_free_pages_def unat_sub word_le_nat_alt)
  show "card (pmm_allocated s) = unat (total_pages s) \<longleftrightarrow> pmm_allocated s = pmm_pages s"
    using card_subset_eq[OF sub(2,1)] c by auto
qed

lemma pd_index_div: "unat (pd_index a) = unat a div 0x400000"
  by (simp add: pd_index_def drop_bit_eq_div unat_div)

lemma table_step:
  assumes "aligned a"
  shows "unat i * 0x400000 < unat a + 4096 \<longleftrightarrow> unat i * 0x400000 < unat a \<or> 0x400000 dvd unat a \<and> i = pd_index a"
proof -
  obtain k where k: "unat a = 4096 * k" using aligned_page[OF assms] by blast
  have "unat i * 0x400000 = unat a \<longleftrightarrow> 0x400000 dvd unat a \<and> i = pd_index a"
  proof
    assume e: "unat i * 0x400000 = unat a"
    show "0x400000 dvd unat a \<and> i = pd_index a" unfolding word_unat_eq_iff pd_index_div e[symmetric] by simp
  qed (auto simp: pd_index_div)
  moreover have "unat i * 0x400000 < unat a + 4096 \<longleftrightarrow> unat i * 0x400000 \<le> unat a"
  proof -
    have "4096 * (1024 * unat i) < 4096 * Suc k \<longleftrightarrow> 4096 * (1024 * unat i) \<le> 4096 * k" by (simp only: mult_less_cancel1 mult_le_cancel1) auto
    then show ?thesis using k by (simp add: ac_simps)
  qed
  ultimately show ?thesis by (auto simp: order_le_less)
qed

text \<open>A step takes a page exactly where a new page table begins.\<close>

lemma paging_init_step_ok:
  assumes st: "identity_state pd (unat a) s" and al: "aligned a"
  shows "if 0x400000 dvd unat a \<and> pmm_allocated s = pmm_pages s
    then paging_init_step pd a s = Inl (Panic ''paging_init: OOM'')
    else \<exists>s'. paging_init_step pd a s = Inr s' \<and> pages_mem s s' \<and> identity_state pd (unat a + 4096) s'
      \<and> card (pmm_allocated s') = card (pmm_allocated s) + (if 0x400000 dvd unat a then 1 else 0)"
proof -
  have inv: "pmm_inv s" and ok: "space_ok (pmm_allocated s) (mem s) pd" and id: "identity_below (unat a) (mem s) pd"
    and tb: "tables_below (unat a) (mem s) pd"
    using st by (auto simp: identity_state_def)
  have "unat (pd_index a) * 0x400000 < unat a \<longleftrightarrow> \<not> 0x400000 dvd unat a"
    unfolding pd_index_div using div_mult_mod_eq[of "unat a" "0x400000"] mod_eq_0_iff_dvd[of "unat a" "0x400000"] by linarith
  then have pr: "present (get_entry (mem s) pd (pd_index a)) \<longleftrightarrow> \<not> 0x400000 dvd unat a"
    using tb index_bound(1)[of a] by (simp add: tables_below_def)
  show ?thesis
  proof (cases "0x400000 dvd unat a")
    case False
    let ?m = "set_entry (table (get_entry (mem s) pd (pd_index a))) (pt_index a) (a OR 3) (mem s)"
    note p = identity_page[OF id al ok pr[THEN iffD2, OF False]]
    have "paging_init_step pd a s = Inr (s\<lparr>mem := ?m\<rparr>)"
      using pr False by (simp add: paging_init_step_def present_def table_def Let_def)
    moreover have "identity_state pd (unat a + 4096) (s\<lparr>mem := ?m\<rparr>)"
      using p tb inv False by (simp add: identity_state_def tables_below_def table_step[OF al])
    ultimately show ?thesis using False by (auto simp: pmm_allocated_def used_set_def)
  next
    case True
    then have np: "\<not> present (get_entry (mem s) pd (pd_index a))" using pr by simp
    show ?thesis
    proof (rule page_alloc_cases[OF inv])
      assume "pmm_alloc_page s = Inr (nullptr, s)" "pmm_allocated s = pmm_pages s"
      then show ?thesis using np True by (simp add: paging_init_step_def present_def Let_def)
    next
      fix pt bm u
      let ?s = "s\<lparr>bitmap := bm, used_pages := u\<rparr>" and ?i = "pd_index a"
      assume page: "pmm_alloc_page s = Inr (pt, ?s)" "pt \<noteq> nullptr" "aligned pt" "pt \<in> pmm_pages s" "pt \<notin> pmm_allocated s" "pmm_inv ?s"
        "pmm_allocated ?s = insert pt (pmm_allocated s)"
      define m1 where "m1 = set_entry pd ?i (pt OR 3) (memset (mem s) pt 0 4096)"
      have pd: "aligned pd" "pt \<noteq> pd" using ok page(5) by (auto simp: space_ok_def)
      have g: "get_entry m1 b k = (if b = pd \<and> k = ?i then pt OR 3 else if b = pt then 0 else get_entry (mem s) b k)"
        if "aligned b" "k < 1024" for b k
        using pd page(3) that by (auto simp: m1_def get_set_entry get_memset_page)
      have three: "(3 :: u32) AND 0xFFF = 3" "present 3" by (simp_all add: present_def)
      note at = add_table[where m' = m1, OF ok np index_bound(1) page(3,5) three g]
      have id1: "identity_below (unat a) m1 pd"
        using id page(3) pd by (simp add: identity_below_def at(2) g)
      have p: "present (get_entry m1 pd ?i)" using page(3) three(2) by (simp add: at(4))
      define m2 where "m2 = set_entry (table (get_entry m1 pd ?i)) (pt_index a) (a OR 3) m1"
      note new = identity_page[OF id1 al at(1) p, folded m2_def]
      have "tables_below (unat a + 4096) m2 pd"
        using tb True p new(3) pd by (auto simp: tables_below_def table_step[OF al] g)
      then have "identity_state pd (unat a + 4096) (?s\<lparr>mem := m2\<rparr>)"
        using new(1,2) page(6,7) by (simp add: identity_state_def)
      moreover have "paging_init_step pd a s = Inr (?s\<lparr>mem := m2\<rparr>)"
        using np page(1,2) by (simp add: paging_init_step_def present_def table_def Let_def m1_def m2_def)
      moreover have "pmm_allocated (?s\<lparr>mem := m2\<rparr>) = insert pt (pmm_allocated s)"
        using page(7) by (simp add: pmm_allocated_def used_set_def)
      ultimately show ?thesis using True page(4,5) by auto
    qed
  qed
qed

lemma div_pred: "0 < n \<Longrightarrow> (n :: nat) div m = (n - 1) div m + (if m dvd n then 1 else 0)"
  using div_Suc[of "n - 1" m] by (simp add: dvd_eq_mod_eq_0)

lemma pages_mem_more: "pages_mem s s' \<Longrightarrow> total_pages s' = total_pages s \<and> vmm_state.more s' = vmm_state.more s"
  by (auto simp: pages_mem_def)

lemma aligned_add_page:
  assumes "aligned a" "aligned e" "a < e"
  shows "unat (a + 0x1000) = unat a + 4096" "unat a + 4096 \<le> unat e" "aligned (a + 0x1000)"
proof -
  obtain i j where ij: "unat a = 4096 * i" "unat e = 4096 * j" "j < 1048576"
    using aligned_page[OF assms(1)] aligned_page[OF assms(2)] by metis
  then have "i < j" using assms(3) by (simp add: word_less_nat_alt)
  then show le: "unat a + 4096 \<le> unat e" using ij by simp
  then show u: "unat (a + 0x1000) = unat a + 4096" using ij(2,3) by (simp add: unat_add_small)
  show "aligned (a + 0x1000)" using u ij(1) by (simp add: aligned_def)
qed

lemma paging_init_loop_ok:
  assumes "identity_state pd (unat a) s" "aligned a" "aligned e" "0 < unat a" "card (pmm_allocated s) = b + (unat a - 1) div 0x400000"
  shows "if b + (max (unat a) (unat e) - 1) div 0x400000 \<le> unat (total_pages s)
    then \<exists>s'. paging_init_loop pd a e s = Some (Inr s') \<and> pages_mem s s' \<and> identity_state pd (max (unat a) (unat e)) s'
      \<and> card (pmm_allocated s') = b + (max (unat a) (unat e) - 1) div 0x400000
    else paging_init_loop pd a e s = Some (Inl (Panic ''paging_init: OOM''))"
  using assms
proof (induction "unat e - unat a" arbitrary: a s rule: less_induct)
  case less
  let ?d = "if 0x400000 dvd unat a then 1 else 0 :: nat"
  have inv: "pmm_inv s" using less.prems(1) by (simp add: identity_state_def)
  have le: "card (pmm_allocated s) \<le> unat (total_pages s)" using card_pmm(2)[OF inv] by simp
  show ?case
  proof (cases "a < e")
    case False
    then have "max (unat a) (unat e) = unat a" by (simp add: word_less_nat_alt)
    then show ?thesis using less.prems False le by (subst paging_init_loop.simps) auto
  next
    case True
    note ap = aligned_add_page[OF less.prems(2,3) True]
    have mx: "max (unat (a + 0x1000)) (unat e) = max (unat a) (unat e)" "max (unat a) (unat e) = unat e" using ap by simp_all
    have dv: "unat a div 0x400000 = (unat a - 1) div 0x400000 + ?d" by (rule div_pred[OF less.prems(4)])
    show ?thesis
    proof (cases "0x400000 dvd unat a \<and> pmm_allocated s = pmm_pages s")
      case oom: True
      have "unat a div 0x400000 \<le> (unat e - 1) div 0x400000" by (rule div_le_mono) (use ap in simp)
      then have "unat (total_pages s) < b + (unat e - 1) div 0x400000"
        using dv oom less.prems(5) card_pmm(3)[OF inv] by simp
      moreover have "paging_init_step pd a s = Inl (Panic ''paging_init: OOM'')"
        using paging_init_step_ok[OF less.prems(1,2)] oom by simp
      ultimately show ?thesis unfolding mx(2) using True by (subst paging_init_loop.simps) simp
    next
      case False
      then obtain s1 where s1: "paging_init_step pd a s = Inr s1" "pages_mem s s1" "identity_state pd (unat a + 4096) s1"
        "card (pmm_allocated s1) = card (pmm_allocated s) + ?d"
        using paging_init_step_ok[OF less.prems(1,2)] by (auto split: if_splits)
      obtain k where k: "unat a = 4096 * k" using aligned_page[OF less.prems(2)] by blast
      have "(unat a + 4096 - 1) div 0x400000 = unat a div 0x400000"
        unfolding k using div_mult2_eq[of "4096 * k + 4096 - 1" 4096 1024] div_mult2_eq[of "4096 * k" 4096 1024] by simp
      then have c: "card (pmm_allocated s1) = b + (unat (a + 0x1000) - 1) div 0x400000" using s1(4) less.prems(5) ap(1) dv by simp
      have "paging_init_loop pd a e s = paging_init_loop pd (a + 0x1000) e s1"
        using True s1(1) by (subst paging_init_loop.simps) simp
      moreover have "unat e - unat (a + 0x1000) < unat e - unat a" using ap(1,2) by simp
      from less.hyps[OF this, of s1] have "if b + (max (unat a) (unat e) - 1) div 0x400000 \<le> unat (total_pages s)
        then \<exists>s'. paging_init_loop pd (a + 0x1000) e s1 = Some (Inr s') \<and> pages_mem s1 s' \<and> identity_state pd (max (unat a) (unat e)) s'
          \<and> card (pmm_allocated s') = b + (max (unat a) (unat e) - 1) div 0x400000
        else paging_init_loop pd (a + 0x1000) e s1 = Some (Inl (Panic ''paging_init: OOM''))"
        using s1(3) ap less.prems(3) c pages_mem_more[OF s1(2)] unfolding mx(1) by simp
      ultimately show ?thesis using pages_mem_trans[OF s1(2)]
        by (cases "b + (max (unat a) (unat e) - 1) div 0x400000 \<le> unat (total_pages s)") (simp_all only: if_True if_False, blast)
    qed
  qed
qed

lemma boot_entry:
  assumes "pd_index w = 0"
  shows "table ((pt_index w * 0x1000) OR 3) = w AND 0xFFFFF000" "present ((pt_index w * 0x1000) OR 3)"
    "((pt_index w * 0x1000) OR 3) AND 6 = 2"
proof -
  have p: "k * 0x1000 = push_bit 12 (k :: u32)" for k by (simp add: push_bit_eq_mult)
  have al: "aligned (pt_index w * 0x1000)"
    unfolding aligned_iff p by (rule bit_word_eqI) (auto simp: bit_simps)
  then show "present ((pt_index w * 0x1000) OR 3)" "((pt_index w * 0x1000) OR 3) AND 6 = 2"
    by (simp_all add: present_def)
  have small: "n < 22" if "bit w n" for n
  proof (rule ccontr)
    assume "\<not> n < 22"
    then have "bit (drop_bit 22 w) (n - 22)" using that by (simp add: bit_simps)
    then show False using assms by (simp add: pd_index_def)
  qed
  have "pt_index w * 0x1000 = w AND 0xFFFFF000"
    unfolding p pt_index_def page_mask using small by (auto intro!: bit_word_eqI simp: bit_simps) fastforce+
  then show "table ((pt_index w * 0x1000) OR 3) = w AND 0xFFFFF000" using al by simp
qed

lemma pd_index_zero: "pd_index w = 0 \<longleftrightarrow> unat w < 0x400000"
  by (simp add: pd_index_def word_unat_eq_iff drop_bit_eq_div unat_div div_eq_0_iff)

lemma paging_init_boot:
  assumes "pmm_inv s" and "aligned pd" "aligned bpt" "pd \<noteq> bpt" "pd \<in> pmm_allocated s" "bpt \<in> pmm_allocated s"
  defines "m \<equiv> set_entry pd 0 (bpt OR 3) (fill_entries pd (\<lambda>_ i. 0)
    (fill_entries bpt (\<lambda>_ i. (i * 0x1000) OR 3) (mem s)))"
  shows "identity_state pd 0x400000 (s\<lparr>mem := m\<rparr>)"
proof -
  have gpd: "get_entry m pd k = (if k = 0 then bpt OR 3 else 0)"
    and gbt: "get_entry m bpt k = (k * 0x1000) OR 3" if "k < 1024" for k
    using assms(2-4) that by (auto simp: m_def get_set_entry get_fill_entries)
  have t: "table (bpt OR 3) = bpt" "present (bpt OR 3)" "(bpt OR 3) AND 6 = 2"
    using assms(3) by (simp_all add: present_def)
  have "space_ok (pmm_allocated s) m pd"
    using assms(1-6) t by (auto simp: space_ok_def gpd split: if_splits)
  moreover have "walk m pd w = (if unat w < 0x400000 then Some (w AND 0xFFFFF000, 2) else None)" for w
  proof (cases "pd_index w = 0")
    case True
    have "(bpt OR 3) AND ((pt_index w * 0x1000) OR 3) AND 6 = 2"
      using flags_or[OF assms(3), of 3 2] by (simp add: boot_entry[OF True])
    then show ?thesis
      using True t boot_entry[OF True] by (simp add: walk_def gpd gbt pd_index_zero[symmetric] Let_def)
  next
    case False
    then show ?thesis by (simp add: walk_def gpd pd_index_zero[symmetric])
  qed
  moreover have "tables_below 0x400000 m pd"
    using t(2) by (auto simp: tables_below_def gpd word_unat_eq_iff present_def)
  ultimately show ?thesis
    using assms(1) t by (auto simp: identity_state_def identity_below_def gpd)
qed

lemma unat_megabytes: "unat mb < 4096 \<Longrightarrow> unat (mb * 1024 * 1024 :: u32) = unat mb * 0x100000"
  by (simp add: unat_word_ariths)

lemma megabyte_tables: "4 \<le> n \<Longrightarrow> (n * 0x100000 - 1) div 0x400000 = (n - 1) div (4 :: nat)"
proof -
  assume "4 \<le> n"
  then have "n * 0x100000 - 1 = (n - 1) * 0x100000 + 0xFFFFF" by (cases n) simp_all
  then have "(n * 0x100000 - 1) div 0x100000 = n - 1" by simp
  then show ?thesis using div_mult2_eq[of "n * 0x100000 - 1" "0x100000" 4] by simp
qed

lemma paging_init_ok:
  assumes "pmm_inv s" and "aligned pd" "aligned bpt" "pd \<noteq> bpt" "pd \<in> pmm_allocated s" "bpt \<in> pmm_allocated s"
    and "unat (total_memory_mb s) < 4096"
  defines "mb \<equiv> max 4 (if total_memory_mb s = 0 then 32 else unat (total_memory_mb s))"
  shows "if (mb - 1) div 4 \<le> unat (pmm_free_pages s)
    then \<exists>s'. paging_init pd bpt s = Inr s' \<and> identity_state pd (mb * 0x100000) s' \<and> cr3 s' = pd \<and> cr0 s' = cr0 s OR 0x80000000
      \<and> unat (pmm_free_pages s') = unat (pmm_free_pages s) - (mb - 1) div 4 \<and> vmm_state.more s' = vmm_state.more s
    else paging_init pd bpt s = Inl (Panic ''paging_init: OOM'')"
proof -
  let ?mb = "if total_memory_mb s = 0 then 32 else total_memory_mb s"
  define e where "e = ?mb * 1024 * 1024"
  have mb: "max 4 (unat ?mb) = mb" "unat ?mb < 4096" using assms(7) by (auto simp: mb_def)
  have ue: "unat e = unat ?mb * 0x100000" unfolding e_def unat_megabytes[OF mb(2)] ..
  define s1 where "s1 = s\<lparr>mem := set_entry pd 0 (bpt OR 3) (fill_entries pd (\<lambda>_ i. 0)
    (fill_entries bpt (\<lambda>_ i. (i * 0x1000) OR 3) (mem s)))\<rparr>"
  have st: "identity_state pd (unat (0x400000 :: u32)) s1"
    using paging_init_boot[OF assms(1-6)] by (simp add: s1_def)
  have al: "aligned 0x400000" "aligned e" using ue by (simp_all add: aligned_def)
  have eq: "paging_init pd bpt s = bindR (bindR (returns (paging_init_loop pd 0x400000 e s1)) id) (\<lambda>s.
      Inr (s\<lparr>cr3 := pd, cr0 := cr0 s OR 0x80000000\<rparr>))"
    by (simp add: paging_init_def s1_def e_def Let_def)
  have mx: "max (unat (0x400000 :: u32)) (unat e) = mb * 0x100000" unfolding ue mb(1)[symmetric] by (simp add: max_def)
  have mt: "(mb * 0x100000 - 1) div 0x400000 = (mb - 1) div 4" by (rule megabyte_tables) (simp add: mb_def)
  have s1: "pmm_allocated s1 = pmm_allocated s" "total_pages s1 = total_pages s" "cr0 s1 = cr0 s" "vmm_state.more s1 = vmm_state.more s"
    by (simp_all add: s1_def pmm_allocated_def used_set_def)
  note l = paging_init_loop_ok[OF st al, where b = "card (pmm_allocated s)", unfolded mx mt s1]
  have free: "(mb - 1) div 4 \<le> unat (pmm_free_pages s) \<longleftrightarrow> card (pmm_allocated s) + (mb - 1) div 4 \<le> unat (total_pages s)"
    using card_pmm(2)[OF assms(1)] by linarith
  show ?thesis
  proof (cases "(mb - 1) div 4 \<le> unat (pmm_free_pages s)")
    case True
    then obtain s2 where s2: "paging_init_loop pd 0x400000 e s1 = Some (Inr s2)" "pages_mem s1 s2" "identity_state pd (mb * 0x100000) s2"
      "card (pmm_allocated s2) = card (pmm_allocated s) + (mb - 1) div 4" using l free by auto
    let ?s = "s2\<lparr>cr3 := pd, cr0 := cr0 s2 OR 0x80000000\<rparr>"
    have "identity_state pd (mb * 0x100000) ?s"
      using s2(3) by (simp add: identity_state_def pmm_inv_def pmm_allocated_def used_set_def)
    moreover have "cr0 s2 = cr0 s" using s2(2) s1(3) by (auto simp: pages_mem_def)
    moreover have "unat (pmm_free_pages s2) = unat (pmm_free_pages s) - (mb - 1) div 4"
      using card_pmm(2)[OF assms(1)] card_pmm(2)[of s2] s2(3,4) pages_mem_more[OF s2(2)] s1(2) by (simp add: identity_state_def)
    moreover have "vmm_state.more s2 = vmm_state.more s" using pages_mem_more[OF s2(2)] s1(4) by simp
    ultimately show ?thesis using True by (simp add: eq s2(1) pmm_free_pages_def)
  next
    case False
    then have "paging_init_loop pd 0x400000 e s1 = Some (Inl (Panic ''paging_init: OOM''))" using l free by simp
    then show ?thesis using False by (simp add: eq)
  qed
qed

section \<open>User pages\<close>

lemma tables_add:
  assumes "i < 1024" and "get_entry m' pd (of_nat i) = pt OR 7" "aligned pt" "\<not> present (get_entry m pd (of_nat i))"
    and "\<forall>k < 1024. k \<noteq> of_nat i \<longrightarrow> get_entry m' pd k = get_entry m pd k"
  shows "tables m' pd {..<1024} = insert pt (tables m pd {..<1024})"
    and "pt \<notin> tables m pd {..<1024} \<Longrightarrow> separate m pd {..<1024} \<Longrightarrow> separate m' pd {..<1024}"
proof -
  have own: "owned (get_entry m' pd (of_nat i))" "table (get_entry m' pd (of_nat i)) = pt"
    using assms(2,3) by (simp_all add: owned_def present_def)
  have other: "get_entry m' pd (of_nat j) = get_entry m pd (of_nat j)" if "j < 1024" "j \<noteq> i" for j
    using assms(1,5) of_nat_index that by metis
  have no: "\<not> owned (get_entry m pd (of_nat i))" using assms(4) by (simp add: owned_def)
  have split: "{..<1024} = insert i ({..<1024} - {i})" using assms(1) by auto
  have rest: "tables m' pd ({..<1024} - {i}) = tables m pd ({..<1024} - {i})"
    using other unfolding tables_def by (intro Collect_cong) (metis DiffE lessThan_iff singletonI)
  show t: "tables m' pd {..<1024} = insert pt (tables m pd {..<1024})"
    by (subst (1 2) split) (simp only: tables_insert own no rest if_True if_False)
  assume new: "pt \<notin> tables m pd {..<1024}" and sep: "separate m pd {..<1024}"
  show "separate m' pd {..<1024}"
    unfolding separate_def
  proof (intro ballI impI)
    fix j k
    assume jk: "j \<in> {..<1024}" "k \<in> {..<1024}" and o: "owned (get_entry m' pd (of_nat j)) \<and> owned (get_entry m' pd (of_nat k))
      \<and> table (get_entry m' pd (of_nat j)) = table (get_entry m' pd (of_nat k))"
    have ne: "table (get_entry m' pd (of_nat l)) \<noteq> pt" if "l \<in> {..<1024}" "l \<noteq> i" "owned (get_entry m' pd (of_nat l))" for l
      using tables_in[of l "{..<1024}" m pd] other[of l] that new by auto
    consider "j = i" | "k = i" | "j \<noteq> i" "k \<noteq> i" by blast
    then show "j = k"
    proof cases
      case 3
      then show ?thesis using sep o jk other[of j] other[of k] unfolding separate_def by auto
    qed (use ne[of j] ne[of k] jk o own in auto)
  qed
qed

lemma user_addr_index:
  "pd_index USER_CODE_ADDR = 256" "pd_index USER_STACK_ADDR = 256"
  "\<not> same_page USER_CODE_ADDR USER_STACK_ADDR" "same_page USER_STACK_ADDR USER_STACK_ADDR"
  by (simp_all add: pd_index_def vmm_consts same_page_div drop_bit_eq_div word_unat_eq_iff unat_div)

lemma walk_absent: "\<not> present (get_entry m pd (pd_index w)) \<Longrightarrow> walk m pd w = None"
  by (simp add: walk_def)

text \<open>Installing the user program either maps both of its pages, taking one page for
  the table and one for the stack, or leaves the stack unmapped.\<close>

lemma user_install_ok:
  assumes inv: "pmm_inv s" and ok: "space_ok (pmm_allocated s) (mem s) pd" and "pd \<noteq> 0" "user_code_phys s \<noteq> 0"
    and np: "\<not> present (get_entry (mem s) pd 256)"
  obtains (unmapped) s' q where "user_install_into_space pd s = Inr s'" "walk (mem s') pd USER_STACK_ADDR = None"
    "pmm_pages s \<subseteq> insert q (pmm_allocated s)"
  | (mapped) s' pt p where "user_install_into_space pd s = Inr s'" "pmm_inv s'"
    "pt \<notin> pmm_allocated s" "p \<notin> insert pt (pmm_allocated s)" "aligned pt"
    "pmm_allocated s' = insert p (insert pt (pmm_allocated s))"
    "get_entry (mem s') pd 256 = pt OR 7" "\<forall>k < 1024. k \<noteq> 256 \<longrightarrow> get_entry (mem s') pd k = get_entry (mem s) pd k"
    "walk (mem s') pd USER_CODE_ADDR = Some (user_code_phys s AND 0xFFFFF000, 4)"
    "walk (mem s') pd USER_STACK_ADDR = Some (p, 6)"
proof -
  note idx = user_addr_index
  note def = user_install_into_space_def
  show thesis
  proof (rule page_alloc_cases[OF inv])
    assume a: "pmm_alloc_page s = Inr (nullptr, s)" "pmm_allocated s = pmm_pages s"
    then have "vmm_map pd USER_CODE_ADDR (user_code_phys s) (VMM_PRESENT OR VMM_USER) s = Inr (-1, s)"
      using np by (simp add: vmm_map_def idx present_def vmm_consts(1))
    then show thesis
      using unmapped[of s nullptr] walk_absent[of "mem s" pd USER_STACK_ADDR] np assms(3,4) a by (auto simp: def idx)
  next
    fix pt bm u
    let ?s1 = "s\<lparr>bitmap := bm, used_pages := u\<rparr>"
    assume page: "pmm_alloc_page s = Inr (pt, ?s1)" "pt \<noteq> nullptr" "aligned pt" "pt \<notin> pmm_allocated s" "pmm_inv ?s1"
      "pmm_allocated ?s1 = insert pt (pmm_allocated s)"
    obtain m where m: "vmm_map pd USER_CODE_ADDR (user_code_phys s) (VMM_PRESENT OR VMM_USER) s = Inr (0, ?s1\<lparr>mem := m\<rparr>)"
      "space_ok (insert pt (pmm_allocated s)) m pd"
      "\<forall>w. walk m pd w = (if same_page w USER_CODE_ADDR
         then if present (VMM_PRESENT OR VMM_USER) then Some (user_code_phys s AND 0xFFFFF000, (VMM_PRESENT OR VMM_USER) AND 6) else None
         else walk (mem s) pd w)"
      "get_entry m pd 256 = pt OR 7" "\<forall>k < 1024. k \<noteq> 256 \<longrightarrow> get_entry m pd k = get_entry (mem s) pd k"
      by (rule vmm_map_absent[OF ok _ page(1-4), where virt = USER_CODE_ADDR and phys = "user_code_phys s" and
        flags = "VMM_PRESENT OR VMM_USER", unfolded idx(1), OF np])
    let ?s2 = "?s1\<lparr>mem := m\<rparr>"
    have nsp: "\<not> same_page USER_STACK_ADDR USER_CODE_ADDR" using idx(3) by (simp add: same_page_def)
    have inv2: "pmm_inv ?s2" using page(5) by simp
    show thesis
    proof (rule page_alloc_cases[OF inv2])
      assume a: "pmm_alloc_page ?s2 = Inr (nullptr, ?s2)" "pmm_allocated ?s2 = pmm_pages ?s2"
      then have "pmm_pages s \<subseteq> insert pt (pmm_allocated s)" using page(6) by simp
      then show thesis
        using unmapped[of ?s2 pt] a m(1,3) nsp np assms(3,4) walk_absent[of "mem s" pd USER_STACK_ADDR] by (auto simp: def idx)
    next
      fix p bm' u'
      let ?s3 = "?s2\<lparr>bitmap := bm', used_pages := u'\<rparr>"
      assume page2: "pmm_alloc_page ?s2 = Inr (p, ?s3)" "p \<noteq> nullptr" "aligned p" "p \<notin> pmm_allocated ?s2"
        "pmm_inv ?s3" "pmm_allocated ?s3 = insert p (pmm_allocated ?s2)"
      let ?f = "VMM_PRESENT OR VMM_WRITABLE OR VMM_USER"
      have f: "present (VMM_PRESENT OR VMM_USER)" "(VMM_PRESENT OR VMM_USER) AND 6 = 4" "present ?f" "?f AND 6 = 6"
        by (simp_all add: present_def vmm_consts)
      have ok3: "space_ok (insert pt (pmm_allocated s)) (mem ?s3) pd" using m(2) by simp
      have p3: "present (get_entry (mem ?s3) pd (pd_index USER_STACK_ADDR))"
        using page(3) by (simp add: idx m(4) present_def)
      obtain m' where m': "vmm_map pd USER_STACK_ADDR p ?f ?s3 = Inr (0, ?s3\<lparr>mem := m'\<rparr>)"
        "\<forall>w. walk m' pd w = (if same_page w USER_STACK_ADDR
           then if present ?f then Some (p AND 0xFFFFF000, get_entry (mem ?s3) pd (pd_index USER_STACK_ADDR) AND ?f AND 6) else None
           else walk (mem ?s3) pd w)"
        "same_entries (- {table (get_entry (mem ?s3) pd (pd_index USER_STACK_ADDR))}) (mem ?s3) m'"
        using vmm_map_present[OF ok3 p3, of p ?f] by metis
      have tb: "table (get_entry (mem ?s3) pd (pd_index USER_STACK_ADDR)) = pt" "pd \<noteq> pt" "aligned pd"
        using page(3,4) ok by (auto simp: idx m(4) space_ok_def)
      have ge: "get_entry m' pd k = get_entry m pd k" if "k < 1024" for k
        using same_entriesD[OF m'(3)[unfolded tb(1)], of pd] tb(2,3) that by simp
      have pm: "p AND 0xFFFFF000 = p" using page_or(1)[OF page2(3), of 0] by simp
      have ws: "walk m' pd USER_STACK_ADDR = Some (p, 6)"
        using m'(2) f rights_all[OF page(3), of ?f] pm by (simp add: idx m(4))
      have wc: "walk m' pd USER_CODE_ADDR = Some (user_code_phys s AND 0xFFFFF000, 4)"
        using m'(2) m(3) f idx(3) by (simp add: same_page_def)
      have run: "user_install_into_space pd s = Inr (?s3\<lparr>mem := m'\<rparr>)"
        using assms(3,4) m(1) page2(1,2) m'(1) by (simp add: def)
      have inv3: "pmm_inv (?s3\<lparr>mem := m'\<rparr>)" using page2(5) unfolding pmm_mem .
      have all3: "pmm_allocated (?s3\<lparr>mem := m'\<rparr>) = insert p (insert pt (pmm_allocated s))"
        using page2(6) unfolding pmm_mem page(6) .
      have nin: "p \<notin> insert pt (pmm_allocated s)" using page2(4) unfolding pmm_mem page(6) .
      show thesis
        by (rule mapped[OF run inv3 page(4) nin page(3) all3]) (use ge m(4,5) ws wc in simp_all)
    qed
  qed
qed

section \<open>Example states\<close>

definition demo_vbitmap :: "u8 list" where
  "demo_vbitmap = 15 # replicate 32767 0"

text \<open>A machine with 8 pages of which the first 4 are in use, and an empty page directory at page 1.\<close>

definition demo_vmm :: vmm_state where
  "demo_vmm = \<lparr>bitmap = demo_vbitmap, total_pages = 8, used_pages = 4, mem = (\<lambda>_. 0), free_list = nullptr,
     heap_end = 0, console = demo_terminal, total_memory_mb = 1, g_mbi = nullptr, cr3 = 0x1000, cr0 = 1,
     kernel_space = 0x1000, user_code_phys = 0x2000, user_code_size = 16\<rparr>"

lemma demo_vbitmap_facts: "length demo_vbitmap = 32768" "demo_vbitmap ! 0 = 15"
  by (simp_all add: demo_vbitmap_def)

lemma demo_vmm_used: "used_set demo_vmm = {..<4}"
proof -
  have "page_used demo_vbitmap i = (i < 4)" if "i < 8" for i
  proof -
    have "i div 8 = 0" "i mod 8 = i" using that by simp_all
    moreover have "bit (15 :: u8) i = (i < 4)"
    proof -
      have "(15 :: u8) = mask 4" by (simp add: mask_numeral)
      then show ?thesis using that by (simp only: bit_mask_iff) simp
    qed
    ultimately show ?thesis by (simp add: page_used_def demo_vbitmap_facts)
  qed
  then show ?thesis by (auto simp: used_set_def demo_vmm_def)
qed

lemma demo_vmm_inv: "pmm_inv demo_vmm" "pmm_allocated demo_vmm = {0, 0x1000, 0x2000, 0x3000}"
  "pmm_pages demo_vmm = pmm_allocated demo_vmm \<union> {0x4000, 0x5000, 0x6000, 0x7000}"
proof -
  show "pmm_inv demo_vmm"
    unfolding pmm_inv_def demo_vmm_used by (simp add: demo_vmm_def demo_vbitmap_facts)
  have four: "{..<4} = {0, 1, 2, 3 :: nat}" and eight: "{..<8} = {0, 1, 2, 3, 4, 5, 6, 7 :: nat}" by auto
  show a: "pmm_allocated demo_vmm = {0, 0x1000, 0x2000, 0x3000}"
    unfolding pmm_allocated_def demo_vmm_used four by (simp add: page_addr_def PAGE_SIZE_def)
  have "unat (total_pages demo_vmm) = 8" by (simp add: demo_vmm_def)
  then show "pmm_pages demo_vmm = pmm_allocated demo_vmm \<union> {0x4000, 0x5000, 0x6000, 0x7000}"
    unfolding a pmm_pages_def by (simp only: eight) (auto simp: page_addr_def PAGE_SIZE_def)
qed

lemma demo_vmm_fields: "mem demo_vmm = (\<lambda>_. 0)" "kernel_space demo_vmm = 0x1000" "user_code_phys demo_vmm = 0x2000"
  "total_memory_mb demo_vmm = 1" "get_entry (\<lambda>_. 0) b i = 0"
  by (simp_all add: demo_vmm_def get_entry_def rd32_def)

lemma demo_vmm_space: "space_ok (pmm_allocated demo_vmm) (mem demo_vmm) 0x1000"
  by (simp add: space_ok_def demo_vmm_fields demo_vmm_inv aligned_def)

section \<open>Properties\<close>

lemma vmm_unmap_walk:
  assumes "space_ok U (mem s) space"
  shows "walk (mem (snd (vmm_unmap space virt s))) space w = (if same_page w virt then None else walk (mem s) space w)"
proof (cases "present (get_entry (mem s) space (pd_index virt))")
  case True
  then have "vmm_unmap space virt s = (0, s\<lparr>mem := set_entry (table (get_entry (mem s) space (pd_index virt))) (pt_index virt) 0 (mem s)\<rparr>)"
    by (simp add: vmm_unmap_def present_def table_def Let_def vmm_consts)
  then show ?thesis using set_pte(2)[OF assms True, of 0 w] by simp
next
  case False
  then have "vmm_unmap space virt s = (0, s)" by (simp add: vmm_unmap_def present_def vmm_consts)
  moreover have "walk (mem s) space w = None" if "same_page w virt"
    using walk_absent[of "mem s" space w] False that unfolding same_page_def index_page[symmetric] by simp
  ultimately show ?thesis by simp
qed

text \<open>C3: \<open>vmm_map\<close> makes the page that holds \<open>virt\<close> translate to the frame of \<open>phys\<close> with the
  rights of \<open>flags\<close> (as far as the directory entry grants them) and changes the
  translation of no other page; it fails, changing nothing, exactly when it needs a
  table and no page is free. \<open>vmm_unmap\<close> then removes the translation of that page only.\<close>

theorem vmm_map_translates:
  assumes inv: "pmm_inv s" and ok: "space_ok (pmm_allocated s) (mem s) space"
  shows "\<exists>r s'. vmm_map space virt phys flags s = Inr (r, s') \<and>
    (if r = 0 then pmm_inv s' \<and> space_ok (pmm_allocated s') (mem s') space
       \<and> (\<forall>w. walk (mem s') space w = (if same_page w virt
            then if present flags then Some (phys AND 0xFFFFF000, get_entry (mem s') space (pd_index virt) AND flags AND 6)
                 else None
            else walk (mem s) space w))
       \<and> (\<forall>w. walk (mem (snd (vmm_unmap space virt s'))) space w = (if same_page w virt then None else walk (mem s) space w))
     else r = -1 \<and> s' = s \<and> \<not> present (get_entry (mem s) space (pd_index virt)) \<and> pmm_allocated s = pmm_pages s)"
proof (cases "present (get_entry (mem s) space (pd_index virt))")
  case True
  obtain m where m: "vmm_map space virt phys flags s = Inr (0, s\<lparr>mem := m\<rparr>)" "space_ok (pmm_allocated s) m space"
    "\<forall>w. walk m space w = (if same_page w virt
       then if present flags then Some (phys AND 0xFFFFF000, get_entry (mem s) space (pd_index virt) AND flags AND 6)
            else None
       else walk (mem s) space w)"
    "same_entries (- {table (get_entry (mem s) space (pd_index virt))}) (mem s) m"
    using vmm_map_present[OF ok True] .
  have "space \<noteq> table (get_entry (mem s) space (pd_index virt))" "aligned space"
    using ok True index_bound(1)[of virt] unfolding space_ok_def by (metis Diff_iff singletonI)+
  then have "get_entry m space (pd_index virt) = get_entry (mem s) space (pd_index virt)"
    using same_entriesD[OF m(4)] by simp
  then show ?thesis
    using m(1,2,3) inv vmm_unmap_walk[of "pmm_allocated s" "s\<lparr>mem := m\<rparr>" space virt] by simp
next
  case False
  show ?thesis
  proof (rule page_alloc_cases[OF inv])
    assume "pmm_alloc_page s = Inr (nullptr, s)" "pmm_allocated s = pmm_pages s"
    then show ?thesis using False by (simp add: vmm_map_def present_def vmm_consts)
  next
    fix pt bm u
    let ?s1 = "s\<lparr>bitmap := bm, used_pages := u\<rparr>"
    assume page: "pmm_alloc_page s = Inr (pt, ?s1)" "pt \<noteq> nullptr" "aligned pt" "pt \<notin> pmm_allocated s" "pmm_inv ?s1"
      "pmm_allocated ?s1 = insert pt (pmm_allocated s)"
    obtain m where m: "vmm_map space virt phys flags s = Inr (0, ?s1\<lparr>mem := m\<rparr>)"
      "space_ok (insert pt (pmm_allocated s)) m space"
      "\<forall>w. walk m space w = (if same_page w virt
         then if present flags then Some (phys AND 0xFFFFF000, flags AND 6) else None else walk (mem s) space w)"
      "get_entry m space (pd_index virt) = pt OR 7"
      using vmm_map_absent[OF ok False page(1-4)] by metis
    then show ?thesis
      using page(5,6) rights_all[OF page(3), of flags]
        vmm_unmap_walk[of "insert pt (pmm_allocated s)" "?s1\<lparr>mem := m\<rparr>" space virt] by simp
  qed
qed

theorem vmm_map_translates_witness:
  "\<exists>s' r. vmm_map 0x1000 0x40000000 0x3000 7 demo_vmm = Inr (0, s') \<and> walk (mem s') 0x1000 0x40000123 = Some (0x3000, r)"
proof -
  have n: "(0x7000 :: u32) \<notin> {0, 0x1000, 0x2000, 0x3000}" by simp
  have ne: "pmm_allocated demo_vmm \<noteq> pmm_pages demo_vmm"
    unfolding demo_vmm_inv(2,3) using n by blast
  have sp: "same_page 0x40000123 0x40000000" by (simp add: same_page_div)
  have fl: "present 7" "(0x3000 :: u32) AND 0xFFFFF000 = 0x3000" by (simp_all add: present_def)
  show ?thesis
    using vmm_map_translates[OF demo_vmm_inv(1) demo_vmm_space, of "0x40000000" "0x3000" 7] ne sp fl
    by (auto split: if_splits)
qed

text \<open>C4: \<open>vmm_create_space\<close> gives a directory with the translations of the kernel's, whose user
  tables are its own pages, and leaves the kernel's translations alone; when it runs
  out of pages it gives back every page it took.\<close>

theorem vmm_create_space_copies:
  assumes inv: "pmm_inv s" and ok: "space_ok (pmm_allocated s) (mem s) (kernel_space s)"
  shows "\<exists>pd s'. vmm_create_space s = Inr (pd, s') \<and> pmm_inv s'
    \<and> (\<forall>w. walk (mem s') (kernel_space s) w = walk (mem s) (kernel_space s) w)
    \<and> (if pd = 0 then pmm_allocated s' = pmm_allocated s
       else space_ok (pmm_allocated s') (mem s') pd \<and> tables (mem s') pd {..<1024} \<inter> pmm_allocated s = {}
         \<and> (\<forall>w. walk (mem s') pd w = walk (mem s) (kernel_space s) w))"
proof (rule vmm_create_cases[OF inv ok])
  fix s'
  assume c: "vmm_create_space s = Inr (0, s')" "pmm_inv s'" "pmm_allocated s' = pmm_allocated s"
    "same_entries (pmm_allocated s) (mem s) (mem s')"
  then show ?thesis using space_ok_same(2)[OF ok c(4), of "pmm_allocated s"] by auto
next
  fix pd s'
  assume c: "vmm_create_space s = Inr (pd, s')" "pd \<noteq> 0" "copied (pmm_allocated s) (mem s) (kernel_space s) pd 1024 s'"
  have d: "pmm_inv s'" "same_entries (pmm_allocated s) (mem s) (mem s')"
    "tables (mem s') pd {..<1024} \<inter> pmm_allocated s = {}"
    using c(3) unfolding copied_def by blast+
  have "\<forall>w. walk (mem s') (kernel_space s) w = walk (mem s) (kernel_space s) w"
    using space_ok_same(2)[OF ok d(2), of "pmm_allocated s"] by blast
  moreover have "\<forall>w. walk (mem s') pd w = walk (mem s) (kernel_space s) w" using copied_walk[OF c(3) ok] by blast
  ultimately show ?thesis using c(1,2) d(1,3) copied_space_ok[OF c(3) ok] by simp
qed

theorem vmm_create_space_copies_witness:
  "\<exists>pd s'. vmm_create_space demo_vmm = Inr (pd, s') \<and> pmm_inv s'
    \<and> walk (mem s') (kernel_space demo_vmm) 0x1000 = walk (mem demo_vmm) (kernel_space demo_vmm) 0x1000"
  using vmm_create_space_copies[of demo_vmm] demo_vmm_inv(1) demo_vmm_space by (auto simp: demo_vmm_fields(2))

lemma demo_create:
  obtains pd s' where "vmm_create_space demo_vmm = Inr (pd, s')" "pd \<noteq> 0" "pages_mem demo_vmm s'"
    "copied (pmm_allocated demo_vmm) (mem demo_vmm) 0x1000 pd 1024 s'"
proof (rule vmm_create_cases[OF demo_vmm_inv(1) demo_vmm_space[folded demo_vmm_fields(2)]])
  fix s'
  assume c: "vmm_create_space demo_vmm = Inr (0, s')"
  show thesis
  proof (rule page_alloc_cases[OF demo_vmm_inv(1)])
    assume a: "pmm_allocated demo_vmm = pmm_pages demo_vmm"
    have "(0x7000 :: u32) \<notin> {0, 0x1000, 0x2000, 0x3000}" by simp
    then show thesis using a unfolding demo_vmm_inv(2,3) by blast
  next
    fix pd bm u
    let ?s = "demo_vmm\<lparr>bitmap := bm, used_pages := u\<rparr>"
    assume page: "pmm_alloc_page demo_vmm = Inr (pd, ?s)" "pd \<noteq> nullptr" "aligned pd" "pd \<notin> pmm_allocated demo_vmm"
    have ne: "pd \<noteq> 0x1000" using page(4) by (auto simp: demo_vmm_inv(2))
    have run: "\<exists>t'. copy_directory pd 0x1000 is t = Inr (True, t')"
      if "\<forall>k < 1024. get_entry (mem t) 0x1000 k = 0" "\<forall>i \<in> set is. i < 1024" for "is" and t :: vmm_state
      using that
    proof (induction "is" arbitrary: t)
      case (Cons i "is")
      let ?t = "t\<lparr>mem := set_entry pd (of_nat i) 0 (mem t)\<rparr>"
      have "\<forall>k < 1024. get_entry (mem ?t) 0x1000 k = 0"
        using Cons.prems page(3) ne by (simp add: get_set_entry of_nat_index aligned_def)
      then show ?case using Cons by (simp add: of_nat_index)
    qed simp
    obtain t' where "copy_directory pd 0x1000 [0..<1024] ?s = Inr (True, t')"
      using run[of ?s "[0..<1024]"] by (auto simp: demo_vmm_fields simp del: upt_rec_numeral)
    then have "vmm_create_space demo_vmm = Inr (pd, t')"
      using page(1,2) by (simp add: vmm_create_space_def demo_vmm_fields del: upt_rec_numeral)
    then show thesis using c page(2) by simp
  qed
qed (use that demo_vmm_fields(2) in auto)

text \<open>C9: Destroying an address space that \<open>vmm_create_space\<close> made gives back exactly the pages
  it took, so the pages in use are those from before.\<close>

theorem vmm_create_destroy_roundtrip:
  assumes inv: "pmm_inv s" and ok: "space_ok (pmm_allocated s) (mem s) (kernel_space s)"
    and c: "vmm_create_space s = Inr (pd, s1)"
  shows "\<exists>s2. vmm_destroy_space pd s1 = Inr s2 \<and> pmm_inv s2 \<and> pmm_allocated s2 = pmm_allocated s"
proof (rule vmm_create_cases[OF inv ok])
  fix s'
  assume "vmm_create_space s = Inr (0, s')" "pmm_inv s'" "pmm_allocated s' = pmm_allocated s"
  then show ?thesis using c by (simp add: vmm_destroy_space_def)
next
  fix pd' s'
  assume d: "vmm_create_space s = Inr (pd', s')" "copied (pmm_allocated s) (mem s) (kernel_space s) pd' 1024 s'"
  then have "pd' = pd" "s' = s1" using c by auto
  then show ?thesis using copied_destroy[OF d(2)] by metis
qed

theorem vmm_create_destroy_roundtrip_witness:
  "\<exists>pd s1 s2. vmm_create_space demo_vmm = Inr (pd, s1) \<and> vmm_destroy_space pd s1 = Inr s2
     \<and> pmm_allocated s2 = {0, 0x1000, 0x2000, 0x3000}"
proof -
  obtain pd s1 where c: "vmm_create_space demo_vmm = Inr (pd, s1)" using demo_create by metis
  show ?thesis
    using vmm_create_destroy_roundtrip[OF demo_vmm_inv(1) demo_vmm_space[folded demo_vmm_fields(2)] c] c
    by (auto simp: demo_vmm_inv(2))
qed

text \<open>C5: With less than 4 GB reported, \<open>paging_init\<close> always ends. It needs one free page for each further 4 MB
  after the first, and panics exactly when there are fewer. Otherwise it turns paging on with a
  directory that maps every address of the reported memory (of 32 MB when none is
  reported, and always the first 4 MB) to itself, for the kernel only and writable, and no
  other address, and takes exactly the pages it needs.\<close>

theorem paging_init_identity:
  assumes "pmm_inv s" and "aligned page_directory" "aligned boot_page_table" "page_directory \<noteq> boot_page_table"
    and "page_directory \<in> pmm_allocated s" "boot_page_table \<in> pmm_allocated s"
    and "total_memory_mb s < 4096"
  shows "let mb = max 4 (if total_memory_mb s = 0 then 32 else unat (total_memory_mb s))
    in if (mb - 1) div 4 \<le> unat (pmm_free_pages s)
      then \<exists>s'. paging_init page_directory boot_page_table s = Inr s'
         \<and> cr3 s' = page_directory \<and> cr0 s' = cr0 s OR 0x80000000
         \<and> unat (pmm_free_pages s') = unat (pmm_free_pages s) - (mb - 1) div 4
         \<and> space_ok (pmm_allocated s') (mem s') page_directory
         \<and> (\<forall>w. walk (mem s') page_directory w = (if unat w < mb * 0x100000 then Some (w AND 0xFFFFF000, 2) else None))
      else paging_init page_directory boot_page_table s = Inl (Panic ''paging_init: OOM'')"
proof -
  define mb where "mb = max 4 (if total_memory_mb s = 0 then 32 else unat (total_memory_mb s))"
  have "unat (total_memory_mb s) < 4096" using assms(7) by (simp add: word_less_nat_alt)
  from paging_init_ok[OF assms(1-6) this, folded mb_def] show ?thesis
    unfolding mb_def[symmetric] Let_def
    by (cases "(mb - 1) div 4 \<le> unat (pmm_free_pages s)") (auto simp: identity_state_def identity_below_def)
qed

theorem paging_init_identity_witness:
  "(\<exists>s'. paging_init 0x1000 0x2000 (demo_vmm\<lparr>total_memory_mb := 16\<rparr>) = Inr s' \<and> walk (mem s') 0x1000 0xFFFFFF = Some (0xFFF000, 2)
     \<and> unat (pmm_free_pages s') = 1)
   \<and> paging_init 0x1000 0x2000 (demo_vmm\<lparr>total_memory_mb := 64\<rparr>) = Inl (Panic ''paging_init: OOM'')"
proof -
  have inv: "pmm_inv (demo_vmm\<lparr>total_memory_mb := n\<rparr>)" "pmm_allocated (demo_vmm\<lparr>total_memory_mb := n\<rparr>) = pmm_allocated demo_vmm"
    "pmm_free_pages (demo_vmm\<lparr>total_memory_mb := n\<rparr>) = 4" for n
    using demo_vmm_inv(1) by (simp_all add: pmm_inv_def pmm_allocated_def used_set_def pmm_free_pages_def) (simp add: demo_vmm_def)
  have "aligned 0x1000" "aligned 0x2000" "(0x1000 :: u32) \<noteq> 0x2000"
    "0x1000 \<in> pmm_allocated (demo_vmm\<lparr>total_memory_mb := n\<rparr>)" "0x2000 \<in> pmm_allocated (demo_vmm\<lparr>total_memory_mb := n\<rparr>)" for n
    by (simp_all add: inv(2) demo_vmm_inv(2) aligned_def)
  note p = paging_init_identity[OF inv(1) this]
  show ?thesis using p[of 16] p[of 64] by (auto simp: inv(3) Let_def)
qed

text \<open>C10: A process's address space with the user program installed and its stack mapped
  leaks that stack page: after \<open>vmm_destroy_space\<close> the page is still in use, and it is
  the only page still in use that was free before.\<close>

theorem user_space_leaks_stack:
  assumes inv: "pmm_inv s" and ok: "space_ok (pmm_allocated s) (mem s) (kernel_space s)"
    and np: "\<not> present (get_entry (mem s) (kernel_space s) 256)" and "user_code_phys s \<noteq> 0"
    and create: "vmm_create_space s = Inr (pd, s1)" "pd \<noteq> 0"
    and install: "user_install_into_space pd s1 = Inr s2" "walk (mem s2) pd USER_STACK_ADDR \<noteq> None"
  shows "\<exists>p s3. walk (mem s2) pd USER_STACK_ADDR = Some (p, 6)
    \<and> walk (mem s2) pd USER_CODE_ADDR = Some (user_code_phys s AND 0xFFFFF000, 4)
    \<and> vmm_destroy_space pd s2 = Inr s3 \<and> p \<notin> pmm_allocated s \<and> pmm_allocated s3 = insert p (pmm_allocated s)"
proof -
  let ?U = "pmm_allocated s"
  have c: "copied ?U (mem s) (kernel_space s) pd 1024 s1" "pages_mem s s1"
    by (rule vmm_create_cases[OF inv ok]; use create in auto)+
  have d: "pmm_inv s1" "aligned pd" "pd \<notin> ?U" "nullptr \<in> ?U" "separate (mem s1) pd {..<1024}"
    "tables (mem s1) pd {..<1024} \<inter> insert pd ?U = {}" "pmm_allocated s1 = insert pd ?U \<union> tables (mem s1) pd {..<1024}"
    and cp: "\<forall>i < 1024. entry_copy (mem s) (get_entry (mem s) (kernel_space s) (of_nat i)) (mem s1) (get_entry (mem s1) pd (of_nat i))"
    using c(1) unfolding copied_def by blast+
  have np1: "\<not> present (get_entry (mem s1) pd 256)"
    using cp[rule_format, of 256] np by (simp add: entry_copy_def)
  have code: "user_code_phys s1 = user_code_phys s" using pages_mem_same[OF c(2)] by simp
  show ?thesis
  proof (rule user_install_ok[OF d(1) copied_space_ok[OF c(1) ok] create(2) _ np1])
    show "user_code_phys s1 \<noteq> 0" using assms(4) code by simp
  next
    fix s'
    assume "user_install_into_space pd s1 = Inr s'" "walk (mem s') pd USER_STACK_ADDR = None"
    then show ?thesis using install by simp
  next
    fix s' pt p
    assume i: "user_install_into_space pd s1 = Inr s'" "pmm_inv s'" "pt \<notin> pmm_allocated s1"
      "p \<notin> insert pt (pmm_allocated s1)" "aligned pt" "pmm_allocated s' = insert p (insert pt (pmm_allocated s1))"
      "get_entry (mem s') pd 256 = pt OR 7" "\<forall>k < 1024. k \<noteq> 256 \<longrightarrow> get_entry (mem s') pd k = get_entry (mem s1) pd k"
      and w: "walk (mem s') pd USER_CODE_ADDR = Some (user_code_phys s1 AND 0xFFFFF000, 4)"
      "walk (mem s') pd USER_STACK_ADDR = Some (p, 6)"
    have s': "s' = s2" using i(1) install(1) by simp
    have t: "tables (mem s') pd {..<1024} = insert pt (tables (mem s1) pd {..<1024})"
      and sep: "separate (mem s') pd {..<1024}"
      using tables_add[of 256 "mem s'" pd pt "mem s1"] i(3,5,7,8) np1 d(5,7) by auto
    have "tables (mem s') pd {..<1024} \<subseteq> pmm_allocated s' - {nullptr, pd}" "pd \<in> pmm_allocated s'"
      unfolding t using d(4,6,7) i(3,6) by blast+
    from vmm_destroy_ok[OF i(2) sep create(2) this(2,1)] obtain bm u where
      v: "vmm_destroy_space pd s' = Inr (s'\<lparr>bitmap := bm, used_pages := u\<rparr>)"
      "pmm_allocated (s'\<lparr>bitmap := bm, used_pages := u\<rparr>) = pmm_allocated s' - tables (mem s') pd {..<1024} - {pd}"
      by metis
    have "pmm_allocated s' - tables (mem s') pd {..<1024} - {pd} = insert p ?U"
      unfolding t i(6) d(7) using i(3,4) d(3,6,7) by blast
    then show ?thesis
      using w v i(4) d(7) unfolding s' code by auto
  qed
qed

theorem user_space_leaks_stack_witness:
  "\<exists>pd s1 s2 s3 p. vmm_create_space demo_vmm = Inr (pd, s1) \<and> user_install_into_space pd s1 = Inr s2
     \<and> vmm_destroy_space pd s2 = Inr s3 \<and> p \<notin> pmm_allocated demo_vmm \<and> pmm_allocated s3 = insert p (pmm_allocated demo_vmm)"
proof -
  note space = demo_vmm_space[folded demo_vmm_fields(2)]
  obtain pd s1 where c: "vmm_create_space demo_vmm = Inr (pd, s1)" "pd \<noteq> 0" "pages_mem demo_vmm s1"
    and cp: "copied (pmm_allocated demo_vmm) (mem demo_vmm) 0x1000 pd 1024 s1" using demo_create by metis
  have zero: "get_entry (mem s1) pd (of_nat i) = 0" if "i < 1024" for i
    using cp that by (simp add: copied_def demo_vmm_fields entry_copy_def)
  then have "tables (mem s1) pd {..<1024} = {}" by (auto simp: tables_def owned_def)
  then have al: "pmm_inv s1" "pmm_allocated s1 = insert pd {0, 0x1000, 0x2000, 0x3000}"
    using cp by (simp_all add: copied_def demo_vmm_inv(2))
  have pages: "pmm_pages s1 = {0, 0x1000, 0x2000, 0x3000} \<union> {0x4000, 0x5000, 0x6000, 0x7000}"
    using pages_mem_same[OF c(3)] demo_vmm_inv(2,3) by simp
  have np: "\<not> present (get_entry (mem s1) pd 256)" using zero[of 256] by simp
  have code: "user_code_phys s1 \<noteq> 0" using pages_mem_same[OF c(3)] demo_vmm_fields(3) by simp
  obtain s2 where s2: "user_install_into_space pd s1 = Inr s2" "walk (mem s2) pd USER_STACK_ADDR \<noteq> None"
  proof (rule user_install_ok[OF al(1) copied_space_ok[OF cp demo_vmm_space] c(2) code np])
    fix q
    assume "pmm_pages s1 \<subseteq> insert q (pmm_allocated s1)"
    then have "{0x4000, 0x5000, 0x6000} \<subseteq> {q, pd}" unfolding pages al(2) by auto
    then show thesis by auto
  qed (use that in auto)
  have np0: "\<not> present (get_entry (mem demo_vmm) (kernel_space demo_vmm) 256)" by (simp add: demo_vmm_fields)
  have code0: "user_code_phys demo_vmm \<noteq> 0" by (simp add: demo_vmm_fields)
  show ?thesis
    using user_space_leaks_stack[OF demo_vmm_inv(1) space np0 code0 c(1,2) s2] c(1) s2(1) by blast
qed

end
