(* ===== verification/Sched_Correct.thy ===== *)
theory Sched_Correct
  imports Process Vmm_Properties
begin

text \<open>
  Correctness of scheduling. \<open>sched_wf\<close> says that the process table holds different
  live objects; \<open>one_running\<close> that no process but the current one is running. A
  tick keeps both, switches to the next process in the table that can run, and loads
  its address space; so every process that can run is reached within as many ticks as
  there are processes. The kernel stack allocator and the removal of a process from
  the table are here too.
\<close>

section \<open>The process table\<close>

definition sched_wf :: "'z proc_state_scheme \<Rightarrow> bool" where
  "sched_wf s \<longleftrightarrow> 0 \<le> process_count s \<and> process_count s \<le> 16 \<and> length (process_table s) = 16
     \<and> - 1 \<le> current_process s
     \<and> (\<forall>i < nat (process_count s). process_table s ! i \<noteq> nullptr \<and> procs s (process_table s ! i) \<noteq> None)
     \<and> distinct (take (nat (process_count s)) (process_table s))"

text \<open>The process at a position, as an object.\<close>

definition proc_at :: "'z proc_state_scheme \<Rightarrow> int \<Rightarrow> process" where
  "proc_at s i = the (procs s (process_table s ! nat i))"

definition can_run :: "task_state \<Rightarrow> bool" where
  "can_run st \<longleftrightarrow> st \<noteq> TASK_DEAD \<and> st \<noteq> TASK_BLOCKED"

definition one_running :: "'z proc_state_scheme \<Rightarrow> bool" where
  "one_running s \<longleftrightarrow>
     (\<forall>i. 0 \<le> i \<and> i < process_count s \<and> state (proc_at s i) = TASK_RUNNING \<longrightarrow> i = current_process s)"

lemma sched_wfD:
  assumes "sched_wf s" and "0 \<le> i" and "i < process_count s"
  shows "process_get i s = Inr (process_table s ! nat i)" "process_table s ! nat i \<noteq> nullptr"
    "procs s (process_table s ! nat i) = Some (proc_at s i)" "get_proc (process_table s ! nat i) s = Inr (proc_at s i)"
proof -
  have n: "nat i < nat (process_count s)" using assms(2,3) by simp
  then have e: "process_table s ! nat i \<noteq> nullptr" "procs s (process_table s ! nat i) \<noteq> None"
    using assms(1) unfolding sched_wf_def by blast+
  then show "process_table s ! nat i \<noteq> nullptr" "procs s (process_table s ! nat i) = Some (proc_at s i)"
    "get_proc (process_table s ! nat i) s = Inr (proc_at s i)"
    by (auto simp: proc_at_def get_proc_def)
  show "process_get i s = Inr (process_table s ! nat i)"
    using assms by (auto simp: sched_wf_def process_get_def array_get_def)
qed

lemma table_inj:
  assumes "sched_wf s" "0 \<le> i" "i < process_count s" "0 \<le> j" "j < process_count s"
  shows "process_table s ! nat i = process_table s ! nat j \<longleftrightarrow> i = j"
proof
  assume eq: "process_table s ! nat i = process_table s ! nat j"
  have d: "distinct (take (nat (process_count s)) (process_table s))" and l: "length (process_table s) = 16" "process_count s \<le> 16"
    using assms(1) by (auto simp: sched_wf_def)
  have "take (nat (process_count s)) (process_table s) ! nat i = take (nat (process_count s)) (process_table s) ! nat j"
    using eq assms by simp
  then have "nat i = nat j" using d l assms by (subst (asm) nth_eq_iff_index_eq) auto
  then show "i = j" using assms by simp
qed simp

text \<open>Changing one object of the table.\<close>

lemma set_proc_table:
  assumes "sched_wf s" and "0 \<le> i" and "i < process_count s"
  obtains s' where "set_proc (process_table s ! nat i) f s = Inr s'"
    "s' = s\<lparr>procs := (procs s)(process_table s ! nat i \<mapsto> f (proc_at s i))\<rparr>" "sched_wf s'"
    "\<forall>j. 0 \<le> j \<and> j < process_count s \<longrightarrow> proc_at s' j = (if j = i then f (proc_at s i) else proc_at s j)"
proof (rule that)
  let ?s = "s\<lparr>procs := (procs s)(process_table s ! nat i \<mapsto> f (proc_at s i))\<rparr>"
  show "set_proc (process_table s ! nat i) f s = Inr ?s"
    using sched_wfD(4)[OF assms] by (simp add: set_proc_def)
  show "sched_wf ?s" using assms(1) by (auto simp: sched_wf_def)
  show "\<forall>j. 0 \<le> j \<and> j < process_count s \<longrightarrow> proc_at ?s j = (if j = i then f (proc_at s i) else proc_at s j)"
    using table_inj[OF assms(1) _ _ assms(2,3)] by (auto simp: proc_at_def)
qed simp

section \<open>The next process\<close>

text \<open>\<open>next_after s from r\<close>: \<open>r\<close> is the first position after \<open>from\<close>, going round the table, whose
  process can run; or \<open>r\<close> is -1 and no process can.\<close>

definition next_after :: "'z proc_state_scheme \<Rightarrow> int \<Rightarrow> int \<Rightarrow> bool" where
  "next_after s from r \<longleftrightarrow>
     (r = -1 \<and> (\<forall>i. 0 \<le> i \<and> i < process_count s \<longrightarrow> \<not> can_run (state (proc_at s i))))
     \<or> (\<exists>d. 1 \<le> d \<and> d \<le> process_count s \<and> r = (from + d) mod process_count s \<and> can_run (state (proc_at s r))
          \<and> (\<forall>d'. 1 \<le> d' \<and> d' < d \<longrightarrow> \<not> can_run (state (proc_at s ((from + d') mod process_count s)))))"

lemma find_step_ok:
  assumes wf: "sched_wf s" and pos: "0 < process_count s"
  shows "k \<le> process_count s + 1 \<Longrightarrow> 1 \<le> k \<Longrightarrow>
    \<forall>d'. 1 \<le> d' \<and> d' < k \<longrightarrow> \<not> can_run (state (proc_at s ((from + d') mod process_count s))) \<Longrightarrow>
    \<exists>r. find_step from [k..process_count s] s = Inr r \<and>
      (r = -1 \<and> (\<forall>d'. 1 \<le> d' \<and> d' \<le> process_count s \<longrightarrow> \<not> can_run (state (proc_at s ((from + d') mod process_count s))))
       \<or> (\<exists>d. 1 \<le> d \<and> d \<le> process_count s \<and> r = (from + d) mod process_count s \<and> can_run (state (proc_at s r))
          \<and> (\<forall>d'. 1 \<le> d' \<and> d' < d \<longrightarrow> \<not> can_run (state (proc_at s ((from + d') mod process_count s))))))"
proof (induction "nat (process_count s + 1 - k)" arbitrary: k)
  case 0
  then have "k = process_count s + 1" by simp
  then show ?case using 0 by auto
next
  case (Suc n)
  let ?i = "(from + k) mod process_count s"
  have k: "k \<le> process_count s" using Suc by simp
  have i: "0 \<le> ?i" "?i < process_count s" using pos by simp_all
  note g = sched_wfD[OF wf i]
  have step: "find_step from [k..process_count s] s
      = (if can_run (state (proc_at s ?i)) then Inr ?i else find_step from [k + 1..process_count s] s)"
    using k g by (subst upto_rec1) (simp_all add: process_total_def can_run_def Let_def)
  show ?case
  proof (cases "can_run (state (proc_at s ?i))")
    case True
    then show ?thesis using step Suc.prems k by auto
  next
    case False
    have "\<forall>d'. 1 \<le> d' \<and> d' < k + 1 \<longrightarrow> \<not> can_run (state (proc_at s ((from + d') mod process_count s)))"
    proof (intro allI impI)
      fix d' assume "1 \<le> d' \<and> d' < k + 1"
      then show "\<not> can_run (state (proc_at s ((from + d') mod process_count s)))"
        using Suc.prems(3) False by (cases "d' = k") auto
    qed
    then show ?thesis using Suc.hyps(1)[of "k + 1"] Suc.hyps(2) Suc.prems k step False by auto
  qed
qed

lemma around_table:
  fixes a n i :: int
  assumes "0 < n" "0 \<le> i" "i < n"
  shows "\<exists>d. 1 \<le> d \<and> d \<le> n \<and> i = (a + d) mod n"
proof (intro exI conjI)
  let ?d = "(i - a - 1) mod n + 1"
  have b: "0 \<le> (i - a - 1) mod n" "(i - a - 1) mod n < n" using assms(1) by simp_all
  show "1 \<le> ?d" "?d \<le> n" using b by simp_all
  have "(a + ?d) mod n = ((a + 1) + (i - a - 1) mod n) mod n" by (simp add: algebra_simps)
  also have "\<dots> = ((a + 1) + (i - a - 1)) mod n" by (simp only: mod_add_right_eq)
  also have "\<dots> = i" using assms by simp
  finally show "i = (a + ?d) mod n" by simp
qed

lemma find_next_ok:
  assumes wf: "sched_wf s"
  obtains r where "find_next from s = Inr r" "next_after s from r"
proof (cases "process_count s = 0")
  case True
  then have "next_after s from (-1)" unfolding next_after_def by auto
  then show thesis using that[of "-1"] True by (simp add: find_next_def process_total_def)
next
  case False
  then have pos: "0 < process_count s" using wf by (simp add: sched_wf_def)
  have none: "\<forall>d'. 1 \<le> d' \<and> d' < 1 \<longrightarrow> \<not> can_run (state (proc_at s ((from + d') mod process_count s)))" by (intro allI impI) linarith
  have "1 \<le> process_count s + 1" using pos by simp
  from find_step_ok[OF wf pos this order.refl none] obtain r where r: "find_step from [1..process_count s] s = Inr r"
    "r = -1 \<and> (\<forall>d'. 1 \<le> d' \<and> d' \<le> process_count s \<longrightarrow> \<not> can_run (state (proc_at s ((from + d') mod process_count s))))
       \<or> (\<exists>d. 1 \<le> d \<and> d \<le> process_count s \<and> r = (from + d) mod process_count s \<and> can_run (state (proc_at s r))
          \<and> (\<forall>d'. 1 \<le> d' \<and> d' < d \<longrightarrow> \<not> can_run (state (proc_at s ((from + d') mod process_count s)))))" by blast
  have "next_after s from r"
    unfolding next_after_def using r(2) around_table[OF pos, of _ "from"] by metis
  then show thesis using that[of r] r(1) False by (simp add: find_next_def process_total_def Let_def)
qed

section \<open>A tick of the scheduler\<close>

text \<open>\<open>ticked\<close> is what a tick does to the previous process.\<close>

definition ticked :: "u32 \<Rightarrow> process \<Rightarrow> process" where
  "ticked e x =
     (if state x = TASK_RUNNING then x\<lparr>state := TASK_READY, saved_esp := e\<rparr>
      else if state x = TASK_BLOCKED then x\<lparr>saved_esp := e\<rparr> else x)"

lemma ticked_can_run [simp]: "can_run (state (ticked e x)) = can_run (state x)"
  by (simp add: ticked_def can_run_def)

lemma ticked_not_running [simp]: "state (ticked e x) \<noteq> TASK_RUNNING"
  by (simp add: ticked_def)

lemma ticked_same [simp]: "address_space (ticked e x) = address_space x" "kernel_stack (ticked e x) = kernel_stack x"
  "kernel_stack_top (ticked e x) = kernel_stack_top x" "pid (ticked e x) = pid x"
  by (simp_all add: ticked_def)

text \<open>The result of a tick that switches to position \<open>r\<close>.\<close>

definition switched :: "u32 \<Rightarrow> 'z proc_state_scheme \<Rightarrow> int \<Rightarrow> u32 \<Rightarrow> 'z proc_state_scheme \<Rightarrow> bool" where
  "switched e s r e' s' \<longleftrightarrow> current_process s' = r \<and> process_count s' = process_count s \<and> process_table s' = process_table s
     \<and> (\<forall>i. 0 \<le> i \<and> i < process_count s \<longrightarrow> proc_at s' i =
          (let x = (if i = current_process s then ticked e (proc_at s i) else proc_at s i)
           in if i = r then x\<lparr>state := TASK_RUNNING\<rparr> else x))
     \<and> e' = (let x = proc_at s' r in if saved_esp x \<noteq> 0 then saved_esp x else kernel_stack_top x)
     \<and> cr3 s' = (if address_space (proc_at s r) \<noteq> 0 then address_space (proc_at s r) else cr3 s)
     \<and> tss_esp0 (tss s') = (if kernel_stack (proc_at s r) \<noteq> 0 then kernel_stack (proc_at s r) else tss_esp0 (tss s))"

lemma next_after_nonneg: "next_after s a r \<Longrightarrow> r \<noteq> -1 \<Longrightarrow> 0 < process_count s \<Longrightarrow> 0 \<le> r \<and> r < process_count s"
  by (auto simp: next_after_def)

lemma next_after_cong:
  assumes "process_count s' = process_count s"
    and "\<And>i. 0 \<le> i \<Longrightarrow> i < process_count s \<Longrightarrow> can_run (state (proc_at s' i)) = can_run (state (proc_at s i))"
    and pos: "0 < process_count s"
  shows "next_after s' a r = next_after s a r"
proof -
  have m: "can_run (state (proc_at s' (x mod process_count s))) = can_run (state (proc_at s (x mod process_count s)))" for x
    using assms(2)[of "x mod process_count s"] pos by simp
  show ?thesis
    unfolding next_after_def assms(1) using assms(2) m by (auto; metis m)
qed

lemma tick_prev:
  assumes wf: "sched_wf s" and pos: "0 < process_count s"
  obtains p s1 where "(if current_process s \<ge> 0 then process_get (current_process s) s else Inr nullptr) = Inr p"
    "(if p = nullptr then Inr s else set_proc p (ticked e) s) = Inr s1" "sched_wf s1"
    "\<exists>pr. s1 = s\<lparr>procs := pr\<rparr>"
    "\<forall>i. 0 \<le> i \<and> i < process_count s \<longrightarrow>
      proc_at s1 i = (if i = current_process s then ticked e (proc_at s i) else proc_at s i)"
proof (cases "0 \<le> current_process s \<and> current_process s < process_count s")
  case True
  note g = sched_wfD[OF wf, of "current_process s"]
  obtain s' where s': "set_proc (process_table s ! nat (current_process s)) (ticked e) s = Inr s'"
    "s' = s\<lparr>procs := (procs s)(process_table s ! nat (current_process s) \<mapsto> ticked e (proc_at s (current_process s)))\<rparr>" "sched_wf s'"
    "\<forall>j. 0 \<le> j \<and> j < process_count s \<longrightarrow> proc_at s' j = (if j = current_process s then ticked e (proc_at s (current_process s)) else proc_at s j)"
    by (rule set_proc_table[OF wf True[THEN conjunct1] True[THEN conjunct2], of "ticked e"])
  show thesis
  proof (rule that)
    show "(if current_process s \<ge> 0 then process_get (current_process s) s else Inr nullptr)
        = Inr (process_table s ! nat (current_process s))" using g(1) True by simp
    show "(if process_table s ! nat (current_process s) = nullptr then Inr s
        else set_proc (process_table s ! nat (current_process s)) (ticked e) s) = Inr s'"
      using g(2) True s'(1) by simp
    show "\<exists>pr. s' = s\<lparr>procs := pr\<rparr>" using s'(2) by blast
    show "\<forall>i. 0 \<le> i \<and> i < process_count s \<longrightarrow>
        proc_at s' i = (if i = current_process s then ticked e (proc_at s i) else proc_at s i)" using s'(4) by simp
  qed (rule s'(3))
next
  case False
  show thesis
  proof (rule that)
    show "(if current_process s \<ge> 0 then process_get (current_process s) s else Inr nullptr) = Inr nullptr"
      using False by (auto simp: process_get_def)
    show "(if nullptr = nullptr then Inr s else set_proc nullptr (ticked e) s) = Inr s" by simp
    show "\<exists>pr. s = s\<lparr>procs := pr\<rparr>" by (rule exI[of _ "procs s"]) simp
    show "\<forall>i. 0 \<le> i \<and> i < process_count s \<longrightarrow>
        proc_at s i = (if i = current_process s then ticked e (proc_at s i) else proc_at s i)" using False by auto
  qed (rule wf)
qed

lemma process_switch_ok:
  assumes "procs s p = Some x" and "p \<noteq> nullptr"
  obtains s' where "process_switch q p s = Inr s'" "\<exists>c t. s' = s\<lparr>cr3 := c, tss := t\<rparr>"
    "cr3 s' = (if address_space x \<noteq> 0 then address_space x else cr3 s)"
    "tss_esp0 (tss s') = (if kernel_stack x \<noteq> 0 then kernel_stack x else tss_esp0 (tss s))"
proof -
  let ?t = "if kernel_stack x \<noteq> 0 then tss_set_kernel_stack (kernel_stack x) (tss s) else tss s"
  let ?c = "if address_space x \<noteq> 0 then address_space x else cr3 s"
  have "process_switch q p s = Inr (s\<lparr>cr3 := ?c, tss := ?t\<rparr>)"
    using assms by (simp add: process_switch_def get_proc_def vmm_switch_def)
  then show thesis
  proof (rule that)
    show "\<exists>c t. s\<lparr>cr3 := ?c, tss := ?t\<rparr> = s\<lparr>cr3 := c, tss := t\<rparr>" by (intro exI) (rule refl)
  qed (simp_all add: tss_set_kernel_stack_def)
qed

lemma scheduler_tick_ok:
  assumes wf: "sched_wf s" and pos: "0 < process_count s"
  obtains r e' s' where "scheduler_tick e s = Inr (e', s')" "next_after s (current_process s) r" "sched_wf s'"
    "if r = -1 then e' = e \<and> current_process s' = current_process s \<and> process_count s' = process_count s
       \<and> (\<forall>i. 0 \<le> i \<and> i < process_count s \<longrightarrow>
            proc_at s' i = (if i = current_process s then ticked e (proc_at s i) else proc_at s i))
     else 0 \<le> r \<and> r < process_count s \<and> switched e s r e' s'"
proof -
  let ?tick = "\<lambda>x. if state x = TASK_RUNNING then x\<lparr>state := TASK_READY, saved_esp := e\<rparr>
    else if state x = TASK_BLOCKED then x\<lparr>saved_esp := e\<rparr> else x"
  have tick: "?tick = ticked e" by (simp add: ticked_def fun_eq_iff)
  have tot: "process_total s \<noteq> 0" using pos by (simp add: process_total_def)
  note unf = scheduler_tick_def tick Let_def
  obtain p s1 where p: "(if current_process s \<ge> 0 then process_get (current_process s) s else Inr nullptr) = Inr p"
    and s1: "(if p = nullptr then Inr s else set_proc p (ticked e) s) = Inr s1" "sched_wf s1" "\<exists>pr. s1 = s\<lparr>procs := pr\<rparr>"
    "\<forall>i. 0 \<le> i \<and> i < process_count s \<longrightarrow>
      proc_at s1 i = (if i = current_process s then ticked e (proc_at s i) else proc_at s i)"
    by (rule tick_prev[OF wf pos, of e])
  have same: "process_count s1 = process_count s" "process_table s1 = process_table s"
    "current_process s1 = current_process s" "cr3 s1 = cr3 s" "tss s1 = tss s" using s1(3) by auto
  obtain r where r: "find_next (current_process s) s1 = Inr r" "next_after s1 (current_process s) r"
    by (rule find_next_ok[OF s1(2)])
  have na: "next_after s (current_process s) r"
    using next_after_cong[OF same(1) _ pos] s1(4) r(2) by (metis ticked_can_run)
  have run: "scheduler_tick e s = bindR (if r \<ge> 0 then process_get r s1 else Inr nullptr) (\<lambda>next_p.
        if next_p = nullptr then Inr (e, s1)
        else bindR (process_switch p next_p s1) (\<lambda>s.
          bindR (set_proc next_p (\<lambda>x. x\<lparr>state := TASK_RUNNING\<rparr>) s) (\<lambda>s.
          bindR (get_proc next_p (s\<lparr>current_process := r\<rparr>)) (\<lambda>x.
             Inr (if saved_esp x \<noteq> 0 then saved_esp x else kernel_stack_top x, s\<lparr>current_process := r\<rparr>)))))"
    unfolding unf p s1(1) bindR_Inr r(1) if_not_P[OF tot] by (rule refl)
  show thesis
  proof (cases "r = -1")
    case True
    then show thesis using that[of e s1 r] run na s1(2,4) same by simp
  next
    case False
    have rr: "0 \<le> r" "r < process_count s" using next_after_nonneg[OF na False pos] by simp_all
    have rr1: "r < process_count s1" using rr same by simp
    note g = sched_wfD[OF s1(2) rr(1) rr1]
    obtain s2 where s2: "process_switch p (process_table s1 ! nat r) s1 = Inr s2" "\<exists>c t. s2 = s1\<lparr>cr3 := c, tss := t\<rparr>"
      "cr3 s2 = (if address_space (proc_at s1 r) \<noteq> 0 then address_space (proc_at s1 r) else cr3 s1)"
      "tss_esp0 (tss s2) = (if kernel_stack (proc_at s1 r) \<noteq> 0 then kernel_stack (proc_at s1 r) else tss_esp0 (tss s1))"
      by (rule process_switch_ok[OF g(3,2)])
    have wf2: "sched_wf s2" and at2: "proc_at s2 = proc_at s1" and same2: "process_table s2 = process_table s1" "process_count s2 = process_count s1"
      using s1(2) s2(2) by (auto simp: sched_wf_def proc_at_def fun_eq_iff)
    have rr2: "r < process_count s2" using rr1 same2 by simp
    obtain s3 where s3: "set_proc (process_table s2 ! nat r) (\<lambda>x. x\<lparr>state := TASK_RUNNING\<rparr>) s2 = Inr s3"
      "s3 = s2\<lparr>procs := (procs s2)(process_table s2 ! nat r \<mapsto> (proc_at s2 r)\<lparr>state := TASK_RUNNING\<rparr>)\<rparr>" "sched_wf s3"
      "\<forall>j. 0 \<le> j \<and> j < process_count s2 \<longrightarrow> proc_at s3 j = (if j = r then (proc_at s2 r)\<lparr>state := TASK_RUNNING\<rparr> else proc_at s2 j)"
      by (rule set_proc_table[OF wf2 rr(1) rr2])
    let ?s4 = "s3\<lparr>current_process := r\<rparr>"
    have f3: "process_count s3 = process_count s2" "process_table s3 = process_table s2" "cr3 s3 = cr3 s2" "tss s3 = tss s2"
      using s3(2) by simp_all
    have wf4: "sched_wf ?s4" using s3(3) rr(1) by (simp add: sched_wf_def)
    have at4: "proc_at ?s4 = proc_at s3" by (simp add: proc_at_def fun_eq_iff)
    have "get_proc (process_table ?s4 ! nat r) ?s4 = Inr (proc_at ?s4 r)"
      using sched_wfD(4)[OF wf4 rr(1)] rr2 f3 by simp
    then have g4: "get_proc (process_table s1 ! nat r) ?s4 = Inr (proc_at s3 r)" using f3(2) same2(1) at4 by simp
    let ?e = "if saved_esp (proc_at s3 r) \<noteq> 0 then saved_esp (proc_at s3 r) else kernel_stack_top (proc_at s3 r)"
    have res: "scheduler_tick e s = Inr (?e, ?s4)"
      unfolding run using rr(1) g(1,2) s2(1) s3(1) g4 same2(1) by simp
    have "switched e s r ?e ?s4"
      unfolding switched_def at4 using s3(4) s1(4) rr same same2 f3 s2(3,4) at2 by (simp add: Let_def)
    then show thesis using that[OF res na wf4] rr False by simp
  qed
qed

section \<open>Bounded waiting\<close>

text \<open>A run of ticks, each with the stack pointer of the interrupted process.\<close>

fun ticks :: "u32 list \<Rightarrow> 'z proc_state_scheme \<Rightarrow> 'z proc_state_scheme res" where
  "ticks [] s = Inr s"
| "ticks (e # es) s = bindR (scheduler_tick e s) (\<lambda>(_, s'). ticks es s')"

definition wait_for :: "'z proc_state_scheme \<Rightarrow> int \<Rightarrow> int" where
  "wait_for s j = (j - current_process s - 1) mod process_count s"

lemma wait_for_bound: "0 < process_count s \<Longrightarrow> 0 \<le> wait_for s j \<and> wait_for s j < process_count s"
  by (simp add: wait_for_def)

lemma tick_nearer:
  assumes wf: "sched_wf s" and j: "0 \<le> j" "j < process_count s" "can_run (state (proc_at s j))"
  obtains e' s' where "scheduler_tick e s = Inr (e', s')" "sched_wf s'" "process_count s' = process_count s"
    "can_run (state (proc_at s' j))"
    "current_process s' = j \<and> state (proc_at s' j) = TASK_RUNNING
      \<or> current_process s' \<noteq> j \<and> wait_for s' j < wait_for s j"
proof -
  let ?n = "process_count s" and ?c = "current_process s"
  have pos: "0 < ?n" using j by simp
  obtain r e' s' where t: "scheduler_tick e s = Inr (e', s')" "next_after s ?c r" "sched_wf s'"
    "if r = -1 then e' = e \<and> current_process s' = ?c \<and> process_count s' = ?n
       \<and> (\<forall>i. 0 \<le> i \<and> i < ?n \<longrightarrow> proc_at s' i = (if i = ?c then ticked e (proc_at s i) else proc_at s i))
     else 0 \<le> r \<and> r < ?n \<and> switched e s r e' s'"
    by (rule scheduler_tick_ok[OF wf pos])
  have "r \<noteq> -1"
  proof
    assume "r = -1"
    then show False using t(2) j pos unfolding next_after_def by (metis neg_0_le_iff_le not_one_le_zero pos_mod_sign)
  qed
  then have sw: "switched e s r e' s'" using t(4) by simp
  obtain d where d: "1 \<le> d" "d \<le> ?n" "r = (?c + d) mod ?n"
    "\<forall>d'. 1 \<le> d' \<and> d' < d \<longrightarrow> \<not> can_run (state (proc_at s ((?c + d') mod ?n)))"
    using t(2) \<open>r \<noteq> -1\<close> unfolding next_after_def by metis
  let ?D = "wait_for s j + 1"
  have b: "0 \<le> wait_for s j" "wait_for s j < ?n" using wait_for_bound[OF pos] by auto
  have "(?c + ?D) mod ?n = ((?c + 1) + (j - ?c - 1) mod ?n) mod ?n" by (simp add: wait_for_def algebra_simps)
  also have "\<dots> = ((?c + 1) + (j - ?c - 1)) mod ?n" by (simp only: mod_add_right_eq)
  also have "\<dots> = j" using j by simp
  finally have jD: "j = (?c + ?D) mod ?n" by simp
  then have dD: "d \<le> ?D" using d(4) j(3) b by (metis add.commute le_add_same_cancel1 not_less)
  have at: "can_run (state (proc_at s' j))" "process_count s' = ?n" "current_process s' = r"
    "r = j \<Longrightarrow> state (proc_at s' j) = TASK_RUNNING"
    using sw j by (auto simp: switched_def Let_def can_run_def[of TASK_RUNNING])
  have "wait_for s' j < wait_for s j" if "r \<noteq> j"
  proof -
    have "d < ?D" using dD jD d(3) that by (cases "d = ?D") auto
    have "wait_for s' j = ((?c + ?D) mod ?n - (?c + d) mod ?n - 1) mod ?n"
      using at(2,3) jD d(3) by (simp add: wait_for_def)
    also have "\<dots> = (?D - d - 1) mod ?n" by (simp add: mod_simps algebra_simps)
    also have "\<dots> = ?D - d - 1" using \<open>d < ?D\<close> d(1) b by simp
    finally show ?thesis using d(1) by simp
  qed
  then show thesis using that[OF t(1,3) at(2,1)] at(3,4) by metis
qed

lemma ticks_reach:
  assumes "sched_wf s" "0 \<le> j" "j < process_count s" "can_run (state (proc_at s j))"
    and "nat (wait_for s j) < length es"
  shows "\<exists>k s'. 1 \<le> k \<and> k \<le> nat (wait_for s j) + 1 \<and> ticks (take k es) s = Inr s' \<and> sched_wf s'
    \<and> current_process s' = j \<and> state (proc_at s' j) = TASK_RUNNING"
  using assms
proof (induction "nat (wait_for s j)" arbitrary: s es rule: less_induct)
  case less
  then obtain e es' where es: "es = e # es'" by (cases es) auto
  obtain e' s1 where t: "scheduler_tick e s = Inr (e', s1)" "sched_wf s1" "process_count s1 = process_count s"
    "can_run (state (proc_at s1 j))"
    "current_process s1 = j \<and> state (proc_at s1 j) = TASK_RUNNING
      \<or> current_process s1 \<noteq> j \<and> wait_for s1 j < wait_for s j"
    by (rule tick_nearer[OF less.prems(1-4)])
  show ?case
  proof (cases "current_process s1 = j \<and> state (proc_at s1 j) = TASK_RUNNING")
    case True
    then show ?thesis using t es by (intro exI[of _ 1] exI[of _ s1]) simp
  next
    case False
    then have w: "wait_for s1 j < wait_for s j" using t(5) by blast
    have pos: "0 < process_count s1" using less.prems t(3) by simp
    have lt: "nat (wait_for s1 j) < nat (wait_for s j)" using w wait_for_bound[OF pos, of j] by simp
    have "nat (wait_for s j) \<le> length es'" using less.prems(5) unfolding es by simp
    then have len: "nat (wait_for s1 j) < length es'" using lt by linarith
    have jc: "j < process_count s1" using less.prems(3) t(3) by simp
    obtain k s' where k: "1 \<le> k" "k \<le> nat (wait_for s1 j) + 1" "ticks (take k es') s1 = Inr s'" "sched_wf s'"
      "current_process s' = j" "state (proc_at s' j) = TASK_RUNNING"
      using less.hyps[OF lt t(2) less.prems(2) jc t(4) len] by blast
    have "Suc k \<le> nat (wait_for s j) + 1" using k(2) lt by linarith
    moreover have "ticks (take (Suc k) es) s = Inr s'" using t(1) k(3) es by simp
    ultimately show ?thesis using k by (intro exI[of _ "Suc k"] exI[of _ s']) simp
  qed
qed

section \<open>Kernel stacks\<close>

text \<open>The two lowest free pages are not neighbours.\<close>

definition split_pages :: "'z proc_state_scheme \<Rightarrow> bool" where
  "split_pages s \<longleftrightarrow> pmm_inv s \<and> (\<exists>lo s1 hi s2. pmm_alloc_page s = Inr (lo, s1) \<and> pmm_alloc_page s1 = Inr (hi, s2)
     \<and> lo \<noteq> nullptr \<and> hi \<noteq> nullptr \<and> hi \<noteq> lo + 4096)"

lemma free_two:
  assumes "pmm_inv s" and "pmm_alloc_page s = Inr (lo, s1)" "pmm_alloc_page s1 = Inr (hi, s2)" "hi \<noteq> nullptr"
  obtains s4 where "bindR (pmm_free_page lo s2) (pmm_free_page hi) = Inr s4" "pmm_inv s4" "pmm_pages s4 = pmm_pages s"
    "pmm_allocated s4 = pmm_allocated s"
proof -
  note tw = pmm.alloc_twice[OF assms(1,2,3,4)]
  note f1 = pmm.alloc_fresh[OF assms(1,2) tw(1)]
  obtain s3 where s3: "pmm_free_page lo s2 = Inr s3" "pmm_inv s3" "pmm_pages s3 = pmm_pages s2"
    "pmm_allocated s3 = pmm_allocated s2 - {lo}"
    using pmm.free_allocated[OF tw(4), of lo] tw(1,6) by auto
  have "hi \<in> pmm_allocated s3" using s3(4) tw(2,6) by auto
  then obtain s4 where s4: "pmm_free_page hi s3 = Inr s4" "pmm_inv s4" "pmm_pages s4 = pmm_pages s3"
    "pmm_allocated s4 = pmm_allocated s3 - {hi}"
    using pmm.free_allocated[OF s3(2), of hi] assms(4) by auto
  have "hi \<notin> insert lo (pmm_allocated s)"
    using pmm.alloc_fresh(1)[OF f1(2) assms(3,4)] f1(4) by simp
  then have "pmm_allocated s4 = pmm_allocated s"
    using s3(4) s4(4) tw(6) f1(1) by auto
  then show thesis using that[of s4] s3 s4 tw(5) by simp
qed

lemma split_pages_again:
  fixes s t :: "'z proc_state_scheme"
  assumes "split_pages s" and "pmm_inv t" "pmm_pages t = pmm_pages s" "pmm_allocated t = pmm_allocated s"
  shows "split_pages t"
proof -
  obtain lo s1 hi s2 where a: "pmm_inv s" "pmm_alloc_page s = Inr (lo, s1)" "pmm_alloc_page s1 = Inr (hi, s2)"
    "lo \<noteq> nullptr" "hi \<noteq> nullptr" "hi \<noteq> lo + 4096" using assms(1) unfolding split_pages_def by blast
  obtain p t1 where t1: "pmm_alloc_page t = Inr (p, t1)" "pmm_inv t1" "pmm_pages t1 = pmm_pages t"
    by (rule pmm.alloc_returns[OF assms(2)])
  obtain q t2 where t2: "pmm_alloc_page t1 = Inr (q, t2)" by (rule pmm.alloc_returns[OF t1(2)])
  note f = pmm.alloc_fresh[OF a(1,2,4)]
  have p: "p = lo" "pmm_allocated t1 = pmm_allocated s1"
    using pmm.alloc_same_choice[OF a(1) assms(2,3,4) a(2) t1(1)] by auto
  have "q = hi"
    using pmm.alloc_same_choice[OF f(2) t1(2) _ p(2) a(3) t2] t1(3) f(3) assms(3) by simp
  then show ?thesis using assms(2) t1(1) t2 p(1) a(4-6) unfolding split_pages_def by blast
qed

lemma alloc_kernel_stack_split:
  assumes "split_pages s"
  shows "alloc_kernel_stack s = None"
proof (rule ccontr)
  assume "alloc_kernel_stack s \<noteq> None"
  then obtain r where r: "alloc_kernel_stack s = Some r" by auto
  have "\<not> split_pages s"
  proof (rule alloc_kernel_stack.raw_induct[where P = "\<lambda>s r. \<not> split_pages s", OF _ r], goal_cases)
    case (1 f s r)
    show ?case
    proof
      assume sp: "split_pages s"
      then obtain lo s1 hi s2 where a: "pmm_inv s" "pmm_alloc_page s = Inr (lo, s1)" "pmm_alloc_page s1 = Inr (hi, s2)"
        "lo \<noteq> nullptr" "hi \<noteq> nullptr" "hi \<noteq> lo + 4096" unfolding split_pages_def by blast
      obtain s4 where s4: "bindR (pmm_free_page lo s2) (pmm_free_page hi) = Inr s4" "pmm_inv s4"
        "pmm_pages s4 = pmm_pages s" "pmm_allocated s4 = pmm_allocated s" by (rule free_two[OF a(1,2,3,5)])
      have "f s4 = Some r" using 1(2) a s4(1) by simp
      then show False using 1(1) split_pages_again[OF sp s4(2,3,4)] by blast
    qed
  qed
  then show False using assms by blast
qed

lemma alloc_kernel_stack_adjacent:
  assumes "pmm_inv s" and "pmm_alloc_page s = Inr (lo, s1)" "pmm_alloc_page s1 = Inr (hi, s2)"
    and "lo \<noteq> nullptr" "hi = lo + 4096" "hi \<noteq> nullptr"
  shows "alloc_kernel_stack s = Some (Inr (lo, lo, s2\<lparr>mem := memset (mem s2) lo 0 KERNEL_STACK_BYTES\<rparr>))"
  using assms by (subst alloc_kernel_stack.simps) simp

lemma alloc_kernel_stack_full:
  assumes "pmm_inv s" and "pmm_alloc_page s = Inr (lo, s1)" "pmm_alloc_page s1 = Inr (nullptr, s2)"
  shows "\<exists>s'. alloc_kernel_stack s = Some (Inr (nullptr, 0, s')) \<and> pmm_inv s' \<and> pmm_allocated s' = pmm_allocated s"
proof (cases "lo = nullptr")
  case True
  then have "s1 = s" using pmm.alloc_null(2)[OF assms(1)] assms(2) by blast
  then have "s2 = s" using pmm.alloc_null(2)[OF assms(1)] assms(3) by blast
  then show ?thesis using assms True \<open>s1 = s\<close> by (subst alloc_kernel_stack.simps) simp
next
  case False
  note f = pmm.alloc_fresh[OF assms(1,2) False]
  have "s2 = s1" using pmm.alloc_null(2)[OF f(2) assms(3)] .
  obtain s4 where "pmm_free_page lo s1 = Inr s4" "pmm_inv s4" "pmm_allocated s4 = pmm_allocated s"
    using pmm.free_after_alloc[OF assms(1,2) False] by metis
  then show ?thesis using assms False \<open>s2 = s1\<close> by (subst alloc_kernel_stack.simps) simp
qed

section \<open>Frames on the kernel stack\<close>

text \<open>The words from \<open>sp\<close> up, as \<open>popa\<close> and \<open>iret\<close> take them.\<close>

definition frame_words :: "memory \<Rightarrow> u32 \<Rightarrow> nat \<Rightarrow> u32 list" where
  "frame_words m sp n = map (\<lambda>k. rd32 m (sp + 4 * of_nat k)) [0..<n]"

lemma unat_word_offset: "unat (a :: u32) + 4 * k < 2 ^ 32 \<Longrightarrow> unat (a + 4 * of_nat k) = unat a + 4 * k"
proof -
  assume a: "unat a + 4 * k < 2 ^ 32"
  have "(4 * of_nat k :: u32) = of_nat (4 * k)" by simp
  then show ?thesis using unat_offset[OF a] by metis
qed

lemma frame_words_push:
  assumes "\<forall>k < n. rd32 (wr32 m (b - 4) v) (b + 4 * of_nat k) = rd32 m (b + 4 * of_nat k)"
  shows "frame_words (wr32 m (b - 4) v) (b - 4) (Suc n) = v # frame_words m b n"
proof -
  have sh: "b - 4 + 4 * of_nat (Suc k) = b + 4 * of_nat k" for k by (simp add: algebra_simps)
  have "map (\<lambda>k. rd32 (wr32 m (b - 4) v) (b - 4 + 4 * of_nat k)) (map Suc [0..<n]) = frame_words m b n"
    using assms by (simp add: frame_words_def sh del: of_nat_Suc)
  then show ?thesis
    unfolding frame_words_def upt_conv_Cons[OF zero_less_Suc] map_Suc_upt by simp
qed

lemma push_fold:
  assumes "4 * length vs \<le> unat sp"
  obtains m' where "fold push vs (sp, m) = (sp - 4 * of_nat (length vs), m')"
    "frame_words m' (sp - 4 * of_nat (length vs)) (length vs) = rev vs"
  using assms
proof (induction vs arbitrary: thesis rule: rev_induct)
  case Nil
  then show ?case by (simp add: frame_words_def)
next
  case (snoc v vs)
  let ?n = "length vs" and ?sp = "sp - 4 * of_nat (length vs)"
  obtain m' where m': "fold push vs (sp, m) = (?sp, m')" "frame_words m' ?sp ?n = rev vs"
    using snoc.IH snoc.prems(2) by auto
  have four: "unat (4 * of_nat ?n :: u32) = 4 * ?n" "unat (4 * of_nat (Suc ?n) :: u32) = 4 * Suc ?n"
    using snoc.prems(2) unsigned_less[of sp, where 'a = nat] unat_word_offset[of 0 ?n] unat_word_offset[of 0 "Suc ?n"]
    by simp_all
  have sp': "?sp - 4 = sp - 4 * of_nat (Suc ?n)" by (simp add: algebra_simps)
  have usp: "unat ?sp = unat sp - 4 * ?n" "unat (?sp - 4) = unat sp - 4 * Suc ?n"
    using snoc.prems(2) four unfolding sp' by (auto simp: unat_sub word_le_nat_alt simp del: of_nat_Suc)
  have bound: "unat sp < 2 ^ 32" using unsigned_less[of sp, where 'a = nat] by simp
  have "frame_words (wr32 m' (?sp - 4) v) (?sp - 4) (Suc ?n) = v # frame_words m' ?sp ?n"
  proof (rule frame_words_push, intro allI impI)
    fix k assume that: "k < ?n"
    show "rd32 (wr32 m' (?sp - 4) v) (?sp + 4 * of_nat k) = rd32 m' (?sp + 4 * of_nat k)"
    proof (rule rd32_wr32_disjoint)
      have "unat (?sp + 4 * of_nat k) = unat sp - 4 * ?n + 4 * k"
        using unat_word_offset[of ?sp k] usp(1) snoc.prems(2) bound that by simp
      then show "unat (?sp - 4) + 4 \<le> 2 ^ 32" "unat (?sp + 4 * of_nat k) + 4 \<le> 2 ^ 32"
        "unat (?sp - 4) + 4 \<le> unat (?sp + 4 * of_nat k) \<or> unat (?sp + 4 * of_nat k) + 4 \<le> unat (?sp - 4)"
        using usp bound snoc.prems(2) that by auto
    qed
  qed
  then show ?case
    using snoc.prems(1)[of "wr32 m' (?sp - 4) v"] m' sp' by (simp add: push_def[of v])
qed

lemma build_user_frame_ok:
  assumes "52 \<le> unat sp"
  obtains m' where "build_user_frame sp entry uesp m = (sp - 52, m')"
    "frame_words m' (sp - 52) 13 = [0, 0, 0, 0, 0, 0, 0, 0, entry, 0x1B, 0x202, uesp, 0x23]"
proof -
  let ?vs = "[0x23, uesp, 0x202, 0x1B, entry, 0, 0, 0, 0, 0, 0, 0, 0]"
  have l: "length ?vs = 13" by simp
  have "4 * length ?vs \<le> unat sp" using assms unfolding l by simp
  from push_fold[OF this, of m] obtain m' where
    "fold push ?vs (sp, m) = (sp - 4 * of_nat 13, m')" "frame_words m' (sp - 4 * of_nat 13) 13 = rev ?vs"
    unfolding l by blast
  then show thesis using that[of m'] by (simp add: build_user_frame_def)
qed

section \<open>Removing a process\<close>

text \<open>The scheduler's tables are left alone by the allocators below.\<close>

definition same_sched :: "'z proc_state_scheme \<Rightarrow> 'z proc_state_scheme \<Rightarrow> bool" where
  "same_sched s s' \<longleftrightarrow> process_table s' = process_table s \<and> process_count s' = process_count s
     \<and> current_process s' = current_process s"

lemma same_sched_trans: "same_sched s s' \<Longrightarrow> same_sched s' s'' \<Longrightarrow> same_sched s s''"
  by (simp add: same_sched_def)

lemma same_sched_heap [simp]: "same_sched s s" "same_sched s (t\<lparr>mem := m\<rparr>) = same_sched s t"
  "same_sched (t\<lparr>mem := m\<rparr>) s = same_sched t s" "same_sched s (list_remove h t) = same_sched s t"
  "same_sched (list_remove h t) s = same_sched t s"
  by (simp_all add: same_sched_def list_remove_def Let_def)

lemma list_append_sched: "list_append h s = Inr s' \<Longrightarrow> same_sched s s'"
  by (auto simp: list_append_def Let_def bindR_eq_Inr same_sched_def split: if_splits)

lemma kfree_sched: "kfree p s = Inr s' \<Longrightarrow> same_sched s s'"
  unfolding kfree_def Let_def by (simp only: split: if_split_asm) (auto dest: list_append_sched)

lemma pmm_free_sched: "pmm_free_page p s = Inr s' \<Longrightarrow> same_sched s s'"
  using pmm_free_more by (fastforce simp: same_sched_def)

lemma free_tables_sched: "free_tables pd is s = Inr s' \<Longrightarrow> same_sched s s'"
proof (induction "is" arbitrary: s)
  case (Cons i "is")
  then show ?case
    by (auto simp: Let_def res_simps split: if_splits dest!: pmm_free_sched intro: same_sched_trans)
qed (simp add: same_sched_def)

lemma vmm_destroy_sched: "vmm_destroy_space pd s = Inr s' \<Longrightarrow> same_sched s s'"
  by (auto simp: vmm_destroy_space_def res_simps same_sched_def[of s s] split: if_splits
      dest!: free_tables_sched pmm_free_sched intro: same_sched_trans simp del: upt_rec_numeral)

lemma remove_process_ok:
  assumes "process_table s ! i = p" "i < n" "\<forall>j < i. process_table s ! j \<noteq> p" "n = nat (process_count s)"
    "n \<le> length (process_table s)" "k \<le> i"
  shows "remove_process p [k..<n] s = Inr (s\<lparr>process_table := (process_table s)[i := process_table s ! (n - 1)],
    process_count := process_count s - 1\<rparr>)"
  using assms(6)
proof (induction "i - k" arbitrary: k)
  case 0
  then have "k = i" by simp
  have "nat (process_count s - 1) = n - 1" using assms(2,4) by simp
  then show ?case
    using assms \<open>k = i\<close> by (simp add: upt_conv_Cons Let_def)
next
  case (Suc d)
  then have k: "k < i" "d = i - Suc k" by simp_all
  then have "process_table s ! k \<noteq> p" using assms(3) by blast
  then show ?case using Suc.hyps(1)[OF k(2)] k(1) assms(2,5) by (simp add: upt_conv_Cons)
qed

lemma process_destroy_table:
  assumes d: "process_destroy p s = Inr s'" and p: "p \<noteq> nullptr"
    and i: "process_table s ! i = p" "i < nat (process_count s)" "\<forall>j < i. process_table s ! j \<noteq> p"
    and l: "nat (process_count s) \<le> length (process_table s)"
  shows "process_table s' = (process_table s)[i := process_table s ! (nat (process_count s) - 1)]"
    and "process_count s' = process_count s - 1" and "current_process s' = current_process s"
proof -
  have opt: "(if b then f else Inr a) = Inr c \<Longrightarrow> f = Inr c \<or> c = a" for b and f :: "'b res" and a c by (auto split: if_splits)
  obtain s1 s2 s3 t u and x :: process where e: "set_proc p (\<lambda>p. p\<lparr>state := TASK_DEAD\<rparr>) s = Inr s1"
    "(if ring x = RING_USER \<and> address_space x \<noteq> vmm_get_kernel_space s1 then vmm_destroy_space (address_space x) s1 else Inr s1) = Inr s2"
    "(if kernel_stack_bottom x \<noteq> 0 then bindR (pmm_free_page (kernel_stack_bottom x) s2) (pmm_free_page (kernel_stack_bottom x + 4096))
       else Inr s2) = Inr s3"
    "(if msg_queue x \<noteq> nullptr then bindR (kfree (msg_queue x) s3) (\<lambda>s. Inr (s\<lparr>queues := (queues s)(msg_queue x := None)\<rparr>))
       else Inr s3) = Inr t"
    "remove_process p [0..<nat (process_count t)] t = Inr u" "free_proc p u = Inr s'"
    using d unfolding process_destroy_def if_not_P[OF p] bindR_eq_Inr by blast
  have "same_sched s s1" using e(1) by (auto simp: set_proc_def bindR_eq_Inr same_sched_def)
  moreover have "same_sched s1 s2" using opt[OF e(2)] vmm_destroy_sched by (auto simp del: if_split_asm)
  moreover have "same_sched s2 s3"
    using opt[OF e(3)] by (auto simp: bindR_eq_Inr dest!: pmm_free_sched intro: same_sched_trans)
  moreover have "same_sched s3 t"
    using opt[OF e(4)] by (auto simp: bindR_eq_Inr dest!: kfree_sched) (auto simp: same_sched_def)
  moreover have "same_sched u s'"
    using e(6) by (auto simp: free_proc_def bindR_eq_Inr dest!: kfree_sched) (auto simp: same_sched_def)
  ultimately have t: "same_sched s t" "remove_process p [0..<nat (process_count t)] t = Inr u" "same_sched u s'"
    using e(5) same_sched_trans by blast+
  have "remove_process p [0..<nat (process_count t)] t = Inr (t\<lparr>process_table := (process_table t)[i := process_table t ! (nat (process_count t) - 1)],
      process_count := process_count t - 1\<rparr>)"
    by (rule remove_process_ok) (use i l t(1) in \<open>auto simp: same_sched_def\<close>)
  then show "process_table s' = (process_table s)[i := process_table s ! (nat (process_count s) - 1)]"
    "process_count s' = process_count s - 1" "current_process s' = current_process s"
    using t by (auto simp: same_sched_def)
qed

end
