(* ===== verification/Sched_Properties.thy ===== *)
theory Sched_Properties
  imports Sched_Correct
begin

text \<open>
  The properties of scheduling and of processes, with the example states that show
  their hypotheses can hold.
\<close>

section \<open>Entering a process\<close>

lemma mark_entered_ok:
  assumes "length (process_table s) = 16" "process_count s \<le> 16"
  shows "\<exists>c. mark_entered p is s = Inr (s\<lparr>current_process := c\<rparr>)"
proof (induction "is")
  case Nil
  have "s = s\<lparr>current_process := current_process s\<rparr>" by simp
  then show ?case by (metis mark_entered.simps(1))
next
  case (Cons i "is")
  have "\<exists>q. process_get i s = Inr q" using assms by (auto simp: process_get_def array_get_def)
  then show ?case using Cons by (auto simp: scheduler_mark_current_def)
qed

lemma process_set_entry_ok:
  assumes "procs s p = Some x" "p \<noteq> nullptr" and "unat (kernel_stack_bottom x) + 8192 < 2 ^ 32"
  obtains m where "process_set_entry p entry uesp s = Inr (s\<lparr>mem := m, procs := (procs s)(p \<mapsto>
      x\<lparr>user_entry := entry, user_esp := uesp, kernel_stack_top := kernel_stack_bottom x + 8192 - 52\<rparr>)\<rparr>)"
    "frame_words m (kernel_stack_bottom x + 8192 - 52) 13
       = [0, 0, 0, 0, 0, 0, 0, 0, entry, 0x1B, 0x202, uesp, 0x23]"
proof -
  have "unat (kernel_stack_bottom x + 8192) = unat (kernel_stack_bottom x) + 8192"
    using unat_add_small[of "kernel_stack_bottom x" 8192] assms(3) by simp
  then have "52 \<le> unat (kernel_stack_bottom x + 8192)" by simp
  from build_user_frame_ok[OF this, of entry uesp "mem s"] obtain m where
    m: "build_user_frame (kernel_stack_bottom x + 8192) entry uesp (mem s) = (kernel_stack_bottom x + 8192 - 52, m)"
    "frame_words m (kernel_stack_bottom x + 8192 - 52) 13 = [0, 0, 0, 0, 0, 0, 0, 0, entry, 0x1B, 0x202, uesp, 0x23]" by blast
  have b: "kernel_stack_bottom (x\<lparr>user_entry := entry, user_esp := uesp\<rparr>) = kernel_stack_bottom x" by simp
  show thesis
  proof (rule that[OF _ m(2)])
    show "process_set_entry p entry uesp s = Inr (s\<lparr>mem := m, procs := (procs s)(p \<mapsto>
      x\<lparr>user_entry := entry, user_esp := uesp, kernel_stack_top := kernel_stack_bottom x + 8192 - 52\<rparr>)\<rparr>)"
      using assms(1,2) m(1)
      by (simp add: process_set_entry_def set_proc_def get_proc_def case_prod_beta Let_def)
  qed
qed

lemma process_first_enter_ok:
  assumes "procs s p = Some x" "p \<noteq> nullptr" "length (process_table s) = 16" "process_count s \<le> 16"
  obtains s' where "process_first_enter p s = Inr (kernel_stack_top x, s')" "mem s' = mem s"
    "procs s' p = Some (x\<lparr>state := TASK_RUNNING\<rparr>)"
proof -
  let ?s1 = "s\<lparr>procs := (procs s)(p \<mapsto> x\<lparr>state := TASK_RUNNING\<rparr>)\<rparr>"
  have s1: "set_proc p (\<lambda>x. x\<lparr>state := TASK_RUNNING\<rparr>) s = Inr ?s1" using assms(1) by (simp add: set_proc_def get_proc_def)
  have "procs ?s1 p = Some (x\<lparr>state := TASK_RUNNING\<rparr>)" by simp
  from process_switch_ok[OF this assms(2), of nullptr] obtain s2 where
    s2: "process_switch nullptr p ?s1 = Inr s2" "\<exists>c t. s2 = ?s1\<lparr>cr3 := c, tss := t\<rparr>" by blast
  have f: "process_table s2 = process_table s" "process_count s2 = process_count s" "mem s2 = mem s"
    "procs s2 p = Some (x\<lparr>state := TASK_RUNNING\<rparr>)" using s2(2) by auto
  have "length (process_table s2) = 16" "process_count s2 \<le> 16" using f assms by simp_all
  from mark_entered_ok[OF this] obtain c where c: "mark_entered p [0..15] s2 = Inr (s2\<lparr>current_process := c\<rparr>)" by blast
  show thesis
  proof (rule that)
    show "process_first_enter p s = Inr (kernel_stack_top x, s2\<lparr>current_process := c\<rparr>)"
      using assms(2) s1 s2(1) c f(4) by (simp add: process_first_enter_def get_proc_def)
  qed (use f in simp_all)
qed

lemma switched_one_running:
  assumes sw: "switched e s r e' s'" and one: "one_running s"
  shows "one_running s'"
  unfolding one_running_def
proof (intro allI impI)
  fix i
  assume i: "0 \<le> i \<and> i < process_count s' \<and> state (proc_at s' i) = TASK_RUNNING"
  have c: "current_process s' = r" and n: "process_count s' = process_count s"
    and at: "\<forall>i. 0 \<le> i \<and> i < process_count s \<longrightarrow> proc_at s' i =
      (let x = (if i = current_process s then ticked e (proc_at s i) else proc_at s i)
       in if i = r then x\<lparr>state := TASK_RUNNING\<rparr> else x)"
    using sw unfolding switched_def by blast+
  show "i = current_process s'"
  proof (rule ccontr)
    assume "i \<noteq> current_process s'"
    then have "proc_at s' i = (if i = current_process s then ticked e (proc_at s i) else proc_at s i)"
      using at i n c by simp
    then show False using i n one ticked_not_running[of e "proc_at s i"] unfolding one_running_def by (metis (full_types))
  qed
qed

section \<open>Example states\<close>

definition demo_proc :: "u32 \<Rightarrow> task_state \<Rightarrow> process" where
  "demo_proc n st = zero_process\<lparr>pid := n, parent_pid := 1, state := st, address_space := 0x1000,
     kernel_stack := 0x6000, kernel_stack_top := 0x5FD4\<rparr>"

text \<open>Three processes: the first is running, the second waits for a message, the third is ready.\<close>

definition demo_sched :: proc_state where
  "demo_sched = \<lparr>bitmap = demo_vbitmap, total_pages = 8, used_pages = 4, mem = (\<lambda>_. 0), free_list = nullptr,
     heap_end = 0, console = demo_terminal, total_memory_mb = 1, g_mbi = nullptr, cr3 = 0x1000, cr0 = 1,
     kernel_space = 0x1000, user_code_phys = 0x2000, user_code_size = 16,
     procs = [0x100 \<mapsto> demo_proc 1 TASK_RUNNING, 0x200 \<mapsto> demo_proc 2 TASK_BLOCKED, 0x300 \<mapsto> demo_proc 3 TASK_READY],
     queues = Map.empty, next_pid = 4, process_table = [0x100, 0x200, 0x300, 0, 0, 0, 0, 0, 0, 0, 0, 0, 0, 0, 0, 0],
     process_count = 3, current_process = 0, tss = zero_tss, tasks = [], task_count_value = 0, task_next_pid = 1\<rparr>"

lemma demo_sched_fields: "process_count demo_sched = 3" "current_process demo_sched = 0"
  "process_table demo_sched = [0x100, 0x200, 0x300, 0, 0, 0, 0, 0, 0, 0, 0, 0, 0, 0, 0, 0]" "mem demo_sched = (\<lambda>_. 0)"
  "procs demo_sched = [0x100 \<mapsto> demo_proc 1 TASK_RUNNING, 0x200 \<mapsto> demo_proc 2 TASK_BLOCKED, 0x300 \<mapsto> demo_proc 3 TASK_READY]"
  by (simp_all add: demo_sched_def)

lemma less_three: "(\<forall>i < 3. P i) \<longleftrightarrow> P 0 \<and> P 1 \<and> P (2 :: nat)"
  by (auto simp: numeral_3_eq_3 numeral_2_eq_2 less_Suc_eq)

lemma demo_sched_wf: "sched_wf (demo_sched\<lparr>current_process := c\<rparr>)" if "- 1 \<le> c"
  unfolding sched_wf_def using that by (simp add: demo_sched_fields less_three)

lemma demo_sched_wf0: "sched_wf demo_sched"
  unfolding sched_wf_def by (simp add: demo_sched_fields less_three)

lemma demo_sched_running: "one_running demo_sched"
proof -
  have "i = 0" if h: "0 \<le> i" "i < 3" "state (proc_at demo_sched i) = TASK_RUNNING" for i
  proof -
    consider "i = 0" | "i = 1" | "i = 2" using h(1,2) by linarith
    then show ?thesis
      by cases (use h(3) in \<open>simp_all add: proc_at_def demo_sched_fields demo_proc_def\<close>)
  qed
  then show ?thesis by (simp add: one_running_def demo_sched_fields)
qed

section \<open>Properties\<close>

text \<open>C12: A scheduler tick on a well-formed table always returns. It keeps the table well formed,
  leaves at most the current process running, and switches to the next process in the
  table, going round, that is neither dead nor blocked: that process becomes current and
  running, its address space and kernel stack are loaded, its saved stack pointer (or the
  start of its frame) is the result, and the previous process is ready with its stack
  pointer saved. When no process can run, the interrupted one goes on.\<close>

theorem scheduler_tick_round_robin:
  assumes wf: "sched_wf s" and one: "one_running s" and pos: "0 < process_count s"
  shows "\<exists>r e' s'. scheduler_tick e s = Inr (e', s') \<and> sched_wf s' \<and> one_running s'
    \<and> next_after s (current_process s) r
    \<and> (if r = -1 then e' = e \<and> current_process s' = current_process s else switched e s r e' s')"
proof -
  obtain r e' s' where t: "scheduler_tick e s = Inr (e', s')" "next_after s (current_process s) r" "sched_wf s'"
    "if r = -1 then e' = e \<and> current_process s' = current_process s \<and> process_count s' = process_count s
       \<and> (\<forall>i. 0 \<le> i \<and> i < process_count s \<longrightarrow>
            proc_at s' i = (if i = current_process s then ticked e (proc_at s i) else proc_at s i))
     else 0 \<le> r \<and> r < process_count s \<and> switched e s r e' s'"
    by (rule scheduler_tick_ok[OF wf pos])
  have "one_running s'"
  proof (cases "r = -1")
    case True
    then show ?thesis using t(4) one by (auto simp: one_running_def split: if_splits)
  next
    case False
    then have "switched e s r e' s'" using t(4) by simp
    then show ?thesis using one by (rule switched_one_running)
  qed
  then show ?thesis using t by (intro exI[of _ r] exI[of _ e'] exI[of _ s']) auto
qed

theorem scheduler_tick_round_robin_witness:
  "\<exists>e' s'. scheduler_tick 0x5F00 demo_sched = Inr (e', s') \<and> one_running s' \<and> sched_wf s'"
proof -
  have "0 < process_count demo_sched" by (simp add: demo_sched_fields)
  from scheduler_tick_round_robin[OF demo_sched_wf0 demo_sched_running this, of "0x5F00"] show ?thesis by blast
qed

text \<open>C13: No process that can run waits for ever: after at most as many ticks as there are
  processes it is the running one, whatever the others do meanwhile between two ticks
  without changing their states.\<close>

theorem scheduler_bounded_waiting:
  assumes "sched_wf s" and "0 \<le> j" "j < process_count s" and "can_run (state (proc_at s j))"
    and "process_count s \<le> int (length es)"
  shows "\<exists>k s'. k \<le> nat (process_count s) \<and> ticks (take k es) s = Inr s'
    \<and> current_process s' = j \<and> state (proc_at s' j) = TASK_RUNNING"
proof -
  have pos: "0 < process_count s" using assms(2,3) by simp
  have w: "nat (wait_for s j) + 1 \<le> nat (process_count s)" using wait_for_bound[OF pos, of j] by linarith
  then have "nat (wait_for s j) < length es" using assms(5) by linarith
  from ticks_reach[OF assms(1-4) this] obtain k s' where "k \<le> nat (wait_for s j) + 1" "ticks (take k es) s = Inr s'"
    "current_process s' = j" "state (proc_at s' j) = TASK_RUNNING" by blast
  then show ?thesis using w by (intro exI[of _ k] exI[of _ s']) linarith
qed

theorem scheduler_bounded_waiting_witness:
  "\<exists>k s'. k \<le> 3 \<and> ticks (take k [1, 2, 3]) demo_sched = Inr s' \<and> current_process s' = 2"
proof -
  have run: "can_run (state (proc_at demo_sched 2))"
    by (simp add: proc_at_def demo_sched_fields demo_proc_def can_run_def)
  have "process_count demo_sched \<le> int (length [1, 2, 3 :: u32])" "(2 :: int) < process_count demo_sched"
    by (simp_all add: demo_sched_fields)
  from scheduler_bounded_waiting[OF demo_sched_wf0 _ this(2) run this(1)] show ?thesis by (auto simp: demo_sched_fields)
qed

text \<open>C14: A process given an entry point and a stack by \<open>process_set_entry\<close> starts there: the stack
  pointer that \<open>process_first_enter\<close> loads points to eight zero registers followed by an
  interrupt frame for ring 3 with that entry, interrupts enabled and that user
  stack.\<close>

theorem process_enters_at_entry:
  assumes "sched_wf s" and "procs s p = Some x" "p \<noteq> nullptr" and "unat (kernel_stack_bottom x) + 8192 < 2 ^ 32"
  shows "\<exists>s1 sp s2. process_set_entry p entry uesp s = Inr s1 \<and> process_first_enter p s1 = Inr (sp, s2)
    \<and> frame_words (mem s2) sp 13 = [0, 0, 0, 0, 0, 0, 0, 0, entry, 0x1B, 0x202, uesp, 0x23]
    \<and> (\<exists>y. procs s2 p = Some y \<and> state y = TASK_RUNNING \<and> user_entry y = entry \<and> user_esp y = uesp)"
proof -
  obtain m where m: "process_set_entry p entry uesp s = Inr (s\<lparr>mem := m, procs := (procs s)(p \<mapsto>
      x\<lparr>user_entry := entry, user_esp := uesp, kernel_stack_top := kernel_stack_bottom x + 8192 - 52\<rparr>)\<rparr>)"
    "frame_words m (kernel_stack_bottom x + 8192 - 52) 13 = [0, 0, 0, 0, 0, 0, 0, 0, entry, 0x1B, 0x202, uesp, 0x23]"
    by (rule process_set_entry_ok[OF assms(2-4)])
  let ?x = "x\<lparr>user_entry := entry, user_esp := uesp, kernel_stack_top := kernel_stack_bottom x + 8192 - 52\<rparr>"
  let ?s1 = "s\<lparr>mem := m, procs := (procs s)(p \<mapsto> ?x)\<rparr>"
  have "procs ?s1 p = Some ?x" "length (process_table ?s1) = 16" "process_count ?s1 \<le> 16"
    using assms(1) by (simp_all add: sched_wf_def)
  from process_first_enter_ok[OF this(1) assms(3) this(2,3)] obtain s2 where
    s2: "process_first_enter p ?s1 = Inr (kernel_stack_top ?x, s2)" "mem s2 = m"
    "procs s2 p = Some (?x\<lparr>state := TASK_RUNNING\<rparr>)" by auto
  then show ?thesis using m by auto
qed

theorem process_enters_at_entry_witness:
  "\<exists>s1 sp s2. process_set_entry 0x300 0x40000000 0x40002000 demo_sched = Inr s1
     \<and> process_first_enter 0x300 s1 = Inr (sp, s2) \<and> frame_words (mem s2) sp 13 ! 8 = 0x40000000"
proof -
  have p: "procs demo_sched 0x300 = Some (demo_proc 3 TASK_READY)" by (simp add: demo_sched_fields)
  have b: "unat (kernel_stack_bottom (demo_proc 3 TASK_READY)) + 8192 < 2 ^ 32"
    by (simp add: demo_proc_def zero_process_def)
  from process_enters_at_entry[OF demo_sched_wf0 p _ b, of "0x40000000" "0x40002000"] show ?thesis by fastforce
qed

text \<open>C15: \<open>process_destroy\<close> moves the last process of the table into the freed position without
  telling the scheduler. When the last one is the running process, the scheduler no
  longer finds it: there is no current process and \<open>process_exit_current\<close> has no
  effect.\<close>

theorem process_destroy_loses_current:
  assumes wf: "sched_wf s" and i: "0 \<le> i" "i < current_process s" and c: "current_process s = process_count s - 1"
    and d: "process_destroy (process_table s ! nat i) s = Inr s'"
  shows "process_get i s' = Inr (process_table s ! nat (current_process s))
    \<and> scheduler_current_process s' = Inr nullptr \<and> process_exit_current code s' = Inr s'"
proof -
  let ?n = "nat (process_count s)"
  have n: "i < process_count s" "process_count s \<le> 16" "length (process_table s) = 16" using wf i c by (auto simp: sched_wf_def)
  have ne: "process_table s ! nat i \<noteq> nullptr" using sched_wfD(2)[OF wf i(1) n(1)] .
  have first: "\<forall>j < nat i. process_table s ! j \<noteq> process_table s ! nat i"
  proof (intro allI impI)
    fix j assume "j < nat i"
    then show "process_table s ! j \<noteq> process_table s ! nat i"
      using table_inj[OF wf, of "int j" i] i n by auto
  qed
  have "nat i < ?n" "?n \<le> length (process_table s)" using i n by auto
  note t = process_destroy_table[OF d ne refl this(1) first this(2)]
  have "?n - 1 = nat (current_process s)" using c by simp
  then have "process_get i s' = Inr (process_table s ! nat (current_process s))"
    using i c n unfolding process_get_def t by (simp add: array_get_def)
  moreover have "scheduler_current_process s' = Inr nullptr"
    using c unfolding scheduler_current_process_def process_get_def t by simp
  moreover have "process_exit_current code s' = Inr s'"
    using c unfolding process_exit_current_def process_current_def scheduler_current_idx_def process_get_def t Let_def by simp
  ultimately show ?thesis by blast
qed

theorem process_destroy_loses_current_witness:
  "\<exists>s'. process_destroy 0x100 (demo_sched\<lparr>current_process := 2\<rparr>) = Inr s' \<and> scheduler_current_process s' = Inr nullptr"
proof -
  let ?s = "demo_sched\<lparr>current_process := 2\<rparr>"
  have h: "\<not> is_valid (\<lambda>_. 0) h" for h
    by (simp add: is_valid_def h_magic_def rd32_def HEAP_MAGIC_def)
  have k: "kfree 0x100 t = Inr t" if "mem t = (\<lambda>_. 0)" for t :: proc_state
    using that h by (simp add: kfree_def)
  have "\<exists>s'. process_destroy 0x100 ?s = Inr s'"
    by (simp add: process_destroy_def set_proc_def get_proc_def demo_sched_fields demo_proc_def zero_process_def
        upt_rec free_proc_def k)
  then obtain s' where d: "process_destroy 0x100 ?s = Inr s'" by blast
  have "sched_wf ?s" by (rule demo_sched_wf) simp
  from process_destroy_loses_current[OF this, of 0 s' 0] d show ?thesis by (simp add: demo_sched_fields)
qed

text \<open>C16: What \<open>alloc_kernel_stack\<close> does is decided by the two lowest free pages: without two pages
  it fails and gives back what it took; when they are neighbours it returns them,
  cleared; when they are not, it frees both and calls itself in the same situation, so
  it never returns.\<close>

theorem alloc_kernel_stack_decided:
  assumes inv: "pmm_inv s" and lo: "pmm_alloc_page s = Inr (lo, s1)" and hi: "pmm_alloc_page s1 = Inr (hi, s2)"
  shows "if hi = nullptr
    then \<exists>s'. alloc_kernel_stack s = Some (Inr (nullptr, 0, s')) \<and> pmm_inv s' \<and> pmm_allocated s' = pmm_allocated s
    else if hi = lo + 4096
    then alloc_kernel_stack s = Some (Inr (lo, lo, s2\<lparr>mem := memset (mem s2) lo 0 KERNEL_STACK_BYTES\<rparr>))
    else alloc_kernel_stack s = None"
proof -
  consider "hi = nullptr" | "hi \<noteq> nullptr" "hi = lo + 4096" | "hi \<noteq> nullptr" "hi \<noteq> lo + 4096" by blast
  then show ?thesis
  proof cases
    case 1
    then show ?thesis using alloc_kernel_stack_full[OF inv lo] hi by simp
  next
    case 2
    have "lo \<noteq> nullptr" by (rule pmm.alloc_twice(1)[OF inv lo hi 2(1)])
    then show ?thesis using alloc_kernel_stack_adjacent[OF inv lo hi _ 2(2,1)] 2 by simp
  next
    case 3
    have "lo \<noteq> nullptr" by (rule pmm.alloc_twice(1)[OF inv lo hi 3(1)])
    then have "split_pages s" unfolding split_pages_def using inv lo hi 3 by blast
    then show ?thesis using alloc_kernel_stack_split 3 by simp
  qed
qed

definition split_bitmap :: "u8 list" where
  "split_bitmap = 47 # replicate 32767 0"

text \<open>Pages 0 to 3 and page 5 of 8 are in use.\<close>

definition demo_split :: proc_state where
  "demo_split = demo_sched\<lparr>bitmap := split_bitmap, used_pages := 5\<rparr>"

lemma demo_split_used: "used_set demo_split = {0, 1, 2, 3, 5}"
proof -
  have f: "split_bitmap ! 0 = 47" by (simp add: split_bitmap_def)
  have "bit (47 :: u8) i = (i \<in> {0, 1, 2, 3, 5})" if "i < 8" for i
  proof -
    have "i \<in> {0, 1, 2, 3, 4, 5, 6, 7}" using that by auto
    then show ?thesis by (elim insertE) simp_all
  qed
  then have "page_used split_bitmap i = (i \<in> {0, 1, 2, 3, 5})" if "i < 8" for i
    using that f by (simp add: page_used_def)
  then show ?thesis by (auto simp: used_set_def demo_split_def demo_sched_def)
qed

lemma demo_split_pages: "pmm_inv demo_split" "pmm_allocated demo_split = {0, 0x1000, 0x2000, 0x3000, 0x5000}"
  "pmm_pages demo_split = {0, 0x1000, 0x2000, 0x3000, 0x4000, 0x5000, 0x6000, 0x7000}"
proof -
  have "length split_bitmap = 32768" by (simp add: split_bitmap_def)
  then show "pmm_inv demo_split"
    unfolding pmm_inv_def demo_split_used by (simp add: demo_split_def demo_sched_def)
  show "pmm_allocated demo_split = {0, 0x1000, 0x2000, 0x3000, 0x5000}"
    unfolding pmm_allocated_def demo_split_used by (simp add: page_addr_def PAGE_SIZE_def)
  have eight: "{..<8} = {0, 1, 2, 3, 4, 5, 6, 7 :: nat}" by auto
  have "unat (total_pages demo_split) = 8" by (simp add: demo_split_def demo_sched_def)
  then show "pmm_pages demo_split = {0, 0x1000, 0x2000, 0x3000, 0x4000, 0x5000, 0x6000, 0x7000}"
    unfolding pmm_pages_def by (simp only: eight) (simp add: page_addr_def PAGE_SIZE_def)
qed

theorem alloc_kernel_stack_decided_witness: "alloc_kernel_stack demo_split = None"
proof -
  have ne: "pmm_allocated demo_split \<noteq> pmm_pages demo_split"
    unfolding demo_split_pages(2,3) by (simp add: set_eq_iff) (rule exI[of _ "0x4000"], simp)
  obtain lo s1 where lo: "pmm_alloc_page demo_split = Inr (lo, s1)" "lo \<in> pmm_pages demo_split - pmm_allocated demo_split"
    "\<forall>q \<in> pmm_pages demo_split - pmm_allocated demo_split. lo \<le> q"
    "pmm_inv s1" "pmm_pages s1 = pmm_pages demo_split" "pmm_allocated s1 = insert lo (pmm_allocated demo_split)"
    using pmm.alloc_some[OF demo_split_pages(1) ne] by blast
  have "lo \<le> 0x4000" using lo(3) unfolding demo_split_pages(2,3) by simp
  then have l: "lo = 0x4000" using lo(2) unfolding demo_split_pages(2,3) by auto
  have s1: "pmm_allocated s1 = {0x4000, 0, 0x1000, 0x2000, 0x3000, 0x5000}"
    "pmm_pages s1 = {0, 0x1000, 0x2000, 0x3000, 0x4000, 0x5000, 0x6000, 0x7000}"
    using lo(5,6) unfolding l demo_split_pages(2,3) by simp_all
  have ne1: "pmm_allocated s1 \<noteq> pmm_pages s1"
    unfolding s1 by (simp add: set_eq_iff) (rule exI[of _ "0x6000"], simp)
  obtain hi s2 where hi: "pmm_alloc_page s1 = Inr (hi, s2)" "hi \<in> pmm_pages s1 - pmm_allocated s1"
    using pmm.alloc_some[OF lo(4) ne1] by blast
  have "hi \<noteq> nullptr" "hi \<noteq> lo + 4096" using hi(2) unfolding s1 l by auto
  then show ?thesis using alloc_kernel_stack_decided[OF demo_split_pages(1) lo(1) hi(1)] by simp
qed

end
