(* ===== verification/Ipc_Correct.thy ===== *)
theory Ipc_Correct
  imports Syscall Sched_Properties
begin

text \<open>
  Messages between processes are delivered in the order they are sent. The queue of
  a process is the second ring of the kernel: here it meets the contract of a bounded
  queue, and the system calls 7 (send) and 8 (receive) are shown to append to it and to
  take from it.
\<close>

section \<open>The queue\<close>

definition queue_inv :: "ipc_queue \<Rightarrow> bool" where
  "queue_inv q \<longleftrightarrow> length (msgs q) = 16 \<and> 0 \<le> qhead q \<and> qhead q < 16 \<and> 0 \<le> qcount q \<and> qcount q \<le> 16
     \<and> qtail q = (qhead q + qcount q) mod 16
     \<and> (\<forall>m \<in> set (msgs q). length (msg_data m) = 64 \<and> msg_size m \<le> 64)"

definition msg_content :: "ipc_msg \<Rightarrow> u32 \<times> u8 list" where
  "msg_content m = (sender_pid m, take (unat (msg_size m)) (msg_data m))"

definition queue_contents :: "ipc_queue \<Rightarrow> (u32 \<times> u8 list) list" where
  "queue_contents q = map msg_content (ring_list (msgs q) (nat (qhead q)) (nat (qcount q)))"

definition msg_fits :: "u32 \<times> u8 list \<Rightarrow> bool" where
  "msg_fits m \<longleftrightarrow> length (snd m) \<le> IPC_MAX_MSG_SIZE"

text \<open>Sending and receiving as operations of the queue alone: a full queue refuses a message.\<close>

definition mq_push :: "u32 \<times> u8 list \<Rightarrow> ipc_queue \<Rightarrow> ipc_queue" where
  "mq_push m q =
     (if qcount q \<ge> IPC_MAX_MSG_PER_PROC then q
      else case queue_put (fst m) (snd m) q of Inl _ \<Rightarrow> q | Inr q' \<Rightarrow> q')"

definition mq_pop :: "ipc_queue \<Rightarrow> ((u32 \<times> u8 list) \<times> ipc_queue) option" where
  "mq_pop q =
     (if qcount q = 0 then None
      else case queue_take q of Inl _ \<Rightarrow> None | Inr (m, q') \<Rightarrow> Some (msg_content m, q'))"

lemma length_queue_contents [simp]: "length (queue_contents q) = nat (qcount q)"
  by (simp add: queue_contents_def)

lemma map_ring_list: "map f (ring_list buf i n) = ring_list (map f buf) i n" if "buf \<noteq> []"
  using that by (simp add: ring_list_def)

lemma nat_mod_16: "0 \<le> a \<Longrightarrow> nat (a mod 16) = nat a mod 16"
  by (simp add: nat_mod_distrib)

lemma queue_inv_update:
  "queue_inv (q\<lparr>msgs := ms, qtail := t, qcount := c\<rparr>) \<longleftrightarrow> length ms = 16 \<and> 0 \<le> qhead q \<and> qhead q < 16
     \<and> 0 \<le> c \<and> c \<le> 16 \<and> t = (qhead q + c) mod 16 \<and> (\<forall>m \<in> set ms. length (msg_data m) = 64 \<and> msg_size m \<le> 64)"
  by (simp add: queue_inv_def)

lemma queue_put_ok:
  assumes inv: "queue_inv q" and fits: "length bytes \<le> 64" and room: "qcount q < 16"
  obtains q' where "queue_put sender bytes q = Inr q'" "queue_inv q'" "qcount q' = qcount q + 1"
    "queue_contents q' = queue_contents q @ [(sender, bytes)]"
proof -
  let ?t = "(nat (qhead q) + nat (qcount q)) mod 16"
  let ?m = "(msgs q ! ?t)\<lparr>sender_pid := sender, msg_size := of_nat (length bytes),
      msg_data := bytes @ drop (length bytes) (msg_data (msgs q ! ?t))\<rparr>"
  let ?q = "q\<lparr>msgs := (msgs q)[?t := ?m], qtail := (qtail q + 1) mod 16, qcount := qcount q + 1\<rparr>"
  have len: "length (msgs q) = 16" and h: "0 \<le> qhead q" "qhead q < 16" "0 \<le> qcount q"
    and tail: "qtail q = (qhead q + qcount q) mod 16" and d: "\<forall>m \<in> set (msgs q). length (msg_data m) = 64 \<and> msg_size m \<le> 64"
    using inv by (simp_all add: queue_inv_def)
  have t: "nat (qtail q) = ?t" "?t < 16" using tail h by (simp_all add: nat_mod_16 nat_add_distrib)
  have put: "queue_put sender bytes q = Inr ?q"
    using t len by (simp add: queue_put_def IPC_MAX_MSG_PER_PROC_def)
  have old: "length (msg_data (msgs q ! ?t)) = 64" using d t(2) len by simp
  have m: "msg_content ?m = (sender, bytes)" "length (msg_data ?m) = 64" "msg_size ?m \<le> 64"
    using fits old by (simp_all add: msg_content_def unat_of_nat word_le_nat_alt)
  have ms: "\<forall>x \<in> set ((msgs q)[?t := ?m]). length (msg_data x) = 64 \<and> msg_size x \<le> 64"
    using d m(2,3) set_update_subset_insert[of "msgs q" ?t ?m] by blast
  have tl: "(qtail q + 1) mod 16 = (qhead q + (qcount q + 1)) mod 16"
    unfolding tail by (simp add: mod_add_left_eq add.assoc)
  have c: "0 \<le> qcount q + 1" "qcount q + 1 \<le> 16" using h room by simp_all
  have inv': "queue_inv ?q"
    unfolding queue_inv_update length_list_update using len h(1,2) c tl ms by blast
  have n: "nat (qcount q + 1) = Suc (nat (qcount q))" using h by simp
  have "ring_list ((msgs q)[?t := ?m]) (nat (qhead q)) (Suc (nat (qcount q)))
      = ring_list (msgs q) (nat (qhead q)) (nat (qcount q)) @ [?m]"
    using ring_list_push[of "nat (qcount q)" "msgs q" "nat (qhead q)" ?m] room len h by simp
  then have "queue_contents ?q = queue_contents q @ [(sender, bytes)]"
    using m(1) n by (simp add: queue_contents_def)
  then show thesis using that[OF put inv'] by simp
qed

lemma queue_take_ok:
  assumes inv: "queue_inv q" and some: "queue_contents q = x # xs"
  obtains m q' where "queue_take q = Inr (m, q')" "msg_content m = x" "length (msg_data m) = 64" "msg_size m \<le> 64"
    "queue_inv q'" "queue_contents q' = xs"
proof -
  let ?q = "q\<lparr>qhead := (qhead q + 1) mod 16, qcount := qcount q - 1\<rparr>"
  let ?m = "msgs q ! nat (qhead q)"
  have len: "length (msgs q) = 16" and h: "0 \<le> qhead q" "qhead q < 16" "qcount q \<le> 16"
    and tail: "qtail q = (qhead q + qcount q) mod 16" and d: "\<forall>m \<in> set (msgs q). length (msg_data m) = 64 \<and> msg_size m \<le> 64"
    using inv by (simp_all add: queue_inv_def)
  obtain n where n: "nat (qcount q) = Suc n" using arg_cong[OF some, of length] by auto
  then have c: "0 < qcount q" "nat (qcount q - 1) = n" by simp_all
  have take: "queue_take q = Inr (?m, ?q)" using len h by (simp add: queue_take_def IPC_MAX_MSG_PER_PROC_def)
  have "((qhead q + 1) mod 16 + (qcount q - 1)) mod 16 = (qhead q + qcount q) mod 16"
    by (simp add: mod_add_left_eq)
  then have inv': "queue_inv ?q" using inv c(1) unfolding queue_inv_def by simp
  have "queue_contents q = msg_content ?m # map msg_content (ring_list (msgs q) ((nat (qhead q) + 1) mod 16) n)"
    using ring_list_pop[of "nat (qhead q)" "msgs q" n] len h n by (simp add: queue_contents_def)
  moreover have "nat ((qhead q + 1) mod 16) = (nat (qhead q) + 1) mod 16"
    using h by (simp add: nat_mod_16 nat_add_distrib)
  ultimately have x: "msg_content ?m = x" "queue_contents ?q = xs"
    using some c(2) by (simp_all add: queue_contents_def)
  have "length (msg_data ?m) = 64" "msg_size ?m \<le> 64" using d len h by simp_all
  then show thesis using that[OF take x(1) _ _ inv' x(2)] by simp
qed

interpretation mq: bounded_fifo mq_push mq_pop queue_contents queue_inv msg_fits 16
proof
  fix q x
  assume inv: "queue_inv q"
  show "length (queue_contents q) \<le> 16" using inv by (simp add: queue_inv_def nat_le_iff)
  show "queue_inv (mq_push x q) \<and> queue_contents (mq_push x q) = queue_contents q @ [x]"
    if "msg_fits x" "length (queue_contents q) < 16"
  proof -
    have fits: "length (snd x) \<le> 64" using that(1) by (simp add: msg_fits_def IPC_MAX_MSG_SIZE_def)
    have room: "qcount q < 16" using that(2) inv by (simp add: queue_inv_def)
    show ?thesis
      by (rule queue_put_ok[OF inv fits room, of "fst x"]) (use room in \<open>simp add: mq_push_def IPC_MAX_MSG_PER_PROC_def\<close>)
  qed
  show "mq_push x q = q" if "length (queue_contents q) = 16"
    using that by (simp add: mq_push_def IPC_MAX_MSG_PER_PROC_def)
  show "mq_pop q = None" if "queue_contents q = []"
    using arg_cong[OF that, of length] inv by (simp add: mq_pop_def queue_inv_def)
  show "\<exists>q'. mq_pop q = Some (y, q') \<and> queue_inv q' \<and> queue_contents q' = ys"
    if c: "queue_contents q = y # ys" for y ys
  proof -
    have "qcount q \<noteq> 0" using arg_cong[OF c, of length] by auto
    moreover obtain m q' where "queue_take q = Inr (m, q')" "msg_content m = y" "queue_inv q'" "queue_contents q' = ys"
      by (rule queue_take_ok[OF inv c])
    ultimately show ?thesis by (simp add: mq_pop_def)
  qed
qed

section \<open>Sending and receiving\<close>

lemma send_loop_skip:
  assumes wf: "sched_wf s" and j: "j < process_count s"
    and first: "\<forall>i. 0 \<le> i \<and> i < j \<longrightarrow> pid (proc_at s i) \<noteq> t"
  shows "0 \<le> i \<Longrightarrow> i \<le> j \<Longrightarrow> send_loop [i..process_count s - 1] t data sz s = send_loop [j..process_count s - 1] t data sz s"
proof (induction "nat (j - i)" arbitrary: i)
  case 0
  then show ?case by simp
next
  case (Suc n)
  then have i: "0 \<le> i" "i < j" "i < process_count s" using j by simp_all
  note g = sched_wfD[OF wf i(1,3)]
  have "send_loop [i..process_count s - 1] t data sz s = send_loop [i + 1..process_count s - 1] t data sz s"
    using g i first by (subst upto_rec1) simp_all
  then show ?case using Suc.hyps(1)[of "i + 1"] Suc.hyps(2) i by simp
qed

lemma current_ok:
  assumes "sched_wf s" "0 \<le> current_process s" "current_process s < process_count s"
  shows "scheduler_current_process s = Inr (process_table s ! nat (current_process s))"
  using sched_wfD(1)[OF assms] assms(2) by (simp add: scheduler_current_process_def)

lemma load_bytes_length: "load_bytes n a s = Inr bs \<Longrightarrow> length bs = n"
  by (induction n arbitrary: a bs) (auto simp: bindR_eq_Inr)

text \<open>Process 1 of three is running; process 2 waits for a message and its queue is empty.\<close>

definition demo_queue :: ipc_queue where
  "demo_queue = \<lparr>msgs = replicate 16 \<lparr>sender_pid = 0, msg_size = 0, msg_data = replicate 64 0\<rparr>,
     qhead = 0, qtail = 0, qcount = 0\<rparr>"

definition demo_ipc :: kernel_state where
  "demo_ipc = \<lparr>bitmap = bitmap demo_sched, total_pages = 8, used_pages = 4, mem = (\<lambda>a. ucast a), free_list = nullptr,
     heap_end = 0, console = console demo_sched, total_memory_mb = 1, g_mbi = nullptr, cr3 = 0x1000, cr0 = 1,
     kernel_space = 0x1000, user_code_phys = 0x2000, user_code_size = 16,
     procs = [0x100 \<mapsto> demo_proc 1 TASK_RUNNING, 0x200 \<mapsto> (demo_proc 2 TASK_BLOCKED)\<lparr>msg_queue := 0x900\<rparr>,
              0x300 \<mapsto> demo_proc 3 TASK_READY],
     queues = [0x900 \<mapsto> demo_queue], next_pid = 4,
     process_table = [0x100, 0x200, 0x300, 0, 0, 0, 0, 0, 0, 0, 0, 0, 0, 0, 0, 0],
     process_count = 3, current_process = 0, tss = zero_tss, tasks = [], task_count_value = 0, task_next_pid = 1,
     timer_ticks = 0, sleep_ticks = 0, kbd = \<lparr>shift_pressed = False, ctrl_pressed = False, alt_pressed = False, caps_lock = False\<rparr>,
      kbd_buf = kbd_buffer_empty\<rparr>"

lemma demo_ipc_fields: "process_count demo_ipc = 3" "current_process demo_ipc = 0" "cr0 demo_ipc = 1"
  "process_table demo_ipc = [0x100, 0x200, 0x300, 0, 0, 0, 0, 0, 0, 0, 0, 0, 0, 0, 0, 0]" "mem demo_ipc = (\<lambda>a. ucast a)"
  "procs demo_ipc = [0x100 \<mapsto> demo_proc 1 TASK_RUNNING, 0x200 \<mapsto> (demo_proc 2 TASK_BLOCKED)\<lparr>msg_queue := 0x900\<rparr>,
              0x300 \<mapsto> demo_proc 3 TASK_READY]" "queues demo_ipc = [0x900 \<mapsto> demo_queue]"
  by (simp_all add: demo_ipc_def)

lemma demo_ipc_wf: "sched_wf demo_ipc" "sched_wf (demo_ipc\<lparr>current_process := 1\<rparr>)"
  unfolding sched_wf_def by (simp_all add: demo_ipc_fields less_three)

lemma demo_queue_inv: "queue_inv demo_queue" "queue_contents demo_queue = []"
  by (simp_all add: queue_inv_def demo_queue_def queue_contents_def)

text \<open>C17: System call 7 appends the message to the queue of the process with the given number,
  with the number of the sender, and wakes the process if it was blocked. It refuses
  the message, changing nothing, when the queue holds 16 messages.\<close>

theorem sys_send_appends:
  fixes s :: "'z kernel_state_scheme"
  assumes wf: "sched_wf s" and j: "0 \<le> j" "j < process_count s"
    and first: "\<forall>i. 0 \<le> i \<and> i < j \<longrightarrow> pid (proc_at s i) \<noteq> t" and target: "pid (proc_at s j) = t"
    and alive: "state (proc_at s j) \<noteq> TASK_DEAD"
    and q: "msg_queue (proc_at s j) = a" "a \<noteq> nullptr" "queues s a = Some q" "queue_inv q"
    and cur: "0 \<le> current_process s" "current_process s < process_count s"
    and args: "data \<noteq> nullptr" "0 < sz" "sz \<le> 64" and load: "load_bytes (unat sz) data s = Inr bytes"
  shows "if length (queue_contents q) = 16 then syscall_dispatch 7 t data sz s = Inr (0xFFFFFFFF, s)
    else \<exists>q'. queue_inv q' \<and> queue_contents q' = queue_contents q @ [(pid (proc_at s (current_process s)), bytes)]
      \<and> syscall_dispatch 7 t data sz s = Inr (0, s\<lparr>queues := (queues s)(a \<mapsto> q'),
          procs := (if state (proc_at s j) = TASK_BLOCKED
                    then (procs s)(process_table s ! nat j \<mapsto> (proc_at s j)\<lparr>state := TASK_READY\<rparr>) else procs s)\<rparr>)"
proof -
  note g = sched_wfD[OF wf j] and me = sched_wfD[OF wf cur]
  have sz: "unat sz \<le> 64" "\<not> IPC_MAX_MSG_SIZE < unat sz" using args(3) by (simp_all add: word_le_nat_alt IPC_MAX_MSG_SIZE_def)
  have sys: "syscall_dispatch 7 t data sz s
      = bindR (send_loop [j..process_count s - 1] t data sz s) (\<lambda>(r, s). Inr (word_of_int r, s))"
    using send_loop_skip[OF wf j(2) first order_refl j(1)] args sz
    by (simp add: syscall_dispatch_def ipc_send_def process_total_def)
  have n: "length (queue_contents q) = 16 \<longleftrightarrow> \<not> qcount q < 16" using q(4) by (auto simp: queue_inv_def)
  show ?thesis
  proof (cases "qcount q < 16")
    case False
    have "send_loop [j..process_count s - 1] t data sz s = Inr (- 1, s)"
      using g j target alive q False
      by (subst upto_rec1) (simp_all add: get_queue_def IPC_MAX_MSG_PER_PROC_def)
    then show ?thesis using sys n False by simp
  next
    case True
    have fits: "length bytes \<le> 64" using load_bytes_length[OF load] sz by simp
    obtain q' where q': "queue_put (pid (proc_at s (current_process s))) bytes q = Inr q'" "queue_inv q'"
      "queue_contents q' = queue_contents q @ [(pid (proc_at s (current_process s)), bytes)]"
      by (rule queue_put_ok[OF q(4) fits True])
    have "send_loop [j..process_count s - 1] t data sz s = Inr (0, s\<lparr>queues := (queues s)(a \<mapsto> q'),
          procs := (if state (proc_at s j) = TASK_BLOCKED
                    then (procs s)(process_table s ! nat j \<mapsto> (proc_at s j)\<lparr>state := TASK_READY\<rparr>) else procs s)\<rparr>)"
      using g j target alive q(1,2,3) True me current_ok[OF wf cur] load q'(1)
      by (subst upto_rec1) (simp_all add: get_queue_def IPC_MAX_MSG_PER_PROC_def set_proc_def get_proc_def)
    then show ?thesis using sys n True q'(2,3) by auto
  qed
qed

theorem sys_send_appends_witness:
  "\<exists>q'. queue_contents q' = [(1, [0x34, 0x35])]
    \<and> syscall_dispatch 7 2 0x1234 2 demo_ipc = Inr (0, demo_ipc\<lparr>queues := [0x900 \<mapsto> q'],
        procs := (procs demo_ipc)(0x200 \<mapsto> (demo_proc 2 TASK_READY)\<lparr>msg_queue := 0x900\<rparr>)\<rparr>)"
proof -
  have p: "proc_at demo_ipc 1 = (demo_proc 2 TASK_BLOCKED)\<lparr>msg_queue := 0x900\<rparr>" "proc_at demo_ipc 0 = demo_proc 1 TASK_RUNNING"
    by (simp_all add: proc_at_def demo_ipc_fields)
  have first: "\<forall>i. 0 \<le> i \<and> i < 1 \<longrightarrow> pid (proc_at demo_ipc i) \<noteq> 2"
  proof (intro allI impI)
    fix i :: int
    assume "0 \<le> i \<and> i < 1"
    then have "i = 0" by simp
    then show "pid (proc_at demo_ipc i) \<noteq> 2" using p by (simp add: demo_proc_def)
  qed
  have "unat (2 :: u32) = Suc (Suc 0)" by simp
  then have load: "load_bytes (unat (2 :: u32)) 0x1234 demo_ipc = Inr [0x34, 0x35]"
    by (simp only: load_bytes.simps) (simp add: load8_def physical_def demo_ipc_fields)
  have j: "(1 :: int) < process_count demo_ipc" "0 \<le> current_process demo_ipc" "current_process demo_ipc < process_count demo_ipc"
    by (simp_all add: demo_ipc_fields)
  have t: "pid (proc_at demo_ipc 1) = 2" "state (proc_at demo_ipc 1) \<noteq> TASK_DEAD" "msg_queue (proc_at demo_ipc 1) = 0x900"
    by (simp_all add: p demo_proc_def)
  have q: "queues demo_ipc 0x900 = Some demo_queue" by (simp add: demo_ipc_fields)
  obtain q' where q': "queue_contents q' = [(pid (proc_at demo_ipc (current_process demo_ipc)), [0x34, 0x35])]"
    "syscall_dispatch 7 2 0x1234 2 demo_ipc = Inr (0, demo_ipc\<lparr>queues := (queues demo_ipc)(0x900 \<mapsto> q'),
        procs := (if state (proc_at demo_ipc 1) = TASK_BLOCKED
                  then (procs demo_ipc)(process_table demo_ipc ! nat 1 \<mapsto> (proc_at demo_ipc 1)\<lparr>state := TASK_READY\<rparr>)
                  else procs demo_ipc)\<rparr>)"
    using sys_send_appends[OF demo_ipc_wf(1) _ j(1) first t(1,2,3) _ q demo_queue_inv(1) j(2,3) _ _ _ load]
    unfolding demo_queue_inv(2) by auto
  have "state (proc_at demo_ipc 1) = TASK_BLOCKED"
    "(proc_at demo_ipc 1)\<lparr>state := TASK_READY\<rparr> = (demo_proc 2 TASK_READY)\<lparr>msg_queue := 0x900\<rparr>"
    "process_table demo_ipc ! nat 1 = 0x200" "(queues demo_ipc)(0x900 \<mapsto> q') = [0x900 \<mapsto> q']"
    "pid (proc_at demo_ipc (current_process demo_ipc)) = 1"
    using p by (simp_all add: demo_proc_def demo_ipc_fields)
  then show ?thesis using q' by auto
qed

text \<open>C18: System call 8 takes the oldest message of the calling process: its bytes, cut to the
  size of the buffer, go to the buffer, the result is their number, and the later
  messages stay in order. With no message the process becomes blocked and the result is
  0.\<close>

theorem sys_recv_oldest:
  fixes s :: "'z kernel_state_scheme"
  assumes wf: "sched_wf s" and cur: "0 \<le> current_process s" "current_process s < process_count s"
    and me: "proc_at s (current_process s) = p"
    and q: "msg_queue p = a" "a \<noteq> nullptr" "queues s a = Some q" "queue_inv q"
    and args: "buf \<noteq> nullptr" "0 < sz"
  shows "case queue_contents q of
      [] \<Rightarrow> syscall_dispatch 8 buf sz edx s = Inr (0, s\<lparr>procs :=
              (procs s)(process_table s ! nat (current_process s) \<mapsto> p\<lparr>state := TASK_BLOCKED\<rparr>)\<rparr>)
    | (sender, bytes) # rest \<Rightarrow> \<exists>q'. queue_inv q' \<and> queue_contents q' = rest
        \<and> syscall_dispatch 8 buf sz edx s =
            bindR (store_bytes buf (take (unat sz) bytes) s) (\<lambda>s1.
            Inr (of_nat (min (length bytes) (unat sz)), s1\<lparr>queues := (queues s1)(a \<mapsto> q')\<rparr>))"
proof -
  note g = sched_wfD[OF wf cur, unfolded me]
  have c: "scheduler_current_process s = Inr (process_table s ! nat (current_process s))" by (rule current_ok[OF wf cur])
  have sz: "sz \<noteq> 0" using args(2) by auto
  show ?thesis
  proof (cases "queue_contents q")
    case Nil
    have "qcount q = 0" using q(4) length_queue_contents[of q, unfolded Nil] by (simp add: queue_inv_def)
    then show ?thesis
      using Nil g c q args(1) sz by (simp add: syscall_dispatch_def ipc_recv_def get_queue_def set_proc_def)
  next
    case (Cons x rest)
    obtain sender bytes where x: "x = (sender, bytes)" by (cases x)
    have "qcount q \<noteq> 0" using arg_cong[OF Cons, of length] by auto
    obtain m q' where t: "queue_take q = Inr (m, q')" "msg_content m = x" "length (msg_data m) = 64" "msg_size m \<le> 64"
      "queue_inv q'" "queue_contents q' = rest" by (rule queue_take_ok[OF q(4) Cons])
    let ?n = "if msg_size m < sz then msg_size m else sz"
    have b: "bytes = take (unat (msg_size m)) (msg_data m)" using t(2) x by (simp add: msg_content_def)
    then have l: "length bytes = unat (msg_size m)" using t(3,4) by (simp add: word_le_nat_alt)
    have n: "unat ?n = min (length bytes) (unat sz)" using l by (simp add: word_less_nat_alt)
    have "take (unat ?n) (msg_data m) = take (unat sz) bytes"
      unfolding n l unfolding b by (simp only: take_take min.commute)
    moreover have "word_of_int (sint ?n) = (of_nat (min (length bytes) (unat sz)) :: u32)"
      unfolding n[symmetric] by simp
    ultimately have "syscall_dispatch 8 buf sz edx s =
            bindR (store_bytes buf (take (unat sz) bytes) s) (\<lambda>s1.
            Inr (of_nat (min (length bytes) (unat sz)), s1\<lparr>queues := (queues s1)(a \<mapsto> q')\<rparr>))"
      using g c q(1,2,3) args(1) sz t(1) \<open>qcount q \<noteq> 0\<close>
      by (simp add: syscall_dispatch_def ipc_recv_def get_queue_def bindR_assoc Let_def)
    then show ?thesis using Cons x t(5,6) by auto
  qed
qed

theorem sys_recv_oldest_witness:
  "syscall_dispatch 8 0x5000 16 0 (demo_ipc\<lparr>current_process := 1\<rparr>)
     = Inr (0, demo_ipc\<lparr>current_process := 1, procs := (procs demo_ipc)(0x200 \<mapsto>
         (demo_proc 2 TASK_BLOCKED)\<lparr>msg_queue := 0x900, state := TASK_BLOCKED\<rparr>)\<rparr>)"
proof -
  let ?s = "demo_ipc\<lparr>current_process := 1\<rparr>"
  have p: "proc_at ?s (current_process ?s) = (demo_proc 2 TASK_BLOCKED)\<lparr>msg_queue := 0x900\<rparr>"
    by (simp add: proc_at_def demo_ipc_fields)
  show ?thesis
    using sys_recv_oldest[OF demo_ipc_wf(2) _ _ p _ _ _ demo_queue_inv(1), of "0x900" "0x5000" 16 0]
    by (simp add: demo_ipc_fields demo_queue_inv demo_proc_def)
qed

end
