(* ===== verification/Port_Io.thy ===== *)
theory Port_Io
  imports Syscall
begin

text \<open>
  Input and output ports (\<open>src/src/arch/x86/ports.cpp\<close>). The devices behind the ports are not
  part of the kernel: \<open>device\<close> gives the value an input instruction reads, as a function of
  everything the kernel has read and written before, and no operation changes it. The
  state records that history, the latest access first.
\<close>

datatype io_event = In8 u16 | In16 u16 | In32 u16 | Out8 u16 u8 | Out16 u16 u16 | Out32 u16 u32

record hw_state = kernel_state +
  device :: "io_event list \<Rightarrow> u32"
  io_log :: "io_event list"

definition outb :: "u16 \<Rightarrow> u8 \<Rightarrow> 'z hw_state_scheme \<Rightarrow> 'z hw_state_scheme" where
  "outb port value s = s\<lparr>io_log := Out8 port value # io_log s\<rparr>"

definition inb :: "u16 \<Rightarrow> 'z hw_state_scheme \<Rightarrow> u8 \<times> 'z hw_state_scheme" where
  "inb port s = (ucast (device s (In8 port # io_log s)), s\<lparr>io_log := In8 port # io_log s\<rparr>)"

definition outw :: "u16 \<Rightarrow> u16 \<Rightarrow> 'z hw_state_scheme \<Rightarrow> 'z hw_state_scheme" where
  "outw port value s = s\<lparr>io_log := Out16 port value # io_log s\<rparr>"

definition inw :: "u16 \<Rightarrow> 'z hw_state_scheme \<Rightarrow> u16 \<times> 'z hw_state_scheme" where
  "inw port s = (ucast (device s (In16 port # io_log s)), s\<lparr>io_log := In16 port # io_log s\<rparr>)"

definition outl :: "u16 \<Rightarrow> u32 \<Rightarrow> 'z hw_state_scheme \<Rightarrow> 'z hw_state_scheme" where
  "outl port value s = s\<lparr>io_log := Out32 port value # io_log s\<rparr>"

definition inl :: "u16 \<Rightarrow> 'z hw_state_scheme \<Rightarrow> u32 \<times> 'z hw_state_scheme" where
  "inl port s = (device s (In32 port # io_log s), s\<lparr>io_log := In32 port # io_log s\<rparr>)"

text \<open>An operation that only uses ports leaves everything else as it was: \<open>io_only s s'\<close>.\<close>

definition io_only :: "'z hw_state_scheme \<Rightarrow> 'z hw_state_scheme \<Rightarrow> bool" where
  "io_only s s' \<longleftrightarrow> (\<exists>es. s' = s\<lparr>io_log := es @ io_log s\<rparr>)"

lemma io_only_refl [simp]: "io_only s s"
  unfolding io_only_def by (rule exI[of _ "[]"]) simp

lemma io_only_trans: "io_only s s' \<Longrightarrow> io_only s' s'' \<Longrightarrow> io_only s s''"
proof -
  assume "io_only s s'" "io_only s' s''"
  then obtain es es' where "s' = s\<lparr>io_log := es @ io_log s\<rparr>" "s'' = s'\<lparr>io_log := es' @ io_log s'\<rparr>"
    unfolding io_only_def by blast
  then show ?thesis unfolding io_only_def by (intro exI[of _ "es' @ es"]) simp
qed

lemma io_only_ports:
  "io_only s (outb p b s)" "io_only s (outw p w s)" "io_only s (outl p l s)"
  "io_only s (snd (inb p s))" "io_only s (snd (inw p s))" "io_only s (snd (inl p s))"
  unfolding io_only_def outb_def outw_def outl_def inb_def inw_def inl_def
  by (simp_all, rule exI[of _ "[Out8 p b]"], simp, rule exI[of _ "[Out16 p w]"], simp, rule exI[of _ "[Out32 p l]"], simp,
    rule exI[of _ "[In8 p]"], simp, rule exI[of _ "[In16 p]"], simp, rule exI[of _ "[In32 p]"], simp)

lemma io_onlyE:
  assumes "io_only s s'"
  obtains es where "s' = s\<lparr>io_log := es @ io_log s\<rparr>"
  using assms unfolding io_only_def by blast

end
