(* ===== verification/Ata.thy ===== *)
theory Ata
  imports Port_Io
begin

text \<open>
  The disk driver \<open>src/src/drivers/ata.cpp\<close> on the ports of theory \<open>Port_Io\<close>. The driver waits
  for the disk by polling its status register at most \<open>ATA_TIMEOUT\<close> times, so every
  operation returns whatever the disk does.
\<close>

record ata_device =
  a_base :: u16
  a_ctrl :: u16
  a_present :: bool
  a_is_master :: bool
  a_model :: string
  a_sectors :: u32

record ata_state = hw_state +
  ata_devices :: "ata_device list"
  device_count :: int

definition ATA_PRIMARY_IO :: u16 where "ATA_PRIMARY_IO = 0x1F0"
definition ATA_PRIMARY_CTRL :: u16 where "ATA_PRIMARY_CTRL = 0x3F6"
definition ATA_SECONDARY_IO :: u16 where "ATA_SECONDARY_IO = 0x170"
definition ATA_SECONDARY_CTRL :: u16 where "ATA_SECONDARY_CTRL = 0x376"
definition ATA_REG_DATA :: u16 where "ATA_REG_DATA = 0"
definition ATA_REG_SECTORS :: u16 where "ATA_REG_SECTORS = 2"
definition ATA_REG_LBA_LOW :: u16 where "ATA_REG_LBA_LOW = 3"
definition ATA_REG_LBA_MID :: u16 where "ATA_REG_LBA_MID = 4"
definition ATA_REG_LBA_HIGH :: u16 where "ATA_REG_LBA_HIGH = 5"
definition ATA_REG_DRIVE :: u16 where "ATA_REG_DRIVE = 6"
definition ATA_REG_COMMAND :: u16 where "ATA_REG_COMMAND = 7"
definition ATA_REG_STATUS :: u16 where "ATA_REG_STATUS = 7"
definition ATA_CMD_READ :: u8 where "ATA_CMD_READ = 0x20"
definition ATA_CMD_IDENTIFY :: u8 where "ATA_CMD_IDENTIFY = 0xEC"
definition ATA_CMD_FLUSH :: u8 where "ATA_CMD_FLUSH = 0xE7"
definition ATA_STATUS_ERR :: u8 where "ATA_STATUS_ERR = 0x01"
definition ATA_STATUS_DRQ :: u8 where "ATA_STATUS_DRQ = 0x08"
definition ATA_STATUS_BSY :: u8 where "ATA_STATUS_BSY = 0x80"
definition ATA_TIMEOUT :: nat where "ATA_TIMEOUT = 10000000"

definition ata_poll :: "'z hw_state_scheme \<Rightarrow> 'z hw_state_scheme" where
  "ata_poll s = ((\<lambda>s. snd (inb ATA_PRIMARY_CTRL s)) ^^ 4) s"

text \<open>The two waiting loops, with the value of \<open>timeout\<close>; the result is that of the function.\<close>

fun wait_bsy_loop :: "nat \<Rightarrow> u16 \<Rightarrow> 'z hw_state_scheme \<Rightarrow> int \<times> 'z hw_state_scheme" where
  "wait_bsy_loop timeout base s =
     (let (v, s) = inb (base + ATA_REG_STATUS) s
      in if v AND ATA_STATUS_BSY = 0 then (0, s)
         else if timeout - 1 = 0 then (-1, s)
         else wait_bsy_loop (timeout - 1) base s)"

definition ata_wait_bsy :: "u16 \<Rightarrow> 'z hw_state_scheme \<Rightarrow> int \<times> 'z hw_state_scheme" where
  "ata_wait_bsy base s = wait_bsy_loop ATA_TIMEOUT base s"

fun wait_drq_loop :: "nat \<Rightarrow> u16 \<Rightarrow> 'z hw_state_scheme \<Rightarrow> int \<times> 'z hw_state_scheme" where
  "wait_drq_loop timeout base s =
     (let (v, s) = inb (base + ATA_REG_STATUS) s
      in if v AND ATA_STATUS_DRQ \<noteq> 0 then (0, s)
         else if timeout - 1 = 0 then (-1, s)
         else let (v, s) = inb (base + ATA_REG_STATUS) s
              in if v AND ATA_STATUS_ERR \<noteq> 0 then (-1, s)
                 else wait_drq_loop (timeout - 1) base s)"

definition ata_wait_drq :: "u16 \<Rightarrow> 'z hw_state_scheme \<Rightarrow> int \<times> 'z hw_state_scheme" where
  "ata_wait_drq base s = wait_drq_loop ATA_TIMEOUT base s"

declare wait_bsy_loop.simps [simp del] wait_drq_loop.simps [simp del]

text \<open>Reading and writing \<open>n\<close> words of data.\<close>

primrec read_words :: "nat \<Rightarrow> u16 \<Rightarrow> 'z hw_state_scheme \<Rightarrow> u16 list \<times> 'z hw_state_scheme" where
  "read_words 0 port s = ([], s)"
| "read_words (Suc n) port s =
     (let (w, s) = inw port s; (ws, s) = read_words n port s in (w # ws, s))"

definition write_words :: "u16 \<Rightarrow> u16 list \<Rightarrow> 'z hw_state_scheme \<Rightarrow> 'z hw_state_scheme" where
  "write_words port ws s = fold (outw port) ws s"

text \<open>The model name: the bytes of the words swapped, then the blanks at its end replaced.\<close>

definition model_chars :: "u16 list \<Rightarrow> string" where
  "model_chars buf = concat (map (\<lambda>i. let w = buf ! (27 + i) in [char_of (unat (drop_bit 8 w AND 0xFF)), char_of (unat (w AND 0xFF))]) [0..<20])"

fun blank_model :: "nat list \<Rightarrow> string \<Rightarrow> string" where
  "blank_model [] m = m"
| "blank_model (i # is) m = (if m ! i \<noteq> CHR '' '' then m else blank_model is (m[i := CHR 0x00]))"

text \<open>The result of \<open>ata_identify\<close> is its return value with what it leaves in \<open>dev\<close>.\<close>

definition ata_identify :: "u16 \<Rightarrow> bool \<Rightarrow> ata_device \<Rightarrow> 'z hw_state_scheme \<Rightarrow> int \<times> ata_device \<times> 'z hw_state_scheme" where
  "ata_identify base master dev s =
     (let s = outb (base + ATA_REG_DRIVE) (if master then 0xA0 else 0xB0) s;
          s = ata_poll s;
          (status, s) = inb (base + ATA_REG_STATUS) s
      in if status = 0xFF then (-1, dev, s)
         else
           let s = outb (base + ATA_REG_SECTORS) 0 s;
               s = outb (base + ATA_REG_LBA_LOW) 0 s;
               s = outb (base + ATA_REG_LBA_MID) 0 s;
               s = outb (base + ATA_REG_LBA_HIGH) 0 s;
               s = outb (base + ATA_REG_COMMAND) ATA_CMD_IDENTIFY s;
               (status, s) = inb (base + ATA_REG_STATUS) s
           in if status = 0 then (-1, dev, s)
              else
                let (r, s) = ata_wait_bsy base s
                in if r < 0 then (-1, dev, s)
                   else
                     let (status, s) = inb (base + ATA_REG_STATUS) s
                     in if status AND ATA_STATUS_ERR \<noteq> 0
                        then let (mid, s) = inb (base + ATA_REG_LBA_MID) s;
                                 (high, s) = inb (base + ATA_REG_LBA_HIGH) s
                             in (if mid = 0x14 \<and> high = 0xEB then -2 else -1, dev, s)
                        else
                          let (r, s) = ata_wait_drq base s
                          in if r < 0 then (-1, dev, s)
                             else
                               let (buf, s) = read_words 256 (base + ATA_REG_DATA) s;
                                   dev = \<lparr>a_base = base,
                                     a_ctrl = (if base = ATA_PRIMARY_IO then ATA_PRIMARY_CTRL else ATA_SECONDARY_CTRL),
                                     a_present = True, a_is_master = master,
                                     a_model = blank_model (rev [0..<40]) (model_chars buf),
                                     a_sectors = push_bit 16 (ucast (buf ! 61)) OR ucast (buf ! 60)\<rparr>
                               in (0, dev, s))"

definition zero_device :: ata_device where
  "zero_device = \<lparr>a_base = 0, a_ctrl = 0, a_present = False, a_is_master = False,
     a_model = replicate 40 (CHR 0x00), a_sectors = 0\<rparr>"

text \<open>The loop of \<open>ata_init\<close> over the probes still to make.\<close>

fun ata_probe :: "(u16 \<times> bool) list \<Rightarrow> 'z ata_state_scheme \<Rightarrow> 'z ata_state_scheme res" where
  "ata_probe [] s = Inr s"
| "ata_probe ((base, master) # probes) s =
     (let (ret, dev, s) = ata_identify base master zero_device s
      in if ret = 0
         then bindR (array_set (ata_devices s) (nat (device_count s)) dev) (\<lambda>ds.
              ata_probe probes (s\<lparr>ata_devices := ds, device_count := device_count s + 1\<rparr>))
         else ata_probe probes s)"

definition ata_init :: "'z ata_state_scheme \<Rightarrow> (int \<times> 'z ata_state_scheme) res" where
  "ata_init s =
     bindR (ata_probe [(ATA_PRIMARY_IO, True), (ATA_PRIMARY_IO, False), (ATA_SECONDARY_IO, True), (ATA_SECONDARY_IO, False)]
              (s\<lparr>device_count := 0\<rparr>)) (\<lambda>s.
     Inr (device_count s, s))"

definition ata_device_count :: "'z ata_state_scheme \<Rightarrow> int" where
  "ata_device_count s = device_count s"

text \<open>\<open>None\<close> is the null pointer.\<close>

definition ata_get_device :: "int \<Rightarrow> 'z ata_state_scheme \<Rightarrow> ata_device option res" where
  "ata_get_device index s =
     (if index < 0 \<or> index \<ge> device_count s then Inr None
      else bindR (array_get (ata_devices s) (nat index)) (\<lambda>d. Inr (Some d)))"

text \<open>Selecting the drive and the sector, common to reading and writing.\<close>

definition select_sector :: "ata_device \<Rightarrow> u32 \<Rightarrow> 'z hw_state_scheme \<Rightarrow> 'z hw_state_scheme" where
  "select_sector d lba s =
     (let base = a_base d;
          s = outb (base + ATA_REG_DRIVE) (0xE0 OR (if a_is_master d then 0 else 0x10) OR (ucast (drop_bit 24 lba) AND 0x0F)) s;
          s = outb (base + ATA_REG_SECTORS) 1 s;
          s = outb (base + ATA_REG_LBA_LOW) (ucast (lba AND 0xFF)) s;
          s = outb (base + ATA_REG_LBA_MID) (ucast (drop_bit 8 lba AND 0xFF)) s;
          s = outb (base + ATA_REG_LBA_HIGH) (ucast (drop_bit 16 lba AND 0xFF)) s
      in s)"

definition word_bytes :: "u16 \<Rightarrow> u8 list" where
  "word_bytes w = [ucast w, ucast (drop_bit 8 w)]"

text \<open>Reading a sector: \<open>None\<close> is the result -1, \<open>Some\<close> the bytes left in the buffer.\<close>

definition ata_read_sector :: "int \<Rightarrow> u32 \<Rightarrow> 'z ata_state_scheme \<Rightarrow> (u8 list option \<times> 'z ata_state_scheme) res" where
  "ata_read_sector dev lba s =
     (if dev < 0 \<or> dev \<ge> device_count s then Inr (None, s)
      else
        bindR (array_get (ata_devices s) (nat dev)) (\<lambda>d.
        let base = a_base d;
            (r, s) = ata_wait_bsy base s
        in Inr (if r < 0 then (None, s)
           else
             let s = select_sector d lba s;
                 s = outb (base + ATA_REG_COMMAND) ATA_CMD_READ s;
                 (r, s) = ata_wait_drq base s
             in if r < 0 then (None, s)
                else let (ws, s) = read_words 256 (base + ATA_REG_DATA) s
                     in (Some (concat (map word_bytes ws)), s))))"

text \<open>\<open>words\<close> are the 256 words of the buffer.\<close>

definition ata_write_sector :: "int \<Rightarrow> u32 \<Rightarrow> u16 list \<Rightarrow> 'z ata_state_scheme \<Rightarrow> (int \<times> 'z ata_state_scheme) res" where
  "ata_write_sector dev lba words s =
     (if dev < 0 \<or> dev \<ge> device_count s then Inr (-1, s)
      else
        bindR (array_get (ata_devices s) (nat dev)) (\<lambda>d.
        let base = a_base d;
            (r, s) = ata_wait_bsy base s
        in Inr (if r < 0 then (-1, s)
           else
             let s = select_sector d lba s;
                 s = outb (base + ATA_REG_COMMAND) ATA_CMD_READ s;
                 s = outb (base + ATA_REG_COMMAND) 0x30 s;
                 (r, s) = ata_wait_drq base s
             in if r < 0 then (-1, s)
                else
                  let s = write_words (base + ATA_REG_DATA) words s;
                      (r, s) = ata_wait_bsy base s;
                      s = outb (base + ATA_REG_COMMAND) ATA_CMD_FLUSH s
                  in (0, s))))"

end
