(* ===== verification/Vfs.thy ===== *)
theory Vfs
  imports Ata
begin

text \<open>
  The nodes and mounts of the virtual file system (\<open>src/src/fs/vfs.hpp\<close>, \<open>vfs.cpp\<close>). A node is
  the first member of an object of a file system, so an address of a node is the
  address of its object; the objects are in a store of their own, and casting a node to
  the object of another file system is the fault \<open>Out_of_bounds\<close>. A function pointer of a
  node is a value that names the function. C strings are HOL strings without
  the character 0; \<open>None\<close> is the null pointer where the code tests for it. Path
  resolution, which calls through the pointers, is in theory \<open>Vfs_Resolve\<close>.
\<close>

definition FS_FILE :: u32 where "FS_FILE = 1"
definition FS_DIR :: u32 where "FS_DIR = 2"

datatype destroy_fn = Ramfs_destroy | Fat32_node_destroy
datatype read_fn = Ramfs_read | Fat32_read
datatype write_fn = Ramfs_write
datatype readdir_fn = Ramfs_readdir | Fat32_readdir
datatype finddir_fn = Ramfs_finddir | Fat32_finddir

record vfs_node =
  n_name :: string
  n_flags :: u32
  n_size :: u32
  n_inode :: u32
  n_impl :: u32
  n_parent :: u32
  n_destroy :: "destroy_fn option"
  n_read :: "read_fn option"
  n_write :: "write_fn option"
  n_readdir :: "readdir_fn option"
  n_finddir :: "finddir_fn option"

definition zero_node :: vfs_node where
  "zero_node = \<lparr>n_name = [], n_flags = 0, n_size = 0, n_inode = 0, n_impl = 0, n_parent = nullptr,
     n_destroy = None, n_read = None, n_write = None, n_readdir = None, n_finddir = None\<rparr>"

record ramfs_node =
  r_vnode :: vfs_node
  next_sibling :: u32
  first_child :: u32
  r_parent :: u32
  r_data :: "u8 list"

record fat32_fs =
  f_ata_dev :: int
  partition_start :: u32
  bytes_per_sector :: u32
  sectors_per_cluster :: u32
  reserved_sectors :: u32
  fat_count :: u32
  sectors_per_fat :: u32
  root_cluster :: u32
  data_start :: u32

record fat32_node =
  f_vnode :: vfs_node
  f_fs :: u32
  first_cluster :: u32
  is_dir :: bool

datatype fs_object = Ramfs_obj ramfs_node | Fat32_obj fat32_node | Fat32_fs_obj fat32_fs

record mount_entry =
  m_path :: string
  m_root :: u32
  m_used :: bool

record fs_state = ata_state +
  objects :: "u32 \<Rightarrow> fs_object option"
  node_pool :: "u32 list"
  pool_count :: int
  root_node :: u32
  mounts :: "mount_entry list"
  mount_count :: int

text \<open>Following a \<open>vfs_node*\<close>, and copying a string into an array of \<open>n\<close> characters.\<close>

definition get_node :: "u32 \<Rightarrow> 'z fs_state_scheme \<Rightarrow> vfs_node res" where
  "get_node a s =
     (case objects s a of
        Some (Ramfs_obj r) \<Rightarrow> Inr (r_vnode r)
      | Some (Fat32_obj f) \<Rightarrow> Inr (f_vnode f)
      | _ \<Rightarrow> Inl Out_of_bounds)"

definition strcpy_to :: "nat \<Rightarrow> string \<Rightarrow> string res" where
  "strcpy_to n str = (if length str < n then Inr str else Inl Out_of_bounds)"

section \<open>Mounts\<close>

definition MAX_MOUNTS :: nat where "MAX_MOUNTS = 16"

definition vfs_init :: "'z fs_state_scheme \<Rightarrow> 'z fs_state_scheme" where
  "vfs_init s = s\<lparr>mounts := map (\<lambda>m. m\<lparr>m_used := False\<rparr>) (mounts s), mount_count := 0\<rparr>"

text \<open>The loop of \<open>vfs_mount\<close> over the slots in \<open>is\<close>.\<close>

fun mount_at :: "nat list \<Rightarrow> string \<Rightarrow> u32 \<Rightarrow> 'z fs_state_scheme \<Rightarrow> (int \<times> 'z fs_state_scheme) res" where
  "mount_at [] path root s = Inr (-1, s)"
| "mount_at (i # is) path root s =
     bindR (array_get (mounts s) i) (\<lambda>m.
     if \<not> m_used m
     then bindR (strcpy_to 256 path) (\<lambda>path.
          Inr (0, s\<lparr>mounts := (mounts s)[i := \<lparr>m_path = path, m_root = root, m_used = True\<rparr>],
                   mount_count := mount_count s + 1\<rparr>))
     else mount_at is path root s)"

definition vfs_mount :: "string option \<Rightarrow> u32 \<Rightarrow> 'z fs_state_scheme \<Rightarrow> (int \<times> 'z fs_state_scheme) res" where
  "vfs_mount path root s =
     (case path of
        None \<Rightarrow> Inr (-1, s)
      | Some path \<Rightarrow> if root = nullptr then Inr (-1, s) else mount_at [0..<MAX_MOUNTS] path root s)"

definition vfs_get_root :: "'z fs_state_scheme \<Rightarrow> u32" where
  "vfs_get_root s =
     (case find (\<lambda>m. m_used m \<and> m_path m = ''/'') (mounts s) of None \<Rightarrow> nullptr | Some m \<Rightarrow> m_root m)"

text \<open>\<open>str[i]\<close> for \<open>i\<close> up to the terminator, and the length of the common start of two strings.\<close>

definition char_at :: "string \<Rightarrow> nat \<Rightarrow> char" where
  "char_at str i = (if i < length str then str ! i else CHR 0x00)"

fun common_len :: "string \<Rightarrow> string \<Rightarrow> nat" where
  "common_len (a # as) (b # bs) = (if a = b then Suc (common_len as bs) else 0)"
| "common_len _ _ = 0"

text \<open>The loop of \<open>find_mount_root\<close> with \<open>best_len\<close> and \<open>best_root\<close>.\<close>

fun best_mount :: "mount_entry list \<Rightarrow> string \<Rightarrow> int \<Rightarrow> u32 \<Rightarrow> int \<times> u32" where
  "best_mount [] path best_len best_root = (best_len, best_root)"
| "best_mount (m # ms) path best_len best_root =
     (if \<not> m_used m then best_mount ms path best_len best_root
      else
        let len = common_len (m_path m) path
        in if char_at (m_path m) len = CHR 0x00
              \<and> (char_at path len = CHR ''/'' \<or> char_at path len = CHR 0x00)
              \<and> int len > best_len
           then best_mount ms path (int len) (m_root m)
           else best_mount ms path best_len best_root)"

text \<open>The result is the root and the rest of the path.\<close>

definition find_mount_root :: "string \<Rightarrow> 'z fs_state_scheme \<Rightarrow> u32 \<times> string" where
  "find_mount_root path s =
     (let (best_len, best_root) = best_mount (mounts s) path (-1) nullptr
      in (best_root, if best_root \<noteq> nullptr then drop (nat best_len) path else path))"

end
