(* ===== verification/Ramfs.thy ===== *)
theory Ramfs
  imports Vfs
begin

text \<open>
  The file system in memory, \<open>src/src/fs/ramfs.cpp\<close>: nodes with up to 256 bytes of data, linked
  to their first child and next sibling. The functions that first resolve a path are in
  theory \<open>Vfs_Resolve\<close>.
\<close>

definition MAX_DATA :: u32 where "MAX_DATA = 256"

text \<open>A node at \<open>n\<close> just after \<open>kmalloc\<close>. No function sets up the data, so it is what the memory holds
  there, the zeros of \<open>kmalloc\<close>. The other fields are all assigned before they are read.\<close>

definition raw_node :: "u32 \<Rightarrow> memory \<Rightarrow> ramfs_node" where
  "raw_node n m = \<lparr>r_vnode = zero_node, next_sibling = nullptr, first_child = nullptr, r_parent = nullptr,
     r_data = map (\<lambda>i. m (n + 180 + of_nat i)) [0..<256]\<rparr>"

definition get_ramfs :: "u32 \<Rightarrow> 'z fs_state_scheme \<Rightarrow> ramfs_node res" where
  "get_ramfs a s = (case objects s a of Some (Ramfs_obj r) \<Rightarrow> Inr r | _ \<Rightarrow> Inl Out_of_bounds)"

definition set_ramfs :: "u32 \<Rightarrow> (ramfs_node \<Rightarrow> ramfs_node) \<Rightarrow> 'z fs_state_scheme \<Rightarrow> 'z fs_state_scheme res" where
  "set_ramfs a f s = bindR (get_ramfs a s) (\<lambda>r. Inr (s\<lparr>objects := (objects s)(a \<mapsto> Ramfs_obj (f r))\<rparr>))"

definition alloc_node :: "'z fs_state_scheme \<Rightarrow> (u32 \<times> 'z fs_state_scheme) res" where
  "alloc_node s =
     (if pool_count s \<ge> 128 then Inr (nullptr, s)
      else
        bindR (kmalloc 436 s) (\<lambda>(n, s).
        if n = nullptr then Inr (nullptr, s)
        else bindR (array_set (node_pool s) (nat (pool_count s)) n) (\<lambda>pool.
             Inr (n, s\<lparr>objects := (objects s)(n \<mapsto> Ramfs_obj (raw_node n (mem s))),
                       node_pool := pool, pool_count := pool_count s + 1\<rparr>))))"

text \<open>The copying loops: \<open>n\<close> bytes of \<open>data\<close> from \<open>offset\<close> on, and the bytes of \<open>buf\<close> from \<open>i\<close> on.\<close>

primrec read_data :: "nat \<Rightarrow> u8 list \<Rightarrow> u32 \<Rightarrow> u8 list res" where
  "read_data 0 data offset = Inr []"
| "read_data (Suc n) data offset =
     bindR (array_get data (unat offset)) (\<lambda>b. bindR (read_data n data (offset + 1)) (\<lambda>bs. Inr (b # bs)))"

primrec write_data :: "nat \<Rightarrow> u8 list \<Rightarrow> nat \<Rightarrow> u32 \<Rightarrow> u8 list \<Rightarrow> u8 list res" where
  "write_data 0 buf i offset data = Inr data"
| "write_data (Suc n) buf i offset data =
     bindR (array_get buf i) (\<lambda>b.
     bindR (array_set data (unat (offset + of_nat i)) b) (\<lambda>data.
     write_data n buf (Suc i) offset data))"

text \<open>Reading: \<open>None\<close> is the result -1, \<open>Some\<close> the bytes left in the buffer, whose number is the
  result.\<close>

definition ramfs_read :: "u32 \<Rightarrow> u32 \<Rightarrow> u32 \<Rightarrow> 'z fs_state_scheme \<Rightarrow> u8 list option res" where
  "ramfs_read node offset sz s =
     (if node = nullptr then Inr None
      else bindR (get_node node s) (\<lambda>v.
        if n_flags v AND FS_FILE = 0 then Inr None
        else bindR (get_ramfs node s) (\<lambda>rn.
          if offset \<ge> n_size v then Inr (Some [])
          else
            let remain = n_size v - offset;
                sz = (if sz > remain then remain else sz)
            in bindR (read_data (unat sz) (r_data rn) offset) (\<lambda>bs. Inr (Some bs)))))"

definition ramfs_write :: "u32 \<Rightarrow> u32 \<Rightarrow> u32 \<Rightarrow> u8 list \<Rightarrow> 'z fs_state_scheme \<Rightarrow> (int \<times> 'z fs_state_scheme) res" where
  "ramfs_write node offset sz buf s =
     (if node = nullptr then Inr (-1, s)
      else bindR (get_node node s) (\<lambda>v.
        if n_flags v AND FS_FILE = 0 then Inr (-1, s)
        else bindR (get_ramfs node s) (\<lambda>rn.
          let sz = (if offset + sz > MAX_DATA then MAX_DATA - offset else sz)
          in bindR (write_data (unat sz) buf 0 offset (r_data rn)) (\<lambda>data.
             let v = (if offset + sz > n_size v then v\<lparr>n_size := offset + sz\<rparr> else v)
             in bindR (set_ramfs node (\<lambda>r. r\<lparr>r_vnode := v, r_data := data\<rparr>) s) (\<lambda>s.
                Inr (sint sz, s))))))"

text \<open>The loops over the children: \<open>cur\<close> is the child looked at next.\<close>

partial_function (option) readdir_loop ::
    "u32 \<Rightarrow> u32 \<Rightarrow> u32 \<Rightarrow> vfs_node \<Rightarrow> 'z fs_state_scheme \<Rightarrow> (int \<times> vfs_node) res option" where
  "readdir_loop cur i index child s =
     (if cur = nullptr then Some (Inr (-1, child))
      else case get_ramfs cur s of
          Inl e \<Rightarrow> Some (Inl e)
        | Inr r \<Rightarrow>
            if i = index
            then let v = r_vnode r
                 in Some (Inr (0, child\<lparr>n_name := n_name v, n_flags := n_flags v, n_size := n_size v, n_inode := cur,
                      n_impl := n_impl v, n_read := None, n_write := None, n_readdir := None,
                      n_finddir := None, n_destroy := None\<rparr>))
            else readdir_loop (next_sibling r) (i + 1) index child s)"

definition ramfs_readdir :: "u32 \<Rightarrow> u32 \<Rightarrow> vfs_node \<Rightarrow> 'z fs_state_scheme \<Rightarrow> (int \<times> vfs_node) res" where
  "ramfs_readdir node index child s =
     (if node = nullptr then Inr (-1, child)
      else bindR (get_node node s) (\<lambda>v.
        if n_flags v AND FS_DIR = 0 then Inr (-1, child)
        else bindR (get_ramfs node s) (\<lambda>rn.
             bindR (returns (readdir_loop (first_child rn) 0 index child s)) id)))"

partial_function (option) finddir_loop :: "u32 \<Rightarrow> string \<Rightarrow> 'z fs_state_scheme \<Rightarrow> u32 res option" where
  "finddir_loop cur nm s =
     (if cur = nullptr then Some (Inr nullptr)
      else case get_ramfs cur s of
          Inl e \<Rightarrow> Some (Inl e)
        | Inr r \<Rightarrow> if n_name (r_vnode r) = nm then Some (Inr cur) else finddir_loop (next_sibling r) nm s)"

definition ramfs_finddir :: "u32 \<Rightarrow> string \<Rightarrow> 'z fs_state_scheme \<Rightarrow> u32 res" where
  "ramfs_finddir node nm s =
     (if node = nullptr then Inr nullptr
      else bindR (get_node node s) (\<lambda>v.
        if n_flags v AND FS_DIR = 0 then Inr nullptr
        else bindR (get_ramfs node s) (\<lambda>rn. bindR (returns (finddir_loop (first_child rn) nm s)) id)))"

definition ramfs_create_root :: "'z fs_state_scheme \<Rightarrow> (u32 \<times> 'z fs_state_scheme) res" where
  "ramfs_create_root s =
     bindR (alloc_node s) (\<lambda>(n, s).
     let s = s\<lparr>root_node := n\<rparr>
     in if n = nullptr then Inr (nullptr, s)
        else bindR (set_ramfs n (\<lambda>r. r\<lparr>r_vnode := \<lparr>n_name = ''/'', n_flags = FS_DIR, n_size = 0, n_inode = 0, n_impl = 0,
                      n_parent = n, n_destroy = Some Ramfs_destroy, n_read = None, n_write = None,
                      n_readdir = Some Ramfs_readdir, n_finddir = Some Ramfs_finddir\<rparr>,
                    next_sibling := nullptr, first_child := nullptr, r_parent := n\<rparr>) s) (\<lambda>s.
             Inr (n, s)))"

definition ramfs_create_file :: "u32 \<Rightarrow> string \<Rightarrow> 'z fs_state_scheme \<Rightarrow> (u32 \<times> 'z fs_state_scheme) res" where
  "ramfs_create_file par nm s =
     (if par = nullptr then Inr (nullptr, s)
      else bindR (get_node par s) (\<lambda>v.
        if n_flags v AND FS_DIR = 0 then Inr (nullptr, s)
        else
          bindR (alloc_node s) (\<lambda>(n, s).
          if n = nullptr then Inr (nullptr, s)
          else
            bindR (strcpy_to 128 nm) (\<lambda>nm.
            bindR (get_ramfs par s) (\<lambda>pn.
            bindR (set_ramfs n (\<lambda>r. r\<lparr>r_vnode := \<lparr>n_name = nm, n_flags = FS_FILE, n_size = 0, n_inode = n, n_impl = 0,
                      n_parent = par, n_destroy = Some Ramfs_destroy, n_read = Some Ramfs_read,
                      n_write = Some Ramfs_write, n_readdir = None, n_finddir = None\<rparr>,
                    next_sibling := first_child pn, first_child := nullptr, r_parent := par\<rparr>) s) (\<lambda>s.
            bindR (set_ramfs par (\<lambda>r. r\<lparr>first_child := n\<rparr>) s) (\<lambda>s.
            Inr (n, s))))))))"

definition ramfs_create_dir :: "u32 \<Rightarrow> string \<Rightarrow> 'z fs_state_scheme \<Rightarrow> (u32 \<times> 'z fs_state_scheme) res" where
  "ramfs_create_dir par nm s =
     (if par = nullptr then Inr (nullptr, s)
      else bindR (get_node par s) (\<lambda>v.
        if n_flags v AND FS_DIR = 0 then Inr (nullptr, s)
        else
          bindR (alloc_node s) (\<lambda>(n, s).
          if n = nullptr then Inr (nullptr, s)
          else
            bindR (strcpy_to 128 nm) (\<lambda>nm.
            bindR (get_ramfs par s) (\<lambda>pn.
            bindR (set_ramfs n (\<lambda>r. r\<lparr>r_vnode := \<lparr>n_name = nm, n_flags = FS_DIR, n_size = 0, n_inode = n, n_impl = 0,
                      n_parent = par, n_destroy = Some Ramfs_destroy, n_read = None, n_write = None,
                      n_readdir = Some Ramfs_readdir, n_finddir = Some Ramfs_finddir\<rparr>,
                    next_sibling := first_child pn, first_child := nullptr, r_parent := par\<rparr>) s) (\<lambda>s.
            bindR (set_ramfs par (\<lambda>r. r\<lparr>first_child := n\<rparr>) s) (\<lambda>s.
            Inr (n, s))))))))"

end
