(* ===== verification/Fat32.thy ===== *)
theory Fat32
  imports Vfs
begin

text \<open>
  The FAT32 driver, \<open>src/src/fs/fat32.cpp\<close>, on the disk driver of theory \<open>Ata\<close>. On-disk structures
  are bytes of a sector; the buffer for a cluster is the list of the bytes read into
  it, and an access outside it (also one that the 32-bit index arithmetic sends there)
  is the fault \<open>Out_of_bounds\<close>. A chain of clusters in the allocation table may be
  circular, so the loops along it may not end.
\<close>

section \<open>Structures on disk\<close>

definition get16 :: "u8 list \<Rightarrow> nat \<Rightarrow> u16 res" where
  "get16 b i = bindR (array_get b i) (\<lambda>x. bindR (array_get b (i + 1)) (\<lambda>y. Inr (ucast x OR push_bit 8 (ucast y))))"

definition get32 :: "u8 list \<Rightarrow> nat \<Rightarrow> u32 res" where
  "get32 b i = bindR (get16 b i) (\<lambda>x. bindR (get16 b (i + 2)) (\<lambda>y. Inr (ucast x OR push_bit 16 (ucast y))))"

record fat32_dirent =
  d_name :: "u8 list"
  d_attr :: u8
  d_cluster_high :: u16
  d_cluster_low :: u16
  d_file_size :: u32

definition dirent_at :: "u8 list \<Rightarrow> nat \<Rightarrow> fat32_dirent res" where
  "dirent_at b off =
     (if off + 32 \<le> length b
      then bindR (get16 b (off + 20)) (\<lambda>ch.
           bindR (get16 b (off + 26)) (\<lambda>cl.
           bindR (get32 b (off + 28)) (\<lambda>sz.
           Inr \<lparr>d_name = take 11 (drop off b), d_attr = b ! (off + 11), d_cluster_high = ch,
                d_cluster_low = cl, d_file_size = sz\<rparr>)))
      else Inl Out_of_bounds)"

definition ATTR_DIRECTORY :: u8 where "ATTR_DIRECTORY = 0x10"
definition ATTR_LFN :: u8 where "ATTR_LFN = 0x0F"
definition FAT32_EOC :: u32 where "FAT32_EOC = 0x0FFFFFF8"
definition ATA_SECTOR_SIZE :: u32 where "ATA_SECTOR_SIZE = 512"

section \<open>Sectors and clusters\<close>

definition fat32_read_sector :: "fat32_fs \<Rightarrow> u32 \<Rightarrow> 'z ata_state_scheme \<Rightarrow> (u8 list option \<times> 'z ata_state_scheme) res" where
  "fat32_read_sector fs lba s = ata_read_sector (f_ata_dev fs) (partition_start fs + lba) s"

definition fat32_next_cluster :: "fat32_fs \<Rightarrow> u32 \<Rightarrow> 'z ata_state_scheme \<Rightarrow> (u32 \<times> 'z ata_state_scheme) res" where
  "fat32_next_cluster fs cluster s =
     (let fat_offset = cluster * 4
      in if bytes_per_sector fs = 0 then Inl Divide_error
         else
           let fat_sector = reserved_sectors fs + fat_offset div bytes_per_sector fs;
               fat_byte = fat_offset mod bytes_per_sector fs
           in bindR (fat32_read_sector fs fat_sector s) (\<lambda>(r, s).
              case r of
                None \<Rightarrow> Inr (FAT32_EOC, s)
              | Some buf \<Rightarrow> bindR (get32 buf (unat fat_byte)) (\<lambda>nxt. Inr (nxt AND 0x0FFFFFFF, s))))"

definition fat32_cluster_to_lba :: "fat32_fs \<Rightarrow> u32 \<Rightarrow> u32 \<times> u32" where
  "fat32_cluster_to_lba fs cluster =
     (let rel = (cluster - 2) * sectors_per_cluster fs in (data_start fs + rel, sectors_per_cluster fs))"

text \<open>The loop of \<open>fat32_read_cluster\<close>: \<open>n\<close> sectors are left, \<open>i\<close> are done, \<open>acc\<close> are the bytes in the
  buffer, which has room for eight sectors.\<close>

primrec read_sectors ::
    "nat \<Rightarrow> fat32_fs \<Rightarrow> u32 \<Rightarrow> nat \<Rightarrow> u8 list \<Rightarrow> 'z ata_state_scheme \<Rightarrow> (u8 list option \<times> 'z ata_state_scheme) res" where
  "read_sectors 0 fs sector i acc s = Inr (Some acc, s)"
| "read_sectors (Suc n) fs sector i acc s =
     bindR (fat32_read_sector fs (sector + of_nat i) s) (\<lambda>(r, s).
     case r of
       None \<Rightarrow> Inr (None, s)
     | Some b \<Rightarrow> if i \<ge> 8 then Inl Out_of_bounds else read_sectors n fs sector (Suc i) (acc @ b) s)"

definition fat32_read_cluster :: "fat32_fs \<Rightarrow> u32 \<Rightarrow> 'z ata_state_scheme \<Rightarrow> (u8 list option \<times> 'z ata_state_scheme) res" where
  "fat32_read_cluster fs cluster s =
     (let (sector, count) = fat32_cluster_to_lba fs cluster in read_sectors (unat count) fs sector 0 [] s)"

section \<open>Nodes\<close>

definition get_fat32 :: "u32 \<Rightarrow> 'z fs_state_scheme \<Rightarrow> fat32_node res" where
  "get_fat32 a s = (case objects s a of Some (Fat32_obj f) \<Rightarrow> Inr f | _ \<Rightarrow> Inl Out_of_bounds)"

definition get_fs :: "u32 \<Rightarrow> 'z fs_state_scheme \<Rightarrow> fat32_fs res" where
  "get_fs a s = (case objects s a of Some (Fat32_fs_obj f) \<Rightarrow> Inr f | _ \<Rightarrow> Inl Out_of_bounds)"

definition fat32_node_destroy :: "u32 \<Rightarrow> 'z fs_state_scheme \<Rightarrow> 'z fs_state_scheme res" where
  "fat32_node_destroy node s =
     (if node \<noteq> nullptr
      then bindR (kfree node s) (\<lambda>s. Inr (s\<lparr>objects := (objects s)(node := None)\<rparr>))
      else Inr s)"

text \<open>Copying \<open>n\<close> bytes of a buffer from a 32-bit index on.\<close>

primrec copy_bytes :: "nat \<Rightarrow> u8 list \<Rightarrow> u32 \<Rightarrow> u8 list res" where
  "copy_bytes 0 b off = Inr []"
| "copy_bytes (Suc n) b off =
     bindR (array_get b (unat off)) (\<lambda>x. bindR (copy_bytes n b (off + 1)) (\<lambda>xs. Inr (x # xs)))"

text \<open>The loop of \<open>fat32_read\<close>; \<open>out\<close> are the bytes read so far.\<close>

partial_function (option) fat32_read_loop ::
    "fat32_fs \<Rightarrow> u32 \<Rightarrow> u32 \<Rightarrow> u32 \<Rightarrow> u8 list \<Rightarrow> 'z ata_state_scheme \<Rightarrow> (u8 list \<times> 'z ata_state_scheme) res option" where
  "fat32_read_loop fs cluster offset sz out s =
     (if cluster < FAT32_EOC \<and> of_nat (length out) < sz
      then
        let bytes_per_cluster = sectors_per_cluster fs * ATA_SECTOR_SIZE;
            cluster_start = (cluster - 2) * bytes_per_cluster
        in if offset < cluster_start + bytes_per_cluster
           then
             let cluster_off = offset - cluster_start;
                 to_read = bytes_per_cluster - cluster_off;
                 left = sz - of_nat (length out);
                 to_read = (if to_read > left then left else to_read)
             in case fat32_read_cluster fs cluster s of
                  Inl e \<Rightarrow> Some (Inl e)
                | Inr (None, s) \<Rightarrow> Some (Inr (out, s))
                | Inr (Some buf, s) \<Rightarrow>
                    (case bindR (copy_bytes (unat to_read) buf cluster_off) (\<lambda>bs.
                          bindR (fat32_next_cluster fs cluster s) (\<lambda>(nxt, s). Inr (bs, nxt, s))) of
                       Inl e \<Rightarrow> Some (Inl e)
                     | Inr (bs, nxt, s) \<Rightarrow> fat32_read_loop fs nxt (offset + to_read) sz (out @ bs) s)
           else (case fat32_next_cluster fs cluster s of
                   Inl e \<Rightarrow> Some (Inl e)
                 | Inr (nxt, s) \<Rightarrow> fat32_read_loop fs nxt offset sz out s)
      else Some (Inr (out, s)))"

definition fat32_read :: "u32 \<Rightarrow> u32 \<Rightarrow> u32 \<Rightarrow> 'z fs_state_scheme \<Rightarrow> (u8 list option \<times> 'z fs_state_scheme) res" where
  "fat32_read node offset sz s =
     bindR (get_fat32 node s) (\<lambda>fn.
     if is_dir fn then Inr (None, s)
     else if offset \<ge> n_size (f_vnode fn) then Inr (Some [], s)
     else
       let sz = (if offset + sz > n_size (f_vnode fn) then n_size (f_vnode fn) - offset else sz)
       in bindR (get_fs (f_fs fn) s) (\<lambda>fs.
          bindR (bindR (returns (fat32_read_loop fs (first_cluster fn) offset sz [] s)) id) (\<lambda>(out, s).
          Inr (Some out, s))))"

text \<open>Writing is refused; no node points to this function.\<close>

definition fat32_write :: "u32 \<Rightarrow> u32 \<Rightarrow> u32 \<Rightarrow> u8 list \<Rightarrow> 'z fs_state_scheme \<Rightarrow> int \<times> 'z fs_state_scheme" where
  "fat32_write node offset sz buf s = (-1, s)"

section \<open>Directories\<close>

text \<open>The name an entry shows: \<open>entry_name\<close>, up to its first character 0.\<close>

definition entry_name :: "fat32_dirent \<Rightarrow> string" where
  "entry_name e =
     (let chars = map (\<lambda>b. char_of (unat b)) (d_name e);
          stem = takeWhile (\<lambda>c. c \<noteq> CHR '' '') (take 8 chars);
          ext = (if d_attr e AND ATTR_DIRECTORY = 0 \<and> chars ! 8 \<noteq> CHR '' ''
                 then CHR ''.'' # takeWhile (\<lambda>c. c \<noteq> CHR '' '') (drop 8 chars) else [])
      in takeWhile (\<lambda>c. c \<noteq> CHR 0x00) (stem @ ext))"

text \<open>The offsets the inner loops visit.\<close>

definition entry_offsets :: "u32 \<Rightarrow> nat list" where
  "entry_offsets bytes_per_cluster = map (\<lambda>k. 32 * k) [0..<unat bytes_per_cluster div 32]"

text \<open>The inner loop of \<open>fat32_finddir\<close>: the first entry with the name.\<close>

fun find_entry :: "u8 list \<Rightarrow> nat list \<Rightarrow> string \<Rightarrow> (nat \<times> fat32_dirent) option res" where
  "find_entry buf [] nm = Inr None"
| "find_entry buf (off # offs) nm =
     bindR (dirent_at buf off) (\<lambda>e.
     if d_name e ! 0 = 0 then Inr None
     else if d_name e ! 0 = 0xE5 \<or> d_attr e = ATTR_LFN \<or> entry_name e \<noteq> nm then find_entry buf offs nm
     else Inr (Some (off, e)))"

definition child_cluster :: "fat32_dirent \<Rightarrow> u32" where
  "child_cluster e = push_bit 16 (ucast (d_cluster_high e)) OR ucast (d_cluster_low e)"

text \<open>The node made for an entry that was found.\<close>

definition make_child :: "u32 \<Rightarrow> fat32_node \<Rightarrow> nat \<Rightarrow> fat32_dirent \<Rightarrow> 'z fs_state_scheme \<Rightarrow> (u32 \<times> 'z fs_state_scheme) res" where
  "make_child node fn off e s =
     bindR (kmalloc 180 s) (\<lambda>(child, s).
     if child = nullptr then Inr (nullptr, s)
     else
       let dir = (d_attr e AND ATTR_DIRECTORY \<noteq> 0)
       in Inr (child, s\<lparr>objects := (objects s)(child \<mapsto> Fat32_obj
            \<lparr>f_vnode = \<lparr>n_name = entry_name e, n_flags = (if dir then FS_DIR else FS_FILE), n_size = d_file_size e,
               n_inode = of_nat off, n_impl = 0, n_parent = node, n_destroy = Some Fat32_node_destroy,
               n_read = (if dir then None else Some Fat32_read), n_write = None,
               n_readdir = (if dir then Some Fat32_readdir else None),
               n_finddir = (if dir then Some Fat32_finddir else None)\<rparr>,
             f_fs = f_fs fn, first_cluster = child_cluster e, is_dir = dir\<rparr>)\<rparr>))"

partial_function (option) fat32_find_loop ::
    "fat32_fs \<Rightarrow> u32 \<Rightarrow> string \<Rightarrow> 'z ata_state_scheme \<Rightarrow> ((nat \<times> fat32_dirent) option \<times> 'z ata_state_scheme) res option" where
  "fat32_find_loop fs cluster nm s =
     (if cluster < FAT32_EOC
      then case fat32_read_cluster fs cluster s of
             Inl e \<Rightarrow> Some (Inl e)
           | Inr (None, s) \<Rightarrow> Some (Inr (None, s))
           | Inr (Some buf, s) \<Rightarrow>
               (case find_entry buf (entry_offsets (sectors_per_cluster fs * ATA_SECTOR_SIZE)) nm of
                  Inl e \<Rightarrow> Some (Inl e)
                | Inr (Some found) \<Rightarrow> Some (Inr (Some found, s))
                | Inr None \<Rightarrow>
                    (case fat32_next_cluster fs cluster s of
                       Inl e \<Rightarrow> Some (Inl e)
                     | Inr (nxt, s) \<Rightarrow> fat32_find_loop fs nxt nm s))
      else Some (Inr (None, s)))"

definition fat32_finddir :: "u32 \<Rightarrow> string \<Rightarrow> 'z fs_state_scheme \<Rightarrow> (u32 \<times> 'z fs_state_scheme) res" where
  "fat32_finddir node nm s =
     bindR (get_fat32 node s) (\<lambda>fn.
     if \<not> is_dir fn then Inr (nullptr, s)
     else
       bindR (get_fs (f_fs fn) s) (\<lambda>fs.
       bindR (bindR (returns (fat32_find_loop fs (first_cluster fn) nm s)) id) (\<lambda>(found, s).
       case found of
         None \<Rightarrow> Inr (nullptr, s)
       | Some (off, e) \<Rightarrow> make_child node fn off e s)))"

text \<open>The inner loop of \<open>fat32_readdir\<close>: the entry with number \<open>index\<close>, or the number of entries
  counted so far.\<close>

fun nth_entry :: "u8 list \<Rightarrow> nat list \<Rightarrow> u32 \<Rightarrow> u32 \<Rightarrow> (u32 + nat \<times> fat32_dirent) res" where
  "nth_entry buf [] index count = Inr (Inl count)"
| "nth_entry buf (off # offs) index count =
     bindR (dirent_at buf off) (\<lambda>e.
     if d_name e ! 0 = 0 then Inr (Inl count)
     else if d_name e ! 0 = 0xE5 \<or> d_attr e = ATTR_LFN then nth_entry buf offs index count
     else if count = index then Inr (Inr (off, e))
     else nth_entry buf offs index (count + 1))"

partial_function (option) fat32_readdir_loop ::
    "fat32_fs \<Rightarrow> u32 \<Rightarrow> u32 \<Rightarrow> u32 \<Rightarrow> 'z ata_state_scheme \<Rightarrow> ((nat \<times> fat32_dirent) option \<times> 'z ata_state_scheme) res option" where
  "fat32_readdir_loop fs cluster index count s =
     (if cluster < FAT32_EOC
      then case fat32_read_cluster fs cluster s of
             Inl e \<Rightarrow> Some (Inl e)
           | Inr (None, s) \<Rightarrow> Some (Inr (None, s))
           | Inr (Some buf, s) \<Rightarrow>
               (case nth_entry buf (entry_offsets (sectors_per_cluster fs * ATA_SECTOR_SIZE)) index count of
                  Inl e \<Rightarrow> Some (Inl e)
                | Inr (Inr found) \<Rightarrow> Some (Inr (Some found, s))
                | Inr (Inl count) \<Rightarrow>
                    (case fat32_next_cluster fs cluster s of
                       Inl e \<Rightarrow> Some (Inl e)
                     | Inr (nxt, s) \<Rightarrow> fat32_readdir_loop fs nxt index count s))
      else Some (Inr (None, s)))"

definition fat32_readdir :: "u32 \<Rightarrow> u32 \<Rightarrow> vfs_node \<Rightarrow> 'z fs_state_scheme \<Rightarrow> (int \<times> vfs_node \<times> 'z fs_state_scheme) res" where
  "fat32_readdir node index child s =
     bindR (get_fat32 node s) (\<lambda>fn.
     if \<not> is_dir fn then Inr (-1, child, s)
     else
       bindR (get_fs (f_fs fn) s) (\<lambda>fs.
       bindR (bindR (returns (fat32_readdir_loop fs (first_cluster fn) index 0 s)) id) (\<lambda>(found, s).
       Inr (case found of
              None \<Rightarrow> (-1, child, s)
            | Some (off, e) \<Rightarrow>
                (0, child\<lparr>n_name := entry_name e,
                   n_flags := (if d_attr e AND ATTR_DIRECTORY \<noteq> 0 then FS_DIR else FS_FILE),
                   n_size := d_file_size e, n_inode := of_nat off, n_impl := 0, n_read := None,
                   n_write := None, n_readdir := None, n_finddir := None, n_destroy := None\<rparr>, s)))))"

section \<open>Mounting\<close>

definition fat32_get_root_node :: "u32 \<Rightarrow> 'z fs_state_scheme \<Rightarrow> (u32 \<times> 'z fs_state_scheme) res" where
  "fat32_get_root_node fsa s =
     bindR (kmalloc 180 s) (\<lambda>(root, s).
     if root = nullptr then Inr (nullptr, s)
     else bindR (get_fs fsa s) (\<lambda>fs.
       Inr (root, s\<lparr>objects := (objects s)(root \<mapsto> Fat32_obj
            \<lparr>f_vnode = zero_node\<lparr>n_name := ''/'', n_flags := FS_DIR, n_destroy := Some Fat32_node_destroy,
               n_readdir := Some Fat32_readdir, n_finddir := Some Fat32_finddir\<rparr>,
             f_fs = fsa, first_cluster = root_cluster fs, is_dir = True\<rparr>)\<rparr>)))"

text \<open>What \<open>fat32_mount\<close> reads from the boot sector of the partition.\<close>

definition fs_of_bpb :: "int \<Rightarrow> u32 \<Rightarrow> u8 list \<Rightarrow> fat32_fs res" where
  "fs_of_bpb dev start bpb =
     bindR (get16 bpb 11) (\<lambda>bps.
     bindR (array_get bpb 13) (\<lambda>spc.
     bindR (get16 bpb 14) (\<lambda>res.
     bindR (array_get bpb 16) (\<lambda>fats.
     bindR (get32 bpb 36) (\<lambda>spf.
     bindR (get32 bpb 44) (\<lambda>root.
     Inr \<lparr>f_ata_dev = dev, partition_start = start, bytes_per_sector = ucast bps, sectors_per_cluster = ucast spc,
          reserved_sectors = ucast res, fat_count = ucast fats, sectors_per_fat = spf, root_cluster = root,
          data_start = ucast res + ucast fats * spf\<rparr>))))))"

definition fat32_mount :: "int \<Rightarrow> int \<Rightarrow> 'z fs_state_scheme \<Rightarrow> (u32 \<times> 'z fs_state_scheme) res" where
  "fat32_mount ata_dev part_no s =
     (if ata_dev < 0 \<or> ata_dev \<ge> ata_device_count s then Inr (nullptr, s)
      else
        bindR (ata_read_sector ata_dev 0 s) (\<lambda>(r, s).
        case r of None \<Rightarrow> Inr (nullptr, s) | Some mbr \<Rightarrow>
          bindR (get16 mbr 510) (\<lambda>signature.
          if signature \<noteq> 0xAA55 then Inr (nullptr, s)
          else if part_no < 0 \<or> part_no \<ge> 4 then Inr (nullptr, s)
          else
            let part = 446 + 16 * nat part_no
            in bindR (array_get mbr (part + 4)) (\<lambda>type.
               if type \<noteq> 0x0B \<and> type \<noteq> 0x0C then Inr (nullptr, s)
               else
                 bindR (get32 mbr (part + 8)) (\<lambda>lba_start.
                 bindR (kmalloc 36 s) (\<lambda>(fs, s).
                 if fs = nullptr then Inr (nullptr, s)
                 else
                   bindR (ata_read_sector ata_dev lba_start s) (\<lambda>(r, s).
                   case r of
                     None \<Rightarrow> bindR (kfree fs s) (\<lambda>s. Inr (nullptr, s))
                   | Some bpb \<Rightarrow>
                       bindR (fs_of_bpb ata_dev lba_start bpb) (\<lambda>f.
                       fat32_get_root_node fs (s\<lparr>objects := (objects s)(fs \<mapsto> Fat32_fs_obj f)\<rparr>)))))))))"

end
