(* ===== verification/Vfs_Resolve.thy ===== *)
theory Vfs_Resolve
  imports Ramfs Fat32
begin

text \<open>
  Calls through the function pointers of a node, path resolution (\<open>src/src/fs/vfs.cpp\<close>), and the
  two functions of \<open>src/src/fs/ramfs.cpp\<close> that resolve a path.
\<close>

section \<open>Calls through the node\<close>

definition call_finddir :: "finddir_fn \<Rightarrow> u32 \<Rightarrow> string \<Rightarrow> 'z fs_state_scheme \<Rightarrow> (u32 \<times> 'z fs_state_scheme) res" where
  "call_finddir f node nm s =
     (case f of
        Ramfs_finddir \<Rightarrow> bindR (ramfs_finddir node nm s) (\<lambda>r. Inr (r, s))
      | Fat32_finddir \<Rightarrow> fat32_finddir node nm s)"

definition call_readdir :: "readdir_fn \<Rightarrow> u32 \<Rightarrow> u32 \<Rightarrow> vfs_node \<Rightarrow> 'z fs_state_scheme \<Rightarrow> (int \<times> vfs_node \<times> 'z fs_state_scheme) res" where
  "call_readdir f node index child s =
     (case f of
        Ramfs_readdir \<Rightarrow> bindR (ramfs_readdir node index child s) (\<lambda>(r, child). Inr (r, child, s))
      | Fat32_readdir \<Rightarrow> fat32_readdir node index child s)"

definition call_read :: "read_fn \<Rightarrow> u32 \<Rightarrow> u32 \<Rightarrow> u32 \<Rightarrow> 'z fs_state_scheme \<Rightarrow> (u8 list option \<times> 'z fs_state_scheme) res" where
  "call_read f node offset sz s =
     (case f of
        Ramfs_read \<Rightarrow> bindR (ramfs_read node offset sz s) (\<lambda>r. Inr (r, s))
      | Fat32_read \<Rightarrow> fat32_read node offset sz s)"

definition call_write :: "write_fn \<Rightarrow> u32 \<Rightarrow> u32 \<Rightarrow> u32 \<Rightarrow> u8 list \<Rightarrow> 'z fs_state_scheme \<Rightarrow> (int \<times> 'z fs_state_scheme) res" where
  "call_write f node offset sz buf s = (case f of Ramfs_write \<Rightarrow> ramfs_write node offset sz buf s)"

text \<open>\<open>ramfs_destroy\<close> does nothing.\<close>

definition vfs_destroy :: "u32 \<Rightarrow> 'z fs_state_scheme \<Rightarrow> 'z fs_state_scheme res" where
  "vfs_destroy node s =
     (if node = nullptr then Inr s
      else bindR (get_node node s) (\<lambda>n.
        case n_destroy n of
          None \<Rightarrow> Inr s
        | Some Ramfs_destroy \<Rightarrow> Inr s
        | Some Fat32_node_destroy \<Rightarrow> fat32_node_destroy node s))"

section \<open>Paths\<close>

text \<open>The next component of a path: what the inner loops copy, at most 127 characters.\<close>

definition component :: "string \<Rightarrow> string" where
  "component path = takeWhile (\<lambda>c. c \<noteq> CHR ''/'') (take 127 path)"

lemma component_nonempty: "path \<noteq> [] \<Longrightarrow> hd path \<noteq> CHR ''/'' \<Longrightarrow> component path \<noteq> []"
  by (cases path) (simp_all add: component_def)

lemma hd_skip: "dropWhile P xs \<noteq> [] \<Longrightarrow> \<not> P (hd (dropWhile P xs))"
  by (rule hd_dropWhile)

lemma bindR_cong [fundef_cong]:
  "m = m' \<Longrightarrow> (\<And>x. m' = Inr x \<Longrightarrow> f x = g x) \<Longrightarrow> bindR m f = bindR m' g"
  by (cases m') auto

lemma walk_decreases:
  assumes "dropWhile (\<lambda>c. c = CHR ''/'') rel \<noteq> []"
  shows "length (dropWhile (\<lambda>c. c = CHR ''/'') rel) - length (component (dropWhile (\<lambda>c. c = CHR ''/'') rel)) < length rel"
proof -
  have "component (dropWhile (\<lambda>c. c = CHR ''/'') rel) \<noteq> []"
    by (rule component_nonempty[OF assms hd_skip[OF assms]])
  moreover have "length (dropWhile (\<lambda>c. c = CHR ''/'') rel) \<le> length rel" by (rule length_dropWhile_le)
  moreover have "length (dropWhile (\<lambda>c. c = CHR ''/'') rel) > 0" using assms by simp
  ultimately show ?thesis by (metis diff_less le_trans length_greater_0_conv less_le_trans linorder_not_less)
qed

text \<open>The loop that both resolution functions have, from the node \<open>current\<close> on.\<close>

function walk_path :: "string \<Rightarrow> u32 \<Rightarrow> 'z fs_state_scheme \<Rightarrow> (u32 \<times> 'z fs_state_scheme) res" where
  "walk_path rel current s =
     (if rel = [] then Inr (current, s)
      else
        let rel = dropWhile (\<lambda>c. c = CHR ''/'') rel
        in if rel = [] then Inr (current, s)
           else
             let comp = component rel;
                 rel = drop (length comp) rel
             in if comp = ''.'' then walk_path rel current s
                else
                  bindR (get_node current s) (\<lambda>n.
                  if comp = ''..''
                  then walk_path rel (if n_parent n \<noteq> nullptr then n_parent n else current) s
                  else
                    case n_finddir n of
                      None \<Rightarrow> Inr (nullptr, s)
                    | Some f \<Rightarrow>
                        bindR (call_finddir f current comp s) (\<lambda>r.
                        if fst r = nullptr then Inr (nullptr, snd r)
                        else walk_path rel (fst r) (snd r))))"
  by pat_completeness auto

termination
  by (relation "measure (\<lambda>(rel, _, _). length rel)") (auto simp: walk_decreases)

declare walk_path.simps [simp del]

definition vfs_resolve :: "string option \<Rightarrow> 'z fs_state_scheme \<Rightarrow> (u32 \<times> 'z fs_state_scheme) res" where
  "vfs_resolve path s =
     (case path of
        None \<Rightarrow> Inr (nullptr, s)
      | Some path \<Rightarrow>
          if path = [] then Inr (nullptr, s)
          else
            let (current, rel) = find_mount_root path s
            in if current = nullptr then Inr (nullptr, s) else walk_path rel current s)"

definition vfs_resolve_relative :: "u32 \<Rightarrow> string option \<Rightarrow> 'z fs_state_scheme \<Rightarrow> (u32 \<times> 'z fs_state_scheme) res" where
  "vfs_resolve_relative base path s =
     (case path of
        None \<Rightarrow> Inr (nullptr, s)
      | Some path \<Rightarrow>
          if base = nullptr then Inr (nullptr, s)
          else if char_at path 0 = CHR ''/'' then vfs_resolve (Some path) s
          else walk_path path base s)"

section \<open>ramfs.cpp, creation by path\<close>

definition ramfs_touch :: "string \<Rightarrow> 'z fs_state_scheme \<Rightarrow> (u32 \<times> 'z fs_state_scheme) res" where
  "ramfs_touch nm s =
     bindR (vfs_resolve (Some ''.'') s) (\<lambda>(cwd, s).
     if cwd = nullptr then Inr (nullptr, s) else ramfs_create_file cwd nm s)"

definition ramfs_mkdir :: "string \<Rightarrow> 'z fs_state_scheme \<Rightarrow> (u32 \<times> 'z fs_state_scheme) res" where
  "ramfs_mkdir nm s =
     bindR (vfs_resolve (Some ''.'') s) (\<lambda>(cwd, s).
     if cwd = nullptr then Inr (nullptr, s) else ramfs_create_dir cwd nm s)"

end
