(* ===== verification/Elf.thy ===== *)
theory Elf
  imports Vfs_Resolve
begin

text \<open>
  The program loader, \<open>src/src/fs/elf.cpp\<close>. It reads the file into a buffer on the heap and copies
  the segments to their addresses. All its accesses to the buffer and to the segments go
  through the page tables in force, so an address that is not mapped is the fault
  \<open>Page_fault\<close>, and what is written to a segment can be seen by a later read of the
  buffer.
\<close>

record elf_info =
  e_entry :: u32
  e_load_addr :: u32
  e_size :: u32

definition ELF_MAGIC :: u32 where "ELF_MAGIC = 0x464C457F"
definition PT_LOAD :: u32 where "PT_LOAD = 1"
definition PF_W :: u32 where "PF_W = 2"

text \<open>Little-endian reads.\<close>

definition load16 :: "'z vmm_state_scheme \<Rightarrow> u32 \<Rightarrow> u16 res" where
  "load16 s a = bindR (load8 s a) (\<lambda>x. bindR (load8 s (a + 1)) (\<lambda>y. Inr (ucast x OR push_bit 8 (ucast y))))"

definition load32 :: "'z vmm_state_scheme \<Rightarrow> u32 \<Rightarrow> u32 res" where
  "load32 s a = bindR (load16 s a) (\<lambda>x. bindR (load16 s (a + 2)) (\<lambda>y. Inr (ucast x OR push_bit 16 (ucast y))))"

text \<open>The fields of \<open>elf32_header\<close> and \<open>elf32_phdr\<close> that the loader reads, by their offsets.\<close>

definition header_ok :: "u32 \<Rightarrow> 'z vmm_state_scheme \<Rightarrow> bool res" where
  "header_ok hdr s =
     bindR (load32 s hdr) (\<lambda>magic. if magic \<noteq> ELF_MAGIC then Inr False
     else bindR (load8 s (hdr + 4)) (\<lambda>cls. if cls \<noteq> 1 then Inr False
     else bindR (load8 s (hdr + 5)) (\<lambda>data. if data \<noteq> 1 then Inr False
     else bindR (load16 s (hdr + 18)) (\<lambda>machine. if machine \<noteq> 3 then Inr False
     else bindR (load16 s (hdr + 16)) (\<lambda>type. Inr (type = 2))))))"

text \<open>The loop that maps the pages of a segment: \<open>n\<close> pages are left, from \<open>page\<close> on; both bounds of
  the loop are multiples of the page size. The result is whether there were enough pages.\<close>

primrec map_pages :: "nat \<Rightarrow> u32 \<Rightarrow> u32 \<Rightarrow> u32 \<Rightarrow> 'z vmm_state_scheme \<Rightarrow> (bool \<times> 'z vmm_state_scheme) res" where
  "map_pages 0 space page ph s = Inr (True, s)"
| "map_pages (Suc n) space page ph s =
     bindR (pmm_alloc_page s) (\<lambda>(phys, s).
     if phys = nullptr then Inr (False, s)
     else
       bindR (load32 s (ph + 24)) (\<lambda>pflags.
       let flags = VMM_PRESENT OR VMM_USER OR (if pflags AND PF_W \<noteq> 0 then VMM_WRITABLE else 0)
       in bindR (vmm_map space page phys flags s) (\<lambda>(_, s).
          map_pages n space (page + 0x1000) ph s)))"

text \<open>The loops that copy and clear a segment: \<open>n\<close> bytes are left and \<open>j\<close> are done.\<close>

primrec copy_segment :: "nat \<Rightarrow> u32 \<Rightarrow> u32 \<Rightarrow> u32 \<Rightarrow> u32 \<Rightarrow> 'z vmm_state_scheme \<Rightarrow> 'z vmm_state_scheme res" where
  "copy_segment 0 j dst file_buf ph s = Inr s"
| "copy_segment (Suc n) j dst file_buf ph s =
     bindR (load32 s (ph + 4)) (\<lambda>offset.
     bindR (load8 s (file_buf + (offset + j))) (\<lambda>b.
     bindR (store8 (dst + j) b s) (\<lambda>s.
     copy_segment n (j + 1) dst file_buf ph s)))"

primrec zero_segment :: "nat \<Rightarrow> u32 \<Rightarrow> u32 \<Rightarrow> 'z vmm_state_scheme \<Rightarrow> 'z vmm_state_scheme res" where
  "zero_segment 0 j dst s = Inr s"
| "zero_segment (Suc n) j dst s = bindR (store8 (dst + j) 0 s) (zero_segment n (j + 1) dst)"

text \<open>One segment; the result is whether there were enough pages, and the updated information.\<close>

definition load_segment :: "u32 \<Rightarrow> u32 \<Rightarrow> u32 \<Rightarrow> elf_info \<Rightarrow> 'z vmm_state_scheme \<Rightarrow> (bool \<times> elf_info \<times> 'z vmm_state_scheme) res" where
  "load_segment file_buf ph space info s =
     bindR (load32 s (ph + 8)) (\<lambda>vaddr.
     bindR (load32 s (ph + 20)) (\<lambda>memsz.
     let start = vaddr AND NOT 0xFFF;
         end = (vaddr + memsz + 0xFFF) AND NOT 0xFFF
     in bindR (map_pages ((unat end - unat start) div 4096) space start ph s) (\<lambda>(ok, s).
        if \<not> ok then Inr (False, info, s)
        else
          bindR (load32 s (ph + 8)) (\<lambda>copy_start.
          bindR (load32 s (ph + 16)) (\<lambda>copy_size.
          bindR (copy_segment (unat copy_size) 0 copy_start file_buf ph s) (\<lambda>s.
          bindR (load32 s (ph + 8)) (\<lambda>vaddr.
          bindR (load32 s (ph + 16)) (\<lambda>filesz.
          bindR (load32 s (ph + 20)) (\<lambda>memsz.
          bindR (zero_segment (unat (memsz - filesz)) 0 (vaddr + filesz) s) (\<lambda>s.
          bindR (load32 s (ph + 8)) (\<lambda>vaddr.
          bindR (load32 s (ph + 20)) (\<lambda>memsz.
          let info = (if vaddr < e_load_addr info then info\<lparr>e_load_addr := vaddr\<rparr> else info);
              info = (if vaddr + memsz > e_size info then info\<lparr>e_size := vaddr + memsz - e_load_addr info\<rparr> else info)
          in Inr (True, info, s)))))))))))))"

text \<open>The loop over the program headers from number \<open>i\<close> on. The counter is a \<open>uint16_t\<close> below
  \<open>phnum\<close>, so it does not wrap.\<close>

function load_segments :: "nat \<Rightarrow> u32 \<Rightarrow> u32 \<Rightarrow> elf_info \<Rightarrow> 'z vmm_state_scheme \<Rightarrow> (bool \<times> elf_info \<times> 'z vmm_state_scheme) res" where
  "load_segments i file_buf space info s =
     bindR (load16 s (file_buf + 44)) (\<lambda>phnum.
     if i \<ge> unat phnum then Inr (True, info, s)
     else
       bindR (load32 s (file_buf + 28)) (\<lambda>phoff.
       bindR (load16 s (file_buf + 42)) (\<lambda>phentsize.
       let ph = file_buf + phoff + of_nat i * ucast phentsize
       in bindR (load32 s ph) (\<lambda>type.
          if type \<noteq> PT_LOAD then load_segments (Suc i) file_buf space info s
          else bindR (load_segment file_buf ph space info s) (\<lambda>r.
               if \<not> fst r then Inr r
               else load_segments (Suc i) file_buf space (fst (snd r)) (snd (snd r)))))))"
  by pat_completeness auto

termination
proof (relation "measure (\<lambda>(i, _). 65536 - i)", goal_cases)
  case 1
  then show ?case by simp
next
  case (2 i file_buf space info s phnum)
  then show ?case using unsigned_less[of phnum, where 'a = nat] by simp
next
  case (3 i file_buf space info s phnum)
  then show ?case using unsigned_less[of phnum, where 'a = nat] by simp
qed

declare load_segments.simps [simp del]

text \<open>The result is that of the function with what it leaves in \<open>info\<close>, which is never null.\<close>

definition elf_load_into :: "u32 \<Rightarrow> u32 \<Rightarrow> elf_info \<Rightarrow> 'z fs_state_scheme \<Rightarrow> (int \<times> elf_info \<times> 'z fs_state_scheme) res" where
  "elf_load_into node space info s =
     (if node = nullptr then Inr (-1, info, s)
      else
        bindR (get_node node s) (\<lambda>n.
        let total_size = n_size n
        in bindR (kmalloc total_size s) (\<lambda>(file_buf, s).
           if file_buf = nullptr then Inr (-1, info, s)
           else
             bindR (case n_read n of None \<Rightarrow> Inl Out_of_bounds | Some f \<Rightarrow> call_read f node 0 total_size s) (\<lambda>(r, s).
             case r of
               None \<Rightarrow> bindR (kfree file_buf s) (\<lambda>s. Inr (-1, info, s))
             | Some bytes \<Rightarrow>
                 bindR (store_bytes file_buf bytes s) (\<lambda>s.
                 bindR (header_ok file_buf s) (\<lambda>ok.
                 if \<not> ok then bindR (kfree file_buf s) (\<lambda>s. Inr (-1, info, s))
                 else
                   bindR (load32 s (file_buf + 24)) (\<lambda>entry.
                   bindR (load_segments 0 file_buf space \<lparr>e_entry = entry, e_load_addr = 0xFFFFFFFF, e_size = 0\<rparr> s) (\<lambda>(ok, info, s).
                   bindR (kfree file_buf s) (\<lambda>s. Inr (if ok then 0 else -1, info, s))))))))))"

definition elf_load :: "u32 \<Rightarrow> elf_info \<Rightarrow> 'z fs_state_scheme \<Rightarrow> (int \<times> elf_info \<times> 'z fs_state_scheme) res" where
  "elf_load node info s = elf_load_into node (vmm_get_kernel_space s) info s"

end
