(* ===== verification/Rtl8139.thy ===== *)
theory Rtl8139
  imports Vfs_Resolve
begin

text \<open>
  The PCI bus scan, \<open>src/src/drivers/pci.cpp\<close>, and the network card driver,
  \<open>src/src/drivers/rtl8139.cpp\<close>. The card is behind its ports (theory \<open>Port_Io\<close>); what it receives it
  stores in the receive buffer, which is memory, so a received packet is part of the state
  in which the driver is polled. A pointer to a device of the static table is its index.
\<close>

section \<open>pci.cpp\<close>

record pci_device =
  p_bus :: u8
  p_slot :: u8
  p_func :: u8
  p_vendor_id :: u16
  p_device_id :: u16
  p_class_code :: u8
  p_subclass :: u8
  p_prog_if :: u8
  p_header_type :: u8

record rtl8139_dev =
  io_base :: u16
  rtl_mac :: "u8 list"
  initialized :: bool

record rtl_priv =
  rx_buffer :: u32
  tx_buffer :: "u32 list"
  tx_cur :: int
  rx_offset :: int

record nic_state = fs_state +
  pci_devices :: "pci_device list"
  pci_count :: int
  rtl_devices :: "rtl8139_dev list"
  rtl_count :: int
  rtl_privs :: "u32 \<Rightarrow> rtl_priv option"
  privs :: "u32 list"

definition PCI_CONFIG_ADDR :: u16 where "PCI_CONFIG_ADDR = 0xCF8"
definition PCI_CONFIG_DATA :: u16 where "PCI_CONFIG_DATA = 0xCFC"
definition MAX_PCI_DEVICES :: int where "MAX_PCI_DEVICES = 64"
definition PCI_VENDOR_ID :: u8 where "PCI_VENDOR_ID = 0x00"
definition PCI_CLASS :: u8 where "PCI_CLASS = 0x0B"
definition PCI_HEADER_TYPE :: u8 where "PCI_HEADER_TYPE = 0x0E"

definition pci_address :: "u8 \<Rightarrow> u8 \<Rightarrow> u8 \<Rightarrow> u8 \<Rightarrow> u32" where
  "pci_address bus slot func offset =
     push_bit 16 (ucast bus) OR push_bit 11 (ucast slot) OR push_bit 8 (ucast func)
       OR ucast (offset AND 0xFC) OR 0x80000000"

definition pci_config_read :: "u8 \<Rightarrow> u8 \<Rightarrow> u8 \<Rightarrow> u8 \<Rightarrow> 'z hw_state_scheme \<Rightarrow> u32 \<times> 'z hw_state_scheme" where
  "pci_config_read bus slot func offset s = inl PCI_CONFIG_DATA (outl PCI_CONFIG_ADDR (pci_address bus slot func offset) s)"

definition pci_config_write :: "u8 \<Rightarrow> u8 \<Rightarrow> u8 \<Rightarrow> u8 \<Rightarrow> u32 \<Rightarrow> 'z hw_state_scheme \<Rightarrow> 'z hw_state_scheme" where
  "pci_config_write bus slot func offset value s =
     outl PCI_CONFIG_DATA value (outl PCI_CONFIG_ADDR (pci_address bus slot func offset) s)"

definition pci_add_device :: "u8 \<Rightarrow> u8 \<Rightarrow> u8 \<Rightarrow> 'z nic_state_scheme \<Rightarrow> 'z nic_state_scheme res" where
  "pci_add_device bus slot func s =
     (if pci_count s \<ge> MAX_PCI_DEVICES then Inr s
      else
        let (i, s) = pci_config_read bus slot func PCI_VENDOR_ID s;
            vendor = ucast (i AND 0xFFFF) :: u16;
            dev = ucast (drop_bit 16 i) :: u16
        in if vendor = 0xFFFF then Inr s
           else
             let (class_rev, s) = pci_config_read bus slot func PCI_CLASS s;
                 (hdr, s) = pci_config_read bus slot func PCI_HEADER_TYPE s
             in bindR (array_set (pci_devices s) (nat (pci_count s))
                  \<lparr>p_bus = bus, p_slot = slot, p_func = func, p_vendor_id = vendor, p_device_id = dev,
                   p_class_code = ucast (drop_bit 24 class_rev),
                   p_subclass = ucast (drop_bit 16 class_rev AND 0xFF),
                   p_prog_if = ucast (drop_bit 8 class_rev AND 0xFF),
                   p_header_type = ucast (drop_bit 16 hdr AND 0xFF)\<rparr>) (\<lambda>ds.
                Inr (s\<lparr>pci_devices := ds, pci_count := pci_count s + 1\<rparr>)))"

text \<open>The loops of \<open>pci_init\<close> over the functions, the slots and the buses still to visit.\<close>

fun pci_scan_funcs :: "u8 \<Rightarrow> u8 \<Rightarrow> nat list \<Rightarrow> 'z nic_state_scheme \<Rightarrow> 'z nic_state_scheme res" where
  "pci_scan_funcs bus slot [] s = Inr s"
| "pci_scan_funcs bus slot (func # funcs) s =
     (let (i, s) = pci_config_read bus slot (of_nat func) PCI_VENDOR_ID s
      in bindR (if i AND 0xFFFF \<noteq> 0xFFFF then pci_add_device bus slot (of_nat func) s else Inr s)
           (pci_scan_funcs bus slot funcs))"

fun pci_scan_slots :: "u8 \<Rightarrow> nat list \<Rightarrow> 'z nic_state_scheme \<Rightarrow> 'z nic_state_scheme res" where
  "pci_scan_slots bus [] s = Inr s"
| "pci_scan_slots bus (slot # slots) s =
     (let (i, s) = pci_config_read bus (of_nat slot) 0 PCI_VENDOR_ID s
      in if i AND 0xFFFF = 0xFFFF then pci_scan_slots bus slots s
         else
           bindR (pci_add_device bus (of_nat slot) 0 s) (\<lambda>s.
           let (hdr, s) = pci_config_read bus (of_nat slot) 0 PCI_HEADER_TYPE s;
               header_type = ucast (drop_bit 16 hdr AND 0xFF) :: u8
           in bindR (if header_type AND 0x80 \<noteq> 0 then pci_scan_funcs bus (of_nat slot) [1..<8] s else Inr s)
                (pci_scan_slots bus slots)))"

fun pci_scan_buses :: "nat list \<Rightarrow> 'z nic_state_scheme \<Rightarrow> 'z nic_state_scheme res" where
  "pci_scan_buses [] s = Inr s"
| "pci_scan_buses (bus # buses) s = bindR (pci_scan_slots (of_nat bus) [0..<32] s) (pci_scan_buses buses)"

definition pci_init :: "'z nic_state_scheme \<Rightarrow> (int \<times> 'z nic_state_scheme) res" where
  "pci_init s = bindR (pci_scan_buses [0..<256] (s\<lparr>pci_count := 0\<rparr>)) (\<lambda>s. Inr (pci_count s, s))"

definition pci_device_count :: "'z nic_state_scheme \<Rightarrow> int" where
  "pci_device_count s = pci_count s"

definition pci_get_device :: "int \<Rightarrow> 'z nic_state_scheme \<Rightarrow> pci_device option res" where
  "pci_get_device index s =
     (if index < 0 \<or> index \<ge> pci_count s then Inr None
      else bindR (array_get (pci_devices s) (nat index)) (\<lambda>d. Inr (Some d)))"

definition pci_read_config :: "pci_device \<Rightarrow> u8 \<Rightarrow> 'z hw_state_scheme \<Rightarrow> u32 \<times> 'z hw_state_scheme" where
  "pci_read_config dev offset s = pci_config_read (p_bus dev) (p_slot dev) (p_func dev) offset s"

definition pci_write_config :: "pci_device \<Rightarrow> u8 \<Rightarrow> u32 \<Rightarrow> 'z hw_state_scheme \<Rightarrow> 'z hw_state_scheme" where
  "pci_write_config dev offset value s = pci_config_write (p_bus dev) (p_slot dev) (p_func dev) offset value s"

definition pci_read_bar :: "pci_device \<Rightarrow> int \<Rightarrow> 'z hw_state_scheme \<Rightarrow> u32 \<times> 'z hw_state_scheme" where
  "pci_read_bar dev bar_index s =
     (if bar_index < 0 \<or> bar_index > 5 then (0, s)
      else pci_read_config dev (word_of_int (0x10 + bar_index * 4)) s)"

section \<open>rtl8139.cpp\<close>

definition RTL8139_MAX_DEVICES :: int where "RTL8139_MAX_DEVICES = 4"
definition RX_BUF_SIZE :: u32 where "RX_BUF_SIZE = 8192"
definition TX_BUF_SIZE :: u32 where "TX_BUF_SIZE = 1536"
definition RTL_IDR0 :: u8 where "RTL_IDR0 = 0x00"
definition RTL_TSD0 :: u8 where "RTL_TSD0 = 0x10"
definition RTL_TSAD0 :: u8 where "RTL_TSAD0 = 0x20"
definition RTL_RBSTART :: u8 where "RTL_RBSTART = 0x30"
definition RTL_CR :: u8 where "RTL_CR = 0x37"
definition RTL_IMR :: u8 where "RTL_IMR = 0x3C"
definition RTL_TCR :: u8 where "RTL_TCR = 0x40"
definition RTL_RCR :: u8 where "RTL_RCR = 0x44"
definition CR_RST :: u8 where "CR_RST = 0x10"
definition CR_RE :: u8 where "CR_RE = 0x08"
definition CR_TE :: u8 where "CR_TE = 0x04"
definition RTL8139_VENDOR :: u16 where "RTL8139_VENDOR = 0x10EC"
definition RTL8139_DEVICE :: u16 where "RTL8139_DEVICE = 0x8139"

definition rtl_write8 :: "rtl8139_dev \<Rightarrow> u8 \<Rightarrow> u8 \<Rightarrow> 'z hw_state_scheme \<Rightarrow> 'z hw_state_scheme" where
  "rtl_write8 dev reg val s = outb (io_base dev + ucast reg) val s"

definition rtl_write16 :: "rtl8139_dev \<Rightarrow> u8 \<Rightarrow> u16 \<Rightarrow> 'z hw_state_scheme \<Rightarrow> 'z hw_state_scheme" where
  "rtl_write16 dev reg val s = outw (io_base dev + ucast reg) val s"

definition rtl_write32 :: "rtl8139_dev \<Rightarrow> u8 \<Rightarrow> u32 \<Rightarrow> 'z hw_state_scheme \<Rightarrow> 'z hw_state_scheme" where
  "rtl_write32 dev reg val s = outl (io_base dev + ucast reg) val s"

definition rtl_read8 :: "rtl8139_dev \<Rightarrow> u8 \<Rightarrow> 'z hw_state_scheme \<Rightarrow> u8 \<times> 'z hw_state_scheme" where
  "rtl_read8 dev reg s = inb (io_base dev + ucast reg) s"

definition rtl_read16 :: "rtl8139_dev \<Rightarrow> u8 \<Rightarrow> 'z hw_state_scheme \<Rightarrow> u16 \<times> 'z hw_state_scheme" where
  "rtl_read16 dev reg s = inw (io_base dev + ucast reg) s"

text \<open>Waiting for the end of the reset, with the value of \<open>timeout\<close> after the loop.\<close>

function reset_loop :: "nat \<Rightarrow> rtl8139_dev \<Rightarrow> 'z hw_state_scheme \<Rightarrow> nat \<times> 'z hw_state_scheme" where
  "reset_loop timeout dev s =
     (let r = rtl_read8 dev RTL_CR s
      in if fst r AND CR_RST \<noteq> 0 \<and> timeout < 1000 then reset_loop (timeout + 1) dev (snd r) else (timeout, snd r))"
  by pat_completeness auto

termination
  by (relation "measure (\<lambda>(timeout, _, _). 1000 - timeout)") auto

declare reset_loop.simps [simp del]

fun read_mac :: "nat list \<Rightarrow> rtl8139_dev \<Rightarrow> 'z hw_state_scheme \<Rightarrow> u8 list \<times> 'z hw_state_scheme" where
  "read_mac [] dev s = ([], s)"
| "read_mac (i # is) dev s =
     (let (b, s) = rtl_read8 dev (RTL_IDR0 + of_nat i) s; (bs, s) = read_mac is dev s in (b # bs, s))"

text \<open>The loop that allocates the transmit buffers: \<open>n\<close> are left, \<open>bufs\<close> are allocated. Without memory it
  frees those and the two other blocks; the result is then \<open>None\<close>.\<close>

fun free_all :: "u32 list \<Rightarrow> 'z heap_state_scheme \<Rightarrow> 'z heap_state_scheme res" where
  "free_all [] s = Inr s"
| "free_all (p # ps) s = bindR (kfree p s) (free_all ps)"

primrec alloc_tx :: "nat \<Rightarrow> u32 list \<Rightarrow> u32 \<Rightarrow> u32 \<Rightarrow> 'z heap_state_scheme \<Rightarrow> (u32 list option \<times> 'z heap_state_scheme) res" where
  "alloc_tx 0 bufs rx priv s = Inr (Some bufs, s)"
| "alloc_tx (Suc n) bufs rx priv s =
     bindR (kmalloc TX_BUF_SIZE s) (\<lambda>(b, s).
     if b = nullptr then bindR (free_all (bufs @ [rx, priv]) s) (\<lambda>s. Inr (None, s))
     else alloc_tx n (bufs @ [b]) rx priv (s\<lparr>mem := memset (mem s) b 0 TX_BUF_SIZE\<rparr>))"

definition set_rtl :: "int \<Rightarrow> rtl8139_dev \<Rightarrow> 'z nic_state_scheme \<Rightarrow> 'z nic_state_scheme res" where
  "set_rtl index d s = bindR (array_set (rtl_devices s) (nat index) d) (\<lambda>ds. Inr (s\<lparr>rtl_devices := ds\<rparr>))"

text \<open>The part of \<open>rtl8139_init_one\<close> from the first allocation on; \<open>dev\<close> has its ports and its address.\<close>

definition rtl_setup :: "rtl8139_dev \<Rightarrow> int \<Rightarrow> 'z nic_state_scheme \<Rightarrow> (int \<times> 'z nic_state_scheme) res" where
  "rtl_setup dev index s =
     bindR (kmalloc 28 s) (\<lambda>(priv, s).
     if priv = nullptr then Inr (-1, s)
     else
       bindR (kmalloc (RX_BUF_SIZE + 16) s) (\<lambda>(rx, s).
       if rx = nullptr then bindR (kfree priv s) (\<lambda>s. Inr (-1, s))
       else
         let s = s\<lparr>mem := memset (mem s) rx 0 (RX_BUF_SIZE + 16)\<rparr>;
             s = rtl_write32 dev RTL_RBSTART rx s;
             s = rtl_write16 dev RTL_IMR 0x0005 s;
             s = rtl_write32 dev RTL_RCR 0x00000F0F s;
             s = rtl_write32 dev RTL_TCR 0 s;
             s = rtl_write8 dev RTL_CR (CR_TE OR CR_RE) s
         in bindR (alloc_tx 4 [] rx priv s) (\<lambda>(bufs, s).
            case bufs of
              None \<Rightarrow> Inr (-1, s)
            | Some bufs \<Rightarrow>
                bindR (array_set (privs s) (nat index) priv) (\<lambda>ps.
                bindR (set_rtl index (dev\<lparr>initialized := True\<rparr>)
                  (s\<lparr>rtl_privs := (rtl_privs s)(priv \<mapsto> \<lparr>rx_buffer = rx, tx_buffer = bufs, tx_cur = 0, rx_offset = 0\<rparr>),
                     privs := ps\<rparr>)) (\<lambda>s.
                Inr (0, s))))))"

definition rtl8139_init_one :: "pci_device \<Rightarrow> int \<Rightarrow> 'z nic_state_scheme \<Rightarrow> (int \<times> 'z nic_state_scheme) res" where
  "rtl8139_init_one pci_dev index s =
     bindR (array_get (rtl_devices s) (nat index)) (\<lambda>dev.
     let dev = dev\<lparr>initialized := False\<rparr>;
         (bar, s) = pci_read_bar pci_dev 0 s
     in bindR (set_rtl index dev s) (\<lambda>s.
        if bar = 0 then Inr (-1, s)
        else
          let dev = dev\<lparr>io_base := ucast (bar AND 0xFFFC)\<rparr>;
              s = rtl_write8 dev RTL_CR CR_RST s;
              (timeout, s) = reset_loop 0 dev s
          in bindR (set_rtl index dev s) (\<lambda>s.
             if timeout \<ge> 1000 then Inr (-1, s)
             else
               let (m, s) = read_mac [0..<6] dev s;
                   dev = dev\<lparr>rtl_mac := m\<rparr>
               in bindR (set_rtl index dev s) (rtl_setup dev index))))"

text \<open>The loop of \<open>rtl8139_init_all\<close> over the devices in \<open>is\<close>.\<close>

fun rtl_init_loop :: "int list \<Rightarrow> 'z nic_state_scheme \<Rightarrow> 'z nic_state_scheme res" where
  "rtl_init_loop [] s = Inr s"
| "rtl_init_loop (i # is) s =
     (if rtl_count s \<ge> RTL8139_MAX_DEVICES then Inr s
      else bindR (pci_get_device i s) (\<lambda>d.
        case d of
          None \<Rightarrow> Inl Out_of_bounds
        | Some d \<Rightarrow>
            if p_vendor_id d = RTL8139_VENDOR \<and> p_device_id d = RTL8139_DEVICE
            then bindR (rtl8139_init_one d (rtl_count s) s) (\<lambda>(r, s).
                 rtl_init_loop is (if r = 0 then s\<lparr>rtl_count := rtl_count s + 1\<rparr> else s))
            else rtl_init_loop is s))"

definition rtl8139_init_all :: "'z nic_state_scheme \<Rightarrow> (int \<times> 'z nic_state_scheme) res" where
  "rtl8139_init_all s =
     bindR (rtl_init_loop [0..pci_device_count s - 1] (s\<lparr>rtl_count := 0\<rparr>)) (\<lambda>s. Inr (rtl_count s, s))"

definition rtl8139_count :: "'z nic_state_scheme \<Rightarrow> int" where
  "rtl8139_count s = rtl_count s"

definition rtl8139_get_device :: "int \<Rightarrow> 'z nic_state_scheme \<Rightarrow> int option" where
  "rtl8139_get_device index s = (if index < 0 \<or> index \<ge> rtl_count s then None else Some index)"

text \<open>The private data of a device, found by the search loop of the two functions below.\<close>

definition get_priv :: "int \<Rightarrow> 'z nic_state_scheme \<Rightarrow> (u32 \<times> rtl_priv) res" where
  "get_priv dev s =
     (let i_index = (if 0 \<le> dev \<and> dev < rtl_count s then dev else 0)
      in bindR (array_get (privs s) (nat i_index)) (\<lambda>a.
         case rtl_privs s a of None \<Rightarrow> Inl Out_of_bounds | Some p \<Rightarrow> Inr (a, p)))"

text \<open>Writing bytes to consecutive addresses of kernel memory.\<close>

fun put_bytes :: "u32 \<Rightarrow> u8 list \<Rightarrow> memory \<Rightarrow> memory" where
  "put_bytes a [] m = m"
| "put_bytes a (b # bs) m = put_bytes (a + 1) bs (m(a := b))"

definition rtl8139_send_packet :: "int option \<Rightarrow> u8 list \<Rightarrow> int \<Rightarrow> 'z nic_state_scheme \<Rightarrow> (int \<times> 'z nic_state_scheme) res" where
  "rtl8139_send_packet dev data len s =
     (case dev of
        None \<Rightarrow> Inr (-1, s)
      | Some i \<Rightarrow>
          bindR (array_get (rtl_devices s) (nat i)) (\<lambda>d.
          if \<not> initialized d \<or> len \<le> 0 \<or> len > 1536 then Inr (-1, s)
          else if nat len > length data then Inl Out_of_bounds
          else
            bindR (get_priv i s) (\<lambda>(a, priv).
            bindR (array_get (tx_buffer priv) (nat (tx_cur priv))) (\<lambda>tx_addr.
            let s = s\<lparr>mem := put_bytes tx_addr (take (nat len) data) (mem s)\<rparr>;
                s = rtl_write32 d (RTL_TSAD0 + word_of_int (tx_cur priv * 4)) tx_addr s;
                s = rtl_write32 d (RTL_TSD0 + word_of_int (tx_cur priv * 4)) (word_of_int len) s
            in Inr (len, s\<lparr>rtl_privs := (rtl_privs s)(a \<mapsto> priv\<lparr>tx_cur := (tx_cur priv + 1) mod 4\<rparr>)\<rparr>)))))"

text \<open>\<open>len\<close> is the value of \<open>*len\<close> before the call. The result is that of the function, the bytes
  written to the start of \<open>buf\<close>, and the value of \<open>*len\<close> after it.\<close>

definition mem16 :: "memory \<Rightarrow> u32 \<Rightarrow> u16" where
  "mem16 m a = ucast (m a) OR push_bit 8 (ucast (m (a + 1)))"

definition rtl8139_poll :: "int option \<Rightarrow> int \<Rightarrow> 'z nic_state_scheme \<Rightarrow> (int \<times> u8 list \<times> int \<times> 'z nic_state_scheme) res" where
  "rtl8139_poll dev len s =
     (case dev of
        None \<Rightarrow> Inr (-1, [], len, s)
      | Some i \<Rightarrow>
          bindR (array_get (rtl_devices s) (nat i)) (\<lambda>d.
          if \<not> initialized d then Inr (-1, [], len, s)
          else
            bindR (get_priv i s) (\<lambda>(a, priv).
            let (cbr, s) = rtl_read16 d 0x3A s;
                offset = rx_offset priv
            in if offset \<ge> uint cbr then Inr (0, [], len, s)
               else
                 let base = rx_buffer priv + word_of_int offset;
                     rx_status = mem16 (mem s) base;
                     rx_size = mem16 (mem s) (base + 2)
                 in if rx_status AND 1 = 0 then Inr (0, [], len, s)
                    else
                      let rx_size = rx_size AND 0x3FFF
                      in if rx_size < 4 then Inr (0, [], len, s)
                         else
                           let rx_size = rx_size - 4;
                               rx_size = (if rx_size > word_of_int len then word_of_int len else rx_size);
                               bytes = map (\<lambda>j. mem s (base + 4 + of_nat j)) [0..<unat rx_size];
                               offset = (offset + uint rx_size + 4 + 3) div 4 * 4;
                               s = s\<lparr>rtl_privs := (rtl_privs s)(a \<mapsto> priv\<lparr>rx_offset := offset\<rparr>)\<rparr>;
                               s = rtl_write16 d 0x38 (word_of_int (offset - 16)) s
                           in Inr (1, bytes, uint rx_size, s))))"

end
