(* ===== verification/Net.thy ===== *)
theory Net
  imports Rtl8139
begin

text \<open>
  The network code, \<open>src/src/net\<close>: address resolution (\<open>arp.cpp\<close>), sending IP packets (\<open>ip.cpp\<close>), echo
  requests and replies (\<open>icmp.cpp\<close>) and the polling loop (\<open>net.cpp\<close>). A packet is the list of its
  bytes; the 16-bit fields are little-endian words of the processor, so the constants are
  the ones of the source, with their bytes already in network order.
\<close>

section \<open>State and packets\<close>

record arp_entry =
  arp_ip :: "u8 list"
  arp_mac :: "u8 list"
  arp_valid :: bool

record net_state = nic_state +
  arp_cache :: "arp_entry list"
  our_mac :: "u8 list"
  our_ip :: "u8 list"
  ip_id :: u16

definition htons :: "u16 \<Rightarrow> u16" where
  "htons v = (push_bit 8 v AND 0xFF00) OR (drop_bit 8 v AND 0x00FF)"

definition eth_hdr :: "u8 list \<Rightarrow> u8 list \<Rightarrow> u16 \<Rightarrow> u8 list" where
  "eth_hdr dst src type = dst @ src @ word_bytes type"

definition arp_pkt :: "u16 \<Rightarrow> u8 list \<Rightarrow> u8 list \<Rightarrow> u8 list \<Rightarrow> u8 list \<Rightarrow> u8 list" where
  "arp_pkt oper sha spa tha tpa =
     word_bytes 0x0100 @ word_bytes 0x0008 @ [6, 4] @ word_bytes oper @ sha @ spa @ tha @ tpa"

text \<open>The 16-bit words of a buffer.\<close>

fun words_of :: "u8 list \<Rightarrow> u16 list" where
  "words_of (x # y # bs) = (ucast x OR push_bit 8 (ucast y)) # words_of bs"
| "words_of _ = []"

lemma fold_step_nat: "unat ((acc AND 0xFFFF) + drop_bit 16 acc) = unat (acc :: u32) mod 65536 + unat acc div 65536"
proof -
  have d: "unat (drop_bit 16 acc) = unat acc div 65536"
    by (simp add: drop_bit_eq_div unat_div)
  have m: "unat (acc AND 0xFFFF) = unat acc mod 65536"
  proof -
    have "(0xFFFF :: u32) = mask 16" by (simp add: mask_eq_exp_minus_1)
    then have "acc AND 0xFFFF = take_bit 16 acc" by (simp only: take_bit_eq_mask)
    then show ?thesis by (simp add: take_bit_eq_mod unat_mod)
  qed
  have "unat acc < 4294967296" using unsigned_less[of acc, where 'a = nat] by simp
  then show ?thesis using unat_add_small[of "acc AND 0xFFFF" "drop_bit 16 acc"] d m by simp
qed

text \<open>Adding the carries until there are none.\<close>

function fold_carry :: "u32 \<Rightarrow> u32" where
  "fold_carry acc = (if drop_bit 16 acc \<noteq> 0 then fold_carry ((acc AND 0xFFFF) + drop_bit 16 acc) else acc)"
  by pat_completeness auto

termination
proof (relation "measure unat", goal_cases)
  case (2 acc)
  have "unat acc div 65536 \<noteq> 0"
  proof
    assume "unat acc div 65536 = 0"
    then have "unat (drop_bit 16 acc) = 0" by (simp add: drop_bit_eq_div unat_div)
    then show False using 2 unat_eq_zero by blast
  qed
  moreover have "unat acc mod 65536 + unat acc div 65536 * 65536 = unat acc" by simp
  ultimately show ?case unfolding in_measure fold_step_nat by linarith
qed simp

declare fold_carry.simps [simp del]

text \<open>The checksum routine, the same in \<open>ip.cpp\<close> and \<open>icmp.cpp\<close>.\<close>

definition net_checksum :: "u8 list \<Rightarrow> u16" where
  "net_checksum data =
     (let acc = sum_list (map ucast (words_of data)) + (if odd (length data) then ucast (last data) else 0)
      in NOT (ucast (fold_carry acc)))"

definition ip_checksum_ok :: "u8 list \<Rightarrow> bool" where
  "ip_checksum_ok ip = (ucast (fold_carry (sum_list (map ucast (words_of (take 20 ip))))) = (0xFFFF :: u16))"

section \<open>arp.cpp\<close>

definition ARP_CACHE_SIZE :: nat where "ARP_CACHE_SIZE = 8"

definition arp_matches :: "u8 list \<Rightarrow> arp_entry \<Rightarrow> bool" where
  "arp_matches ip e \<longleftrightarrow> arp_valid e \<and> arp_ip e = ip"

text \<open>A loop that changes the first element with a property and then returns.\<close>

fun update_first :: "('a \<Rightarrow> bool) \<Rightarrow> ('a \<Rightarrow> 'a) \<Rightarrow> 'a list \<Rightarrow> 'a list option" where
  "update_first P f [] = None"
| "update_first P f (x # xs) =
     (if P x then Some (f x # xs) else map_option ((#) x) (update_first P f xs))"

definition arp_cache_add :: "u8 list \<Rightarrow> u8 list \<Rightarrow> 'z net_state_scheme \<Rightarrow> int \<times> 'z net_state_scheme" where
  "arp_cache_add ip mac s =
     (case update_first (arp_matches ip) (\<lambda>e. e\<lparr>arp_mac := mac\<rparr>) (arp_cache s) of
        Some c \<Rightarrow> (0, s\<lparr>arp_cache := c\<rparr>)
      | None \<Rightarrow>
          case update_first (\<lambda>e. \<not> arp_valid e) (\<lambda>e. \<lparr>arp_ip = ip, arp_mac = mac, arp_valid = True\<rparr>) (arp_cache s) of
            Some c \<Rightarrow> (0, s\<lparr>arp_cache := c\<rparr>)
          | None \<Rightarrow> (-1, s))"

text \<open>\<open>Some\<close> is the result 0 with the address left in \<open>mac\<close>.\<close>

definition arp_cache_lookup :: "u8 list \<Rightarrow> 'z net_state_scheme \<Rightarrow> u8 list option" where
  "arp_cache_lookup ip s = map_option arp_mac (find (arp_matches ip) (arp_cache s))"

definition arp_send_request :: "u8 list \<Rightarrow> 'z net_state_scheme \<Rightarrow> 'z net_state_scheme res" where
  "arp_send_request ip s =
     (case rtl8139_get_device 0 s of
        None \<Rightarrow> Inr s
      | Some nic \<Rightarrow>
          let buf = eth_hdr (replicate 6 0xFF) (our_mac s) 0x0608
                      @ arp_pkt 0x0100 (our_mac s) (our_ip s) (replicate 6 0) ip
          in bindR (rtl8139_send_packet (Some nic) buf 42 s) (\<lambda>(_, s). Inr s))"

definition arp_resolve :: "u8 list \<Rightarrow> 'z net_state_scheme \<Rightarrow> u8 list option" where
  "arp_resolve ip s = arp_cache_lookup ip s"

text \<open>The fields of a received \<open>arp_pkt\<close>.\<close>

definition field16 :: "u8 list \<Rightarrow> nat \<Rightarrow> u16" where
  "field16 b i = ucast (b ! i) OR push_bit 8 (ucast (b ! (i + 1)))"

definition arp_handle_packet :: "u8 list \<Rightarrow> 'z net_state_scheme \<Rightarrow> (int \<times> 'z net_state_scheme) res" where
  "arp_handle_packet arp s =
     (let oper = field16 arp 6;
          sha = take 6 (drop 8 arp); spa = take 4 (drop 14 arp); tpa = take 4 (drop 24 arp)
      in if field16 arp 0 \<noteq> 0x0100 \<or> field16 arp 2 \<noteq> 0x0008 then Inr (-1, s)
         else if oper = 0x0100
         then if tpa = our_ip s
              then case rtl8139_get_device 0 s of
                     None \<Rightarrow> Inr (-1, s)
                   | Some nic \<Rightarrow>
                       let buf = eth_hdr sha (our_mac s) 0x0608 @ arp_pkt 0x0200 (our_mac s) (our_ip s) sha spa
                       in bindR (rtl8139_send_packet (Some nic) buf 42 s) (\<lambda>(_, s).
                          Inr (0, snd (arp_cache_add spa sha s)))
              else Inr (0, s)
         else if oper = 0x0200 then Inr (0, snd (arp_cache_add spa sha s))
         else Inr (0, s))"

section \<open>ip.cpp\<close>

definition ip_init :: "'z net_state_scheme \<Rightarrow> 'z net_state_scheme res" where
  "ip_init s =
     (case rtl8139_get_device 0 s of
        None \<Rightarrow> Inr s
      | Some nic \<Rightarrow> bindR (array_get (rtl_devices s) (nat nic)) (\<lambda>d. Inr (s\<lparr>our_mac := rtl_mac d\<rparr>)))"

text \<open>The header with a given value in the checksum field, and the frame that is sent.\<close>

definition ip_hdr :: "nat \<Rightarrow> u16 \<Rightarrow> u8 \<Rightarrow> u16 \<Rightarrow> u8 list \<Rightarrow> u8 list \<Rightarrow> u8 list" where
  "ip_hdr len i proto checksum src dst =
     [0x45, 0] @ word_bytes (htons (of_nat (20 + len))) @ word_bytes (htons i) @ word_bytes 0
       @ [64, proto] @ word_bytes checksum @ src @ dst"

definition ip_frame :: "u8 list \<Rightarrow> u8 list \<Rightarrow> u8 \<Rightarrow> u8 list \<Rightarrow> 'z net_state_scheme \<Rightarrow> u8 list" where
  "ip_frame mac dst_ip proto data s =
     (let hdr = (\<lambda>c. ip_hdr (length data) (ip_id s) proto c (our_ip s) dst_ip)
      in eth_hdr mac (our_mac s) (htons 0x0800) @ hdr (net_checksum (hdr 0)) @ data)"

definition ip_send :: "u8 list \<Rightarrow> u8 \<Rightarrow> u8 list \<Rightarrow> 'z net_state_scheme \<Rightarrow> (int \<times> 'z net_state_scheme) res" where
  "ip_send dst_ip proto data s =
     (case rtl8139_get_device 0 s of
        None \<Rightarrow> Inr (-1, s)
      | Some nic \<Rightarrow>
          case arp_resolve dst_ip s of
            None \<Rightarrow> bindR (arp_send_request dst_ip s) (\<lambda>s. Inr (-2, s))
          | Some mac \<Rightarrow>
              let total = 14 + 20 + int (length data)
              in if total > 1600 then Inr (-1, s)
                 else rtl8139_send_packet (Some nic) (ip_frame mac dst_ip proto data s) total (s\<lparr>ip_id := ip_id s + 1\<rparr>))"

section \<open>icmp.cpp\<close>

definition icmp_send_echo :: "u8 list \<Rightarrow> u16 \<Rightarrow> u16 \<Rightarrow> 'z net_state_scheme \<Rightarrow> (int \<times> 'z net_state_scheme) res" where
  "icmp_send_echo dst_ip i sq s =
     (let pkt = (\<lambda>c. [8, 0] @ word_bytes c @ word_bytes (htons i) @ word_bytes (htons sq) @ map of_nat [0..<24])
      in ip_send dst_ip 1 (pkt (net_checksum (pkt 0))) s)"

text \<open>The packet is changed in place; the result has the changed packet.\<close>

definition icmp_handle_packet :: "u8 list \<Rightarrow> u8 list \<Rightarrow> 'z net_state_scheme \<Rightarrow> (u8 list \<times> 'z net_state_scheme) res" where
  "icmp_handle_packet src_ip pkt s =
     (if pkt ! 0 = 8
      then
        let pkt = pkt[0 := 0, 2 := 0, 3 := 0];
            c = net_checksum pkt;
            pkt = pkt[2 := ucast c, 3 := ucast (drop_bit 8 c)]
        in bindR (ip_send src_ip 1 pkt s) (\<lambda>(_, s). Inr (pkt, s))
      else Inr (pkt, s))"

section \<open>net.cpp\<close>

definition net_init :: "'z net_state_scheme \<Rightarrow> 'z net_state_scheme res" where
  "net_init s = ip_init s"

text \<open>One round of the loop of \<open>net_poll\<close> after a packet of \<open>len\<close> bytes has arrived in \<open>buf\<close>.\<close>

definition net_handle :: "u8 list \<Rightarrow> int \<Rightarrow> 'z net_state_scheme \<Rightarrow> (u8 list \<times> 'z net_state_scheme) res" where
  "net_handle buf len s =
     (let type = field16 buf 12
      in if type = 0x0608
         then if len \<ge> 42
              then bindR (arp_handle_packet (take 28 (drop 14 buf)) s) (\<lambda>(_, s). Inr (buf, s))
              else Inr (buf, s)
         else if type = 0x0008
         then
           let ip_len = len - 14
           in if ip_len \<ge> 20 \<and> ip_checksum_ok (drop 14 buf)
              then if buf ! 23 = 1
                   then
                     let icmp_len = ip_len - 20
                     in if icmp_len \<ge> 4
                        then bindR (icmp_handle_packet (take 4 (drop 26 buf)) (take (nat icmp_len) (drop 34 buf)) s) (\<lambda>(pkt, s).
                             Inr (take 34 buf @ pkt @ drop (34 + nat icmp_len) buf, s))
                        else Inr (buf, s)
                   else Inr (buf, s)
              else Inr (buf, s)
         else Inr (buf, s))"

text \<open>The loop; \<open>buf\<close> starts with what is on the stack.\<close>

partial_function (option) net_loop :: "int \<Rightarrow> u8 list \<Rightarrow> int \<Rightarrow> 'z net_state_scheme \<Rightarrow> 'z net_state_scheme res option" where
  "net_loop nic buf len s =
     (case rtl8139_poll (Some nic) len s of
        Inl e \<Rightarrow> Some (Inl e)
      | Inr (r, bytes, len, s) \<Rightarrow>
          if r > 0
          then (case net_handle (bytes @ drop (length bytes) buf) len s of
                  Inl e \<Rightarrow> Some (Inl e)
                | Inr (buf, s) \<Rightarrow> net_loop nic buf len s)
          else Some (Inr s))"

definition net_poll :: "u8 list \<Rightarrow> 'z net_state_scheme \<Rightarrow> 'z net_state_scheme res" where
  "net_poll buf s =
     (case rtl8139_get_device 0 s of
        None \<Rightarrow> Inr s
      | Some nic \<Rightarrow> bindR (returns (net_loop nic buf 1600 s)) id)"

end
