(* ===== verification/Shell.thy ===== *)
theory Shell
  imports Elf Net
begin

text \<open>
  The shell, \<open>src/src/shell/shell.cpp\<close>: the line editor and every command. Command lines are the
  array \<open>cmd\<close> with its NUL; an argument is the text from a position of that array on. A loop that
  only halts the processor does not return. Numbers that the source keeps in an \<open>int\<close> while it
  reads digits are 32-bit words, compared as signed numbers where the source does.
\<close>

section \<open>State and output\<close>

record shell_state = net_state +
  cmd :: string
  idx :: int
  cwd :: u32
  test_page :: u32
  stress_prime_count :: u32
  stress_current :: u32
  stress_counter :: u32

text \<open>Output of a command: \<open>terminal.write\<close> of a text, or of what \<open>itoa\<close> makes of a number.\<close>

datatype out = Txt string | Num u32

definition line :: "string \<Rightarrow> out" where
  "line t = Txt (t @ [CHR 0x0A])"

fun say :: "out list \<Rightarrow> 'z vmm_state_scheme \<Rightarrow> 'z vmm_state_scheme res" where
  "say [] s = Inr s"
| "say (Txt t # os) s = bindR (print t s) (say os)"
| "say (Num n # os) s = bindR (itoa n) (\<lambda>b. bindR (print b s) (say os))"

text \<open>The text at position \<open>i\<close> of a character array, up to the NUL.\<close>

definition cstr_at :: "string \<Rightarrow> nat \<Rightarrow> string res" where
  "cstr_at cs i =
     (let r = drop i cs
      in if CHR 0x00 \<in> set r then Inr (takeWhile (\<lambda>c. c \<noteq> CHR 0x00) r) else Inl Out_of_bounds)"

definition arg :: "nat \<Rightarrow> 'z shell_state_scheme \<Rightarrow> string res" where
  "arg i s = cstr_at (cmd s) i"

definition is_digit :: "char \<Rightarrow> bool" where
  "is_digit c \<longleftrightarrow> 48 \<le> (of_char c :: nat) \<and> (of_char c :: nat) \<le> 57"

text \<open>The loops that read a number.\<close>

definition digits_word :: "string \<Rightarrow> u32" where
  "digits_word ds = fold (\<lambda>c n. n * 10 + (of_char c - 48)) ds 0"

section \<open>Commands about memory\<close>

definition help_lines :: "string list" where
  "help_lines = [''Comandos:'', '' help'', '' clear'', '' echo <texto>'', '' about'', '' whoami'', '' uname'',
     '' uptime'', '' yes [texto]'', '' true'', '' false'', '' ticks'', '' mem'', '' pages'', '' alloc'', '' free'',
     '' kmalloc'', '' testheap'', '' ps'', '' elfinfo <file>'', '' ring3'', '' exec <file>'',
     '' send <pid> <msg>'', '' recv'', '' kill <pid>'', '' halt'', '' reboot'', '' ls'', '' pci'', '' ping <ip>'',
     '' netstat'', '' lsdisk'', '' rd <dev> <lba>'', '' touch <file>'', '' cat <file>'', '' wc <file>'',
     '' head <file>'', '' rev <file>'', '' write <file> <text>'', '' mkdir <dir>'', '' cd <dir>'', '' pwd'']"

definition cmd_pages :: "'z shell_state_scheme \<Rightarrow> 'z shell_state_scheme res" where
  "cmd_pages s =
     say [Txt ''Total: '', Num (pmm_total_pages s), Txt (CHR 0x0A # ''Used : ''), Num (pmm_used_pages s),
          Txt (CHR 0x0A # ''Free : ''), Num (pmm_free_pages s), line ''''] s"

definition cmd_alloc :: "'z shell_state_scheme \<Rightarrow> 'z shell_state_scheme res" where
  "cmd_alloc s =
     bindR (pmm_alloc_page s) (\<lambda>(p, s).
     let s = s\<lparr>test_page := p\<rparr>
     in say [line (if test_page s \<noteq> nullptr then ''Page allocated'' else ''Out of memory'')] s)"

definition cmd_free :: "'z shell_state_scheme \<Rightarrow> 'z shell_state_scheme res" where
  "cmd_free s =
     (if test_page s \<noteq> nullptr
      then bindR (pmm_free_page (test_page s) s) (\<lambda>s. say [line ''Page freed''] (s\<lparr>test_page := nullptr\<rparr>))
      else say [line ''No page allocated''] s)"

text \<open>The bytes of a text in memory, from address \<open>a\<close> on.\<close>

definition put_text :: "u32 \<Rightarrow> string \<Rightarrow> memory \<Rightarrow> memory" where
  "put_text a t m = put_bytes a (map of_char t) m"

definition text_at :: "u32 \<Rightarrow> nat \<Rightarrow> memory \<Rightarrow> string" where
  "text_at a n m = map (\<lambda>i. char_of (unat (m (a + of_nat i)))) [0..<n]"

definition cmd_kmalloc :: "'z shell_state_scheme \<Rightarrow> 'z shell_state_scheme res" where
  "cmd_kmalloc s =
     bindR (kmalloc 128 s) (\<lambda>(ptr, s).
     bindR (say [Txt ''PTR: '', Num ptr] s) (\<lambda>s.
     bindR (if ptr \<noteq> nullptr
            then let s = s\<lparr>mem := put_text ptr (map (\<lambda>i. char_of (65 + i)) [0..<10] @ [CHR 0x00]) (mem s)\<rparr>
                 in bindR (cstr_at (text_at ptr 11 (mem s)) 0) (\<lambda>data. say [Txt '' DATA: '', Txt data] s)
            else Inr s) (\<lambda>s.
     say [line ''''] s)))"

definition cmd_testheap :: "'z shell_state_scheme \<Rightarrow> 'z shell_state_scheme res" where
  "cmd_testheap s =
     bindR (kmalloc 16 s) (\<lambda>(a, s).
     bindR (kmalloc 32 s) (\<lambda>(b, s).
     bindR (kmalloc 64 s) (\<lambda>(c, s).
     if a = nullptr \<or> b = nullptr \<or> c = nullptr then say [line ''alloc fail''] s
     else
       let s = s\<lparr>mem := put_text c ''Z'' (put_text b ''Y'' (put_text a ''X'' (mem s)))\<rparr>
       in bindR (kfree b s) (\<lambda>s.
          bindR (kfree a s) (\<lambda>s.
          bindR (kmalloc 16 s) (\<lambda>(d, s).
          bindR (say [Txt ''reuse: '', Txt (if d = a then ''yes'' else ''no''), line ''''] s) (\<lambda>s.
          bindR (kfree c s) (\<lambda>s.
          bindR (kfree d s) (\<lambda>s.
          say [line ''heap ok''] s)))))))))"

section \<open>Commands about files\<close>

text \<open>\<open>cwd->finddir(cwd, nm)\<close> and the test that the result is a file; null when it is not.\<close>

definition find_file :: "string \<Rightarrow> 'z shell_state_scheme \<Rightarrow> (u32 \<times> 'z shell_state_scheme) res" where
  "find_file nm s =
     bindR (get_node (cwd s) s) (\<lambda>n.
     bindR (case n_finddir n of None \<Rightarrow> Inl Out_of_bounds | Some f \<Rightarrow> call_finddir f (cwd s) nm s) (\<lambda>(file, s).
     if file = nullptr then Inr (nullptr, s)
     else bindR (get_node file s) (\<lambda>v. Inr (if n_flags v AND FS_FILE \<noteq> 0 then file else nullptr, s))))"

text \<open>\<open>file->read(file, 0, 255, buffer); buffer[got] = 0\<close>, with all \<open>got\<close> bytes.\<close>

definition read_buffer :: "u32 \<Rightarrow> 'z shell_state_scheme \<Rightarrow> (string \<times> 'z shell_state_scheme) res" where
  "read_buffer file s =
     bindR (get_node file s) (\<lambda>v.
     bindR (case n_read v of None \<Rightarrow> Inl Out_of_bounds | Some f \<Rightarrow> call_read f file 0 255 s) (\<lambda>(r, s).
     case r of
       None \<Rightarrow> Inl Out_of_bounds
     | Some bs \<Rightarrow> Inr (map (\<lambda>b. char_of (unat b)) bs, s)))"

partial_function (option) ls_loop :: "u32 \<Rightarrow> vfs_node \<Rightarrow> 'z shell_state_scheme \<Rightarrow> 'z shell_state_scheme res option" where
  "ls_loop i entry s =
     (case get_node (cwd s) s of
        Inl e \<Rightarrow> Some (Inl e)
      | Inr n \<Rightarrow>
          (case (case n_readdir n of None \<Rightarrow> Inl Out_of_bounds | Some f \<Rightarrow> call_readdir f (cwd s) i entry s) of
             Inl e \<Rightarrow> Some (Inl e)
           | Inr (r, entry, s) \<Rightarrow>
               if r < 0 then Some (Inr s)
               else
                 (case say ((if n_flags entry AND FS_DIR \<noteq> 0 then [Txt ''[DIR] '', Num i, Txt '' ''] else [])
                            @ [Txt (n_name entry), line '''']) s of
                    Inl e \<Rightarrow> Some (Inl e)
                  | Inr s \<Rightarrow> ls_loop (i + 1) entry s)))"

text \<open>The local \<open>entry\<close> is not set up, but no field is used before \<open>readdir\<close> has set it.\<close>

definition cmd_ls :: "'z shell_state_scheme \<Rightarrow> 'z shell_state_scheme res" where
  "cmd_ls s = (if cwd s = nullptr then say [line ''no fs''] s else bindR (returns (ls_loop 0 zero_node s)) id)"

definition cmd_touch :: "'z shell_state_scheme \<Rightarrow> 'z shell_state_scheme res" where
  "cmd_touch s =
     (if cwd s = nullptr then say [line ''no fs''] s
      else bindR (arg 6 s) (\<lambda>nm.
           bindR (ramfs_create_file (cwd s) nm s) (\<lambda>(r, s).
           say [line (if r \<noteq> nullptr then ''created'' else ''error'')] s)))"

definition cmd_mkdir :: "'z shell_state_scheme \<Rightarrow> 'z shell_state_scheme res" where
  "cmd_mkdir s =
     (if cwd s = nullptr then say [line ''no fs''] s
      else bindR (arg 6 s) (\<lambda>nm.
           bindR (ramfs_create_dir (cwd s) nm s) (\<lambda>(r, s).
           say [line (if r \<noteq> nullptr then ''created'' else ''error'')] s)))"

definition cmd_cd :: "'z shell_state_scheme \<Rightarrow> 'z shell_state_scheme res" where
  "cmd_cd s =
     (if cwd s = nullptr then say [line ''no fs''] s
      else bindR (arg 3 s) (\<lambda>path.
           bindR (vfs_resolve_relative (cwd s) (Some path) s) (\<lambda>(dir, s).
           if dir = nullptr then say [line ''not found''] s
           else bindR (get_node dir s) (\<lambda>v.
             if n_flags v AND FS_DIR = 0 then say [line ''not found''] s else Inr (s\<lparr>cwd := dir\<rparr>)))))"

text \<open>The nodes from \<open>cur\<close> up to the root, at most \<open>n\<close> of them, and the path they give in the
  256 characters of \<open>path\<close>.\<close>

primrec pwd_nodes :: "nat \<Rightarrow> u32 \<Rightarrow> 'z shell_state_scheme \<Rightarrow> string list res" where
  "pwd_nodes 0 cur s = Inr []"
| "pwd_nodes (Suc n) cur s =
     (if cur = nullptr then Inr []
      else bindR (get_node cur s) (\<lambda>v.
        if n_parent v = cur then Inr []
        else bindR (pwd_nodes n (n_parent v) s) (\<lambda>nms. Inr (n_name v # nms))))"

definition cmd_pwd :: "'z shell_state_scheme \<Rightarrow> 'z shell_state_scheme res" where
  "cmd_pwd s =
     (if cwd s = nullptr then say [line ''no fs''] s
      else bindR (get_node (cwd s) s) (\<lambda>v.
        if n_parent v = cwd s then say [line ''/''] s
        else
          bindR (pwd_nodes 64 (cwd s) s) (\<lambda>nms.
          let path = CHR ''/'' # concat (map (\<lambda>nm. nm @ ''/'') (rev (tl nms))) @ hd nms
          in if length path < 256 then say [Txt path, line ''''] s else Inl Out_of_bounds)))"

definition cmd_cat :: "'z shell_state_scheme \<Rightarrow> 'z shell_state_scheme res" where
  "cmd_cat s =
     (if cwd s = nullptr then say [line ''no fs''] s
      else
        bindR (arg 4 s) (\<lambda>nm.
        bindR (find_file nm s) (\<lambda>(file, s).
        if file = nullptr then say [line ''not found''] s
        else bindR (read_buffer file s) (\<lambda>(buffer, s).
             say [Txt (takeWhile (\<lambda>c. c \<noteq> CHR 0x00) buffer), line ''''] s))))"

text \<open>The loop of \<open>head\<close>: characters up to the end of the fifth line.\<close>

fun head_chars :: "string \<Rightarrow> nat \<Rightarrow> string" where
  "head_chars [] lines = []"
| "head_chars (c # cs) lines =
     (if lines < 5 then c # head_chars cs (if c = CHR 0x0A then lines + 1 else lines) else [])"

text \<open>The commands \<open>wc\<close>, \<open>head\<close> and \<open>rev\<close>, told apart by the second character of the line.\<close>

definition cmd_wc_head_rev :: "string \<Rightarrow> 'z shell_state_scheme \<Rightarrow> 'z shell_state_scheme res" where
  "cmd_wc_head_rev c s =
     (if cwd s = nullptr then say [line ''no fs''] s
      else
        bindR (arg (if c ! 1 = CHR ''c'' then 3 else if c ! 1 = CHR ''e'' then 5 else 4) s) (\<lambda>fname.
        bindR (find_file fname s) (\<lambda>(file, s).
        if file = nullptr then say [line ''not found''] s
        else
          bindR (read_buffer file s) (\<lambda>(buffer, s).
          let txt = takeWhile (\<lambda>c. c \<noteq> CHR 0x00) buffer
          in if c ! 1 = CHR ''w'' then say [Num (of_nat (length buffer)), Txt '' '', Txt fname, line ''''] s
             else if c ! 1 = CHR ''e'' then say [Txt (head_chars txt 0), line ''''] s
             else say [Txt (rev txt), line ''''] s))))"

text \<open>\<open>write\<close> ends the name by storing a NUL over the first space after it.\<close>

definition cmd_write :: "string \<Rightarrow> 'z shell_state_scheme \<Rightarrow> 'z shell_state_scheme res" where
  "cmd_write c s =
     (if cwd s = nullptr then say [line ''no fs''] s
      else
        (case find (\<lambda>i. c ! i = CHR '' '') [6..<length c] of
           None \<Rightarrow> say [line ''usage: write file text''] s
         | Some space \<Rightarrow>
             bindR (array_set (cmd s) space (CHR 0x00)) (\<lambda>cs.
             let s = s\<lparr>cmd := cs\<rparr>
             in bindR (arg 6 s) (\<lambda>nm.
                bindR (find_file nm s) (\<lambda>(file, s).
                if file = nullptr then say [line ''not found''] s
                else
                  bindR (arg (space + 1) s) (\<lambda>txt.
                  bindR (get_node file s) (\<lambda>v.
                  bindR (case n_write v of
                           None \<Rightarrow> Inl Out_of_bounds
                         | Some f \<Rightarrow> call_write f file 0 (of_nat (length txt)) (map of_char txt) s) (\<lambda>(r, s).
                  say [line (if r > 0 then ''OK'' else ''error'')] s))))))))"

section \<open>Commands about devices\<close>

text \<open>Reading an address: the octets so far, the one being read, and how many are complete.\<close>

fun ping_parse :: "string \<Rightarrow> u8 list \<Rightarrow> u32 \<Rightarrow> nat \<Rightarrow> u8 list \<times> u32 \<times> nat" where
  "ping_parse [] ip val oct = (ip, val, oct)"
| "ping_parse (p # ps) ip val oct =
     (if is_digit p then ping_parse ps ip (val * 10 + (of_char p - 48)) oct
      else if p = CHR ''.'' \<and> oct < 4 then ping_parse ps (ip[oct := ucast val]) 0 (oct + 1)
      else (ip, val, oct))"

definition cmd_ping :: "'z shell_state_scheme \<Rightarrow> 'z shell_state_scheme res" where
  "cmd_ping s =
     bindR (arg 5 s) (\<lambda>ip_str.
     case ping_parse ip_str (replicate 4 0) 0 0 of (ip, val, oct) \<Rightarrow>
       if oct = 3 \<and> sint val \<le> 255
       then
         let ip = ip[3 := ucast val]
         in bindR (say (Txt ''ping'' # concat (map (\<lambda>b. [Txt ''.'', Num (ucast b)]) ip) @ [line '''']) s) (\<lambda>s.
            bindR (arp_send_request ip s) (\<lambda>s.
            bindR (icmp_send_echo ip 1 1 s) (\<lambda>(_, s). Inr s)))
       else say [line ''usage: ping a.b.c.d''] s)"

definition pci_line :: "pci_device \<Rightarrow> out list" where
  "pci_line d =
     [Num (ucast (p_bus d)), Txt '':'', Num (ucast (p_slot d)), Txt ''.'', Num (ucast (p_func d)),
      Txt ''  vid=0x'', Num (ucast (p_vendor_id d)), Txt '' did=0x'', Num (ucast (p_device_id d)),
      Txt '' class='', Num (ucast (p_class_code d)), Txt '' subclass='', Num (ucast (p_subclass d)), line '''']"

fun pci_lines :: "int list \<Rightarrow> 'z shell_state_scheme \<Rightarrow> 'z shell_state_scheme res" where
  "pci_lines [] s = Inr s"
| "pci_lines (i # is) s =
     bindR (pci_get_device i s) (\<lambda>d.
     case d of None \<Rightarrow> Inl Out_of_bounds | Some d \<Rightarrow> bindR (say (pci_line d) s) (pci_lines is))"

definition cmd_pci :: "'z shell_state_scheme \<Rightarrow> 'z shell_state_scheme res" where
  "cmd_pci s =
     (let count = pci_device_count s
      in if count = 0 then say [line ''no pci devices''] s else pci_lines [0..count - 1] s)"

text \<open>A hardware address, its six bytes in decimal.\<close>

definition mac_text :: "u8 list \<Rightarrow> out list" where
  "mac_text mac =
     concat (map (\<lambda>j. (if mac ! j < 16 then [Txt ''0''] else []) @ [Num (ucast (mac ! j))]
                      @ (if j < 5 then [Txt '':''] else [])) [0..<6])"

fun netstat_lines :: "int list \<Rightarrow> 'z shell_state_scheme \<Rightarrow> 'z shell_state_scheme res" where
  "netstat_lines [] s = Inr s"
| "netstat_lines (i # is) s =
     (case rtl8139_get_device i s of
        None \<Rightarrow> Inl Out_of_bounds
      | Some k \<Rightarrow>
          bindR (array_get (rtl_devices s) (nat k)) (\<lambda>d.
          bindR (say ([Txt ''rtl8139#'', Num (of_int i), Txt '' MAC ''] @ mac_text (rtl_mac d) @ [line '''']) s)
            (netstat_lines is)))"

definition cmd_netstat :: "'z shell_state_scheme \<Rightarrow> 'z shell_state_scheme res" where
  "cmd_netstat s =
     (let count = rtl8139_count s
      in if count = 0 then say [line ''no network devices''] s else netstat_lines [0..count - 1] s)"

fun lsdisk_lines :: "int list \<Rightarrow> 'z shell_state_scheme \<Rightarrow> 'z shell_state_scheme res" where
  "lsdisk_lines [] s = Inr s"
| "lsdisk_lines (i # is) s =
     bindR (ata_get_device i s) (\<lambda>r.
     case r of
       None \<Rightarrow> lsdisk_lines is s
     | Some d \<Rightarrow>
         if \<not> a_present d then lsdisk_lines is s
         else bindR (cstr_at (a_model d) 0) (\<lambda>model.
              bindR (say [Txt ''ata'', Num (of_int i), Txt '': '', Txt model, Txt '' '', Num (a_sectors d div 2048),
                          Txt ''MB'', Txt (if a_is_master d then '' master'' else '' slave''), line ''''] s)
                (lsdisk_lines is)))"

definition cmd_lsdisk :: "'z shell_state_scheme \<Rightarrow> 'z shell_state_scheme res" where
  "cmd_lsdisk s =
     (let count = ata_device_count s
      in if count = 0 then say [line ''no ata devices''] s else lsdisk_lines [0..count - 1] s)"

definition hex_digit :: "u8 \<Rightarrow> char" where
  "hex_digit n = ''0123456789ABCDEF'' ! unat (n AND 0xF)"

definition rd_row :: "u8 list \<Rightarrow> nat \<Rightarrow> out list" where
  "rd_row buffer r =
     (let bytes = take 16 (drop (r * 16) buffer)
      in [Txt (map (\<lambda>b. if 32 \<le> b \<and> b < 127 then char_of (unat b) else CHR ''.'') bytes), Txt ''  ''] @
         map (\<lambda>b. Txt [hex_digit (drop_bit 4 b), hex_digit b, CHR '' '']) bytes @ [line ''''])"

definition cmd_rd :: "'z shell_state_scheme \<Rightarrow> 'z shell_state_scheme res" where
  "cmd_rd s =
     bindR (arg 3 s) (\<lambda>t.
     let dev = digits_word (takeWhile is_digit t);
         t = dropWhile (\<lambda>c. c = CHR '' '') (dropWhile is_digit t);
         lba = digits_word (takeWhile is_digit t)
     in bindR (ata_read_sector (sint dev) lba s) (\<lambda>(r, s).
        case r of
          None \<Rightarrow> say [line ''read failed''] s
        | Some buffer \<Rightarrow>
            say ([Txt ''sector '', Num lba, line '':''] @ concat (map (rd_row buffer) [0..<16])) s))"

section \<open>Commands about processes\<close>

definition state_name :: "task_state \<Rightarrow> string" where
  "state_name st =
     (case st of TASK_FREE \<Rightarrow> ''FREE'' | TASK_READY \<Rightarrow> ''READY'' | TASK_RUNNING \<Rightarrow> ''RUN''
      | TASK_BLOCKED \<Rightarrow> ''BLK'' | TASK_DEAD \<Rightarrow> ''DEAD'')"

definition ps_line :: "process \<Rightarrow> out list" where
  "ps_line p =
     [Txt ''PID:'', Num (pid p), Txt '' PPID:'', Num (parent_pid p), Txt '' '', Txt (state_name (state p)),
      Txt (if ring p = RING_KERNEL then '' KERN'' else '' USER'')] @
     (if state p = TASK_DEAD then [Txt '' code:'', Num (of_int (exit_code p))] else []) @ [line '''']"

fun ps_lines :: "int list \<Rightarrow> 'z shell_state_scheme \<Rightarrow> 'z shell_state_scheme res" where
  "ps_lines [] s = Inr s"
| "ps_lines (i # is) s =
     bindR (process_get i s) (\<lambda>p.
     if p = nullptr then ps_lines is s
     else bindR (get_proc p s) (\<lambda>x. bindR (say (ps_line x) s) (ps_lines is)))"

definition cmd_ps :: "'z shell_state_scheme \<Rightarrow> 'z shell_state_scheme res" where
  "cmd_ps s =
     bindR (ps_lines [0..process_total s - 1] s) (\<lambda>s.
     say [Txt ''stress: prime='', Num (stress_prime_count s), Txt '' cur='', Num (stress_current s),
          Txt '' counter='', Num (stress_counter s), line ''''] s)"

definition cmd_kill :: "'z shell_state_scheme \<Rightarrow> 'z shell_state_scheme res" where
  "cmd_kill s =
     bindR (arg 5 s) (\<lambda>t.
     bindR (kill_loop [0..process_total s - 1] (sint (digits_word (takeWhile is_digit t))) s) (\<lambda>(r, s).
     say [line (if r = 0 then ''killed'' else ''not found'')] s))"

text \<open>The local \<open>info\<close> is not set up, but read only after the load has set it.\<close>

definition no_info :: elf_info where
  "no_info = \<lparr>e_entry = 0, e_load_addr = 0, e_size = 0\<rparr>"

definition cmd_elfinfo :: "'z shell_state_scheme \<Rightarrow> 'z shell_state_scheme res" where
  "cmd_elfinfo s =
     (if cwd s = nullptr then say [line ''no fs''] s
      else
        bindR (arg 8 s) (\<lambda>nm.
        bindR (find_file nm s) (\<lambda>(file, s).
        if file = nullptr then say [line ''not found''] s
        else
          bindR (elf_load file no_info s) (\<lambda>(r, info, s).
          if r = 0
          then say [Txt ''elf: entry=0x'', Num (e_entry info), Txt '' load=0x'', Num (e_load_addr info),
                    Txt '' size='', Num (e_size info), line ''''] s
          else say [line ''elf: load failed''] s))))"

definition cmd_exec :: "'z shell_state_scheme \<Rightarrow> 'z shell_state_scheme res" where
  "cmd_exec s =
     (if cwd s = nullptr then say [line ''no fs''] s
      else
        bindR (arg 5 s) (\<lambda>nm.
        bindR (find_file nm s) (\<lambda>(file, s).
        if file = nullptr then say [line ''not found''] s
        else
          bindR (process_create nullptr 0 0 s) (\<lambda>(uproc, s).
          if uproc = nullptr then say [line ''process creation failed''] s
          else
            bindR (get_proc uproc s) (\<lambda>p.
            let old_space = vmm_get_kernel_space s
            in bindR (elf_load_into file (address_space p) no_info (vmm_switch (address_space p) s)) (\<lambda>(ret, info, s).
               let s = vmm_switch old_space s
               in if ret \<noteq> 0
                  then bindR (process_destroy uproc s) (\<lambda>s. say [line ''elf load failed''] s)
                  else
                    bindR (process_set_entry uproc (e_entry info) USER_STACK_TOP s) (\<lambda>s.
                    bindR (get_proc uproc s) (\<lambda>p.
                    say [Txt ''exec PID='', Num (pid p), Txt '' entry=0x'', Num (e_entry info), line ''''] s))))))))"

definition cmd_ring3 :: "'z shell_state_scheme \<Rightarrow> 'z shell_state_scheme res" where
  "cmd_ring3 s =
     bindR (process_create nullptr USER_CODE_ADDR USER_STACK_TOP s) (\<lambda>(uproc, s).
     if uproc \<noteq> nullptr
     then bindR (get_proc uproc s) (\<lambda>p. say [Txt ''user process created PID='', Num (pid p), line ''''] s)
     else say [line ''user process creation failed''] s)"

text \<open>Messages are read from and written to memory: \<open>cmd_addr\<close> is where the linker puts \<open>cmd\<close>, and
  \<open>frame\<close> where the locals \<open>sender\<close> and \<open>buf\<close> of the command \<open>recv\<close> are on the stack. Before a
  message is sent, the memory has the command line at \<open>cmd_addr\<close>.\<close>

definition cmd_send :: "u32 \<Rightarrow> 'z shell_state_scheme \<Rightarrow> 'z shell_state_scheme res" where
  "cmd_send cmd_addr s =
     bindR (arg 5 s) (\<lambda>t.
     let pids = take 15 (takeWhile is_digit t);
         j = length pids
     in if char_at t j \<noteq> CHR '' '' then say [line ''usage: send <pid> <msg>''] s
        else
          bindR (arg (5 + j + 1) s) (\<lambda>msg.
          bindR (store_bytes cmd_addr (map of_char (cmd s)) s) (\<lambda>s.
          bindR (ipc_send (digits_word pids) (cmd_addr + of_nat (5 + j + 1)) (of_nat (length msg + 1)) s) (\<lambda>(ret, s).
          say [line (if ret = 0 then ''sent'' else ''send failed'')] s))))"

definition cmd_recv :: "u32 \<Rightarrow> 'z shell_state_scheme \<Rightarrow> 'z shell_state_scheme res" where
  "cmd_recv frame s =
     bindR (ipc_recv frame (frame + 4) (of_nat IPC_MAX_MSG_SIZE) s) (\<lambda>(ret, s).
     if ret > 0
     then
       bindR (load32 s frame) (\<lambda>sender.
       bindR (load_bytes IPC_MAX_MSG_SIZE (frame + 4) s) (\<lambda>buf.
       bindR (cstr_at (map (\<lambda>b. char_of (unat b)) buf) 0) (\<lambda>msg.
       say [Txt ''from PID '', Num sender, Txt '': '', Txt msg, line ''''] s)))
     else say [line ''no messages''] s)"

section \<open>The remaining commands\<close>

definition cmd_yes :: "'z shell_state_scheme \<Rightarrow> 'z shell_state_scheme res" where
  "cmd_yes s =
     bindR (arg 3 s) (\<lambda>t.
     let t = dropWhile (\<lambda>c. c = CHR '' '') t;
         t = (if t = [] then ''y'' else t)
     in say (concat (replicate 5 [Txt t, line ''''])) s)"

text \<open>Waiting for the keyboard controller, then the reset command.\<close>

partial_function (option) kbc_wait :: "'z hw_state_scheme \<Rightarrow> 'z hw_state_scheme option" where
  "kbc_wait s = (case inb 0x64 s of (good, s) \<Rightarrow> if good AND 0x02 \<noteq> 0 then kbc_wait s else Some s)"

definition reboot_ports :: "'z hw_state_scheme \<Rightarrow> 'z hw_state_scheme res" where
  "reboot_ports s = bindR (returns (kbc_wait s)) (\<lambda>s. Inr (outb 0x64 0xFE s))"

definition execute :: "u32 \<Rightarrow> u32 \<Rightarrow> 'z shell_state_scheme \<Rightarrow> 'z shell_state_scheme res" where
  "execute cmd_addr frame s =
     bindR (arg 0 s) (\<lambda>c.
     if strcmp c ''help'' = 0 then say (map line help_lines) s
     else if strcmp c ''clear'' = 0 then Inr (s\<lparr>console := term_clear (console s)\<rparr>)
     else if strcmp c ''about'' = 0 then say [line ''NemoOS v1.0'', line ''Kernel x86 escrito en C++20''] s
     else if strcmp c ''ticks'' = 0 then say [Num (timer_ticks s), line ''''] s
     else if strcmp c ''mem'' = 0 then say [Txt ''RAM: '', Num (total_memory_mb s), line '' MB''] s
     else if strcmp c ''pages'' = 0 then cmd_pages s
     else if strcmp c ''alloc'' = 0 then cmd_alloc s
     else if strcmp c ''free'' = 0 then cmd_free s
     else if strcmp c ''kmalloc'' = 0 then cmd_kmalloc s
     else if strcmp c ''testheap'' = 0 then cmd_testheap s
     else if strcmp c ''ls'' = 0 then cmd_ls s
     else if strncmp c ''touch '' 6 = 0 then cmd_touch s
     else if strncmp c ''ping '' 5 = 0 then cmd_ping s
     else if strcmp c ''pci'' = 0 then cmd_pci s
     else if strcmp c ''netstat'' = 0 then cmd_netstat s
     else if strcmp c ''lsdisk'' = 0 then cmd_lsdisk s
     else if strncmp c ''rd '' 3 = 0 then cmd_rd s
     else if strcmp c ''ps'' = 0 then cmd_ps s
     else if strncmp c ''kill '' 5 = 0 then cmd_kill s
     else if strncmp c ''elfinfo '' 8 = 0 then cmd_elfinfo s
     else if strncmp c ''send '' 5 = 0 then cmd_send cmd_addr s
     else if strcmp c ''recv'' = 0 then cmd_recv frame s
     else if strncmp c ''exec '' 5 = 0 then cmd_exec s
     else if strcmp c ''ring3'' = 0 then cmd_ring3 s
     else if strcmp c ''halt'' = 0 then bindR (say [line ''CPU halted''] s) (\<lambda>_. Inl Diverges)
     else if strcmp c ''reboot'' = 0
          then bindR (say [line ''rebooting...''] s) (\<lambda>s. bindR (reboot_ports s) (\<lambda>_. Inl Diverges))
     else if strcmp c ''whoami'' = 0 then say [line ''nemo''] s
     else if strcmp c ''uname'' = 0 then say [line ''NemoOS''] s
     else if strcmp c ''uptime'' = 0 then say [Txt ''up '', Num (timer_ticks s), line '' ticks''] s
     else if strcmp c ''true'' = 0 then Inr s
     else if strcmp c ''false'' = 0 then say [line ''false''] s
     else if strncmp c ''yes'' 3 = 0 then cmd_yes s
     else if strncmp c ''wc '' 3 = 0 \<or> strncmp c ''head '' 5 = 0 \<or> strncmp c ''rev '' 4 = 0
          then cmd_wc_head_rev c s
     else if strncmp c ''echo '' 5 = 0 then bindR (arg 5 s) (\<lambda>t. say [Txt t, line ''''] s)
     else if strncmp c ''mkdir '' 6 = 0 then cmd_mkdir s
     else if strncmp c ''cd '' 3 = 0 then cmd_cd s
     else if strcmp c ''pwd'' = 0 then cmd_pwd s
     else if strncmp c ''cat '' 4 = 0 then cmd_cat s
     else if strncmp c ''write '' 6 = 0 then cmd_write c s
     else say [line ''unknown command''] s)"

section \<open>The line editor\<close>

definition shell_on_key :: "u32 \<Rightarrow> u32 \<Rightarrow> char \<Rightarrow> 'z shell_state_scheme \<Rightarrow> 'z shell_state_scheme res" where
  "shell_on_key cmd_addr frame c s =
     (if c = CHR 0x0A
      then
        bindR (print [CHR 0x0A] s) (\<lambda>s.
        bindR (array_set (cmd s) (nat (idx s)) (CHR 0x00)) (\<lambda>cs.
        bindR (execute cmd_addr frame (s\<lparr>cmd := cs\<rparr>)) (\<lambda>s.
        print ''> '' (s\<lparr>idx := 0\<rparr>))))
      else if c = CHR 0x08
      then
        (if idx s > 0
         then let s = s\<lparr>idx := idx s - 1\<rparr>
              in bindR (backspace (console s)) (\<lambda>t. Inr (s\<lparr>console := t\<rparr>))
         else Inr s)
      else if idx s < 255
      then
        bindR (array_set (cmd s) (nat (idx s)) c) (\<lambda>cs.
        let s = s\<lparr>cmd := cs, idx := idx s + 1\<rparr>
        in bindR (putchar c (console s)) (\<lambda>t. Inr (s\<lparr>console := t\<rparr>)))
      else Inr s)"

definition shell_init :: "'z shell_state_scheme \<Rightarrow> 'z shell_state_scheme res" where
  "shell_init s =
     (let s = s\<lparr>idx := 0, cwd := vfs_get_root s\<rparr>
      in bindR (if cwd s = nullptr then say [line ''vfs: no root''] s else Inr s) (print ''> ''))"

partial_function (option) shell_tick_loop :: "u32 \<Rightarrow> u32 \<Rightarrow> 'z shell_state_scheme \<Rightarrow> 'z shell_state_scheme res option" where
  "shell_tick_loop cmd_addr frame s =
     (case keyboard_buffer_pop (kbd_buf s) of
        None \<Rightarrow> Some (Inr s)
      | Some (c, b) \<Rightarrow>
          (case shell_on_key cmd_addr frame c (s\<lparr>kbd_buf := b\<rparr>) of
             Inl e \<Rightarrow> Some (Inl e)
           | Inr s \<Rightarrow> shell_tick_loop cmd_addr frame s))"

definition shell_tick :: "u32 \<Rightarrow> u32 \<Rightarrow> 'z shell_state_scheme \<Rightarrow> 'z shell_state_scheme res" where
  "shell_tick cmd_addr frame s = bindR (returns (shell_tick_loop cmd_addr frame s)) id"

end
