(* ===== verification/Kernel_Main.thy ===== *)
theory Kernel_Main
  imports Shell
begin

text \<open>
  The start of the kernel, \<open>src/src/kernel.cpp\<close>, with the set-up of the interrupt controller and the
  timer (\<open>src/src/interrupts/pic.cpp\<close>, \<open>src/src/drivers/timer.cpp\<close>) and the two programs compiled into
  the kernel. What the linker and the boot code decide, the addresses of tables, symbols and
  stacks, is the argument \<open>im\<close>. \<open>kernel_main\<close> ends by entering the first process: its result is
  the stack pointer from which the assembly restores the registers, with the state.
\<close>

section \<open>Interrupt controller and timer\<close>

definition pic_remap :: "'z hw_state_scheme \<Rightarrow> 'z hw_state_scheme" where
  "pic_remap s =
     fold (\<lambda>(port, v). outb port v)
       [(0x20, 0x11), (0xA0, 0x11), (0x21, 0x20), (0xA1, 0x28), (0x21, 0x04), (0xA1, 0x02),
        (0x21, 0x01), (0xA1, 0x01), (0x21, 0xFC), (0xA1, 0xFF)] s"

definition timer_init :: "u32 \<Rightarrow> 'z hw_state_scheme \<Rightarrow> 'z hw_state_scheme res" where
  "timer_init frequency s =
     (if frequency = 0 then Inl Divide_error
      else
        let divisor = 1193180 div frequency;
            s = outb 0x43 0x36 s;
            s = outb 0x40 (ucast (divisor AND 0xFF)) s
        in Inr (outb 0x40 (ucast (drop_bit 8 divisor AND 0xFF)) s))"

section \<open>The programs in the kernel\<close>

definition hello_elf_data :: "u8 list" where
  "hello_elf_data = [
     127, 69, 76, 70, 1, 1, 1, 0, 0, 0, 0, 0, 0, 0, 0, 0, 2, 0, 3, 0, 1, 0, 0, 0,
     0, 0, 0, 64, 52, 0, 0, 0, 140, 0, 0, 0, 0, 0, 0, 0, 52, 0, 32, 0, 1, 0, 40, 0,
     3, 0, 2, 0, 1, 0, 0, 0, 84, 0, 0, 0, 0, 0, 0, 64, 0, 0, 0, 64, 36, 0, 0, 0,
     36, 0, 0, 0, 7, 0, 0, 0, 1, 0, 0, 0, 184, 2, 0, 0, 0, 187, 20, 0, 0, 64, 185, 15,
     0, 0, 0, 205, 128, 244, 235, 253, 72, 101, 108, 108, 111, 32, 102, 114, 111, 109, 32, 69, 76, 70, 33, 10,
     0, 46, 115, 104, 115, 116, 114, 116, 97, 98, 0, 46, 116, 101, 120, 116, 0, 0, 0, 0, 0, 0, 0, 0,
     0, 0, 0, 0, 0, 0, 0, 0, 0, 0, 0, 0, 0, 0, 0, 0, 0, 0, 0, 0, 0, 0, 0, 0,
     0, 0, 0, 0, 0, 0, 0, 0, 0, 0, 0, 0, 11, 0, 0, 0, 1, 0, 0, 0, 7, 0, 0, 0,
     0, 0, 0, 64, 84, 0, 0, 0, 36, 0, 0, 0, 0, 0, 0, 0, 0, 0, 0, 0, 1, 0, 0, 0,
     0, 0, 0, 0, 1, 0, 0, 0, 3, 0, 0, 0, 0, 0, 0, 0, 0, 0, 0, 0, 120, 0, 0, 0,
     17, 0, 0, 0, 0, 0, 0, 0, 0, 0, 0, 0, 1, 0, 0, 0, 0, 0, 0, 0]"

definition test_elf_data :: "u8 list" where
  "test_elf_data = [
     127, 69, 76, 70, 1, 1, 1, 0, 0, 0, 0, 0, 0, 0, 0, 0, 2, 0, 3, 0, 1, 0, 0, 0,
     0, 0, 0, 64, 52, 0, 0, 0, 0, 0, 0, 0, 0, 0, 0, 0, 52, 0, 32, 0, 1, 0, 0, 0,
     0, 0, 0, 0, 1, 0, 0, 0, 0, 16, 0, 0, 0, 0, 0, 64, 0, 0, 0, 64, 0, 16, 0, 0,
     0, 16, 0, 0, 7, 0, 0, 0, 0, 16, 0, 0]"

section \<open>State\<close>

record boot_state = shell_state +
  gdt :: "gdt_entry list"
  gdtr :: gdt_ptr
  idt :: "idt_entry list"
  idtr :: idt_ptr

record kernel_image =
  im_page_directory :: u32
  im_boot_page_table :: u32
  im_gdt :: u32
  im_tss :: u32
  im_stack_top :: u32
  im_idt :: u32
  im_stubs :: stubs
  im_user_code_start :: u32
  im_user_code_end :: u32
  im_shell_task :: u32
  im_prime_task :: u32
  im_counter_task :: u32

section \<open>The tasks\<close>

text \<open>The message of the shell's process; then it enables interrupts and enters its loop.\<close>

definition shell_task_start :: "'z shell_state_scheme \<Rightarrow> 'z shell_state_scheme res" where
  "shell_task_start s = say [line ''[shell] up''] s"

text \<open>One round of the loop of the shell's process, between two halts: \<open>buf\<close> is what the stack has
  for the packet buffer.\<close>

definition shell_task_round :: "u32 \<Rightarrow> u32 \<Rightarrow> u8 list \<Rightarrow> 'z shell_state_scheme \<Rightarrow> 'z shell_state_scheme res" where
  "shell_task_round cmd_addr frame buf s = bindR (shell_tick cmd_addr frame s) (net_poll buf)"

text \<open>The division loop of \<open>prime_task\<close>, with numbers that wrap, and one round of its outer loop.\<close>

partial_function (option) prime_loop :: "u32 \<Rightarrow> u32 \<Rightarrow> bool res option" where
  "prime_loop i n =
     (if sint (i * i) \<le> sint n
      then if i = 0 then Some (Inl Divide_error)
           else if sint n mod sint i = 0 then Some (Inr False)
           else prime_loop (i + 1) n
      else Some (Inr True))"

definition prime_round :: "'z shell_state_scheme \<Rightarrow> 'z shell_state_scheme res" where
  "prime_round s =
     (let n = stress_current s
      in bindR (bindR (returns (prime_loop 2 n)) id) (\<lambda>prime.
         let s = (if prime then s\<lparr>stress_prime_count := stress_prime_count s + 1\<rparr> else s)
         in Inr (s\<lparr>stress_current := n + 1\<rparr>)))"

definition counter_round :: "'z shell_state_scheme \<Rightarrow> 'z shell_state_scheme" where
  "counter_round s = s\<lparr>stress_counter := stress_counter s + 1\<rparr>"

section \<open>Setting up the file system\<close>

text \<open>A file with the contents \<open>data\<close> in directory \<open>dir\<close>; errors are ignored.\<close>

definition install_file :: "u32 \<Rightarrow> string \<Rightarrow> u8 list \<Rightarrow> 'z fs_state_scheme \<Rightarrow> 'z fs_state_scheme res" where
  "install_file dir nm data s =
     bindR (ramfs_create_file dir nm s) (\<lambda>(node, s).
     if node = nullptr then Inr s
     else
       bindR (get_node node s) (\<lambda>v.
       bindR (case n_write v of None \<Rightarrow> Inl Out_of_bounds | Some f \<Rightarrow> call_write f node 0 (of_nat (length data)) data s)
         (\<lambda>(_, s). Inr s)))"

definition init_files :: "'z fs_state_scheme \<Rightarrow> 'z fs_state_scheme res" where
  "init_files s =
     bindR (ramfs_create_root (vfs_init s)) (\<lambda>(root, s).
     if root = nullptr then Inr s
     else
       bindR (vfs_mount (Some ''/'') root s) (\<lambda>(_, s).
       bindR (ramfs_create_dir root ''mnt'' s) (\<lambda>(_, s).
       bindR (ramfs_create_dir root ''bin'' s) (\<lambda>(bin_dir, s).
       bindR (if bin_dir \<noteq> nullptr then install_file bin_dir ''hello.elf'' hello_elf_data s else Inr s) (\<lambda>s.
       bindR (ramfs_create_dir root ''tmp'' s) (\<lambda>(_, s).
       install_file root ''test.elf'' test_elf_data s))))))"

section \<open>Drivers\<close>

fun ata_report :: "int list \<Rightarrow> 'z shell_state_scheme \<Rightarrow> 'z shell_state_scheme res" where
  "ata_report [] s = Inr s"
| "ata_report (i # is) s =
     bindR (ata_get_device i s) (\<lambda>r.
     case r of
       None \<Rightarrow> Inl Out_of_bounds
     | Some d \<Rightarrow>
         bindR (cstr_at (a_model d) 0) (\<lambda>model.
         bindR (say [Txt ''ata'', Num (of_int i), Txt '': '', Txt model, Txt '' ('', Num (a_sectors d div 2048), line ''MB)''] s)
           (ata_report is)))"

fun rtl_report :: "int list \<Rightarrow> 'z shell_state_scheme \<Rightarrow> 'z shell_state_scheme res" where
  "rtl_report [] s = Inr s"
| "rtl_report (i # is) s =
     (case rtl8139_get_device i s of
        None \<Rightarrow> Inl Out_of_bounds
      | Some k \<Rightarrow>
          bindR (array_get (rtl_devices s) (nat k)) (\<lambda>d.
          bindR (say ([Txt ''rtl8139: ''] @ mac_text (rtl_mac d) @ [line '''']) s) (rtl_report is)))"

definition init_disks :: "'z shell_state_scheme \<Rightarrow> 'z shell_state_scheme res" where
  "init_disks s =
     bindR (ata_init s) (\<lambda>(ata_count, s).
     if ata_count > 0
     then
       bindR (ata_report [0..ata_count - 1] s) (\<lambda>s.
       bindR (fat32_mount 0 0 s) (\<lambda>(fat_root, s).
       if fat_root \<noteq> nullptr
       then bindR (say [line ''fat32: mounted on /mnt''] s) (\<lambda>s.
            bindR (vfs_mount (Some ''/mnt'') fat_root s) (\<lambda>(_, s). Inr s))
       else Inr s))
     else say [line ''ata: no devices''] s)"

definition init_network :: "'z shell_state_scheme \<Rightarrow> 'z shell_state_scheme res" where
  "init_network s =
     bindR (pci_init s) (\<lambda>(count, s).
     bindR (if count > 0 then say [Txt ''pci: '', Num (of_int count), line '' devices''] s
            else say [line ''pci: no devices''] s) (\<lambda>s.
     bindR (rtl8139_init_all s) (\<lambda>(count, s).
     bindR (if count > 0 then rtl_report [0..count - 1] s else say [line ''rtl8139: no device''] s) (\<lambda>s.
     net_init s))))"

section \<open>The first processes\<close>

text \<open>A message queue for \<open>proc\<close>, in the memory \<open>kmalloc\<close> has cleared.\<close>

definition zero_queue :: ipc_queue where
  "zero_queue = \<lparr>msgs = replicate 16 \<lparr>sender_pid = 0, msg_size = 0, msg_data = replicate 64 0\<rparr>, qhead = 0, qtail = 0, qcount = 0\<rparr>"

definition give_queue :: "u32 \<Rightarrow> 'z proc_state_scheme \<Rightarrow> 'z proc_state_scheme res" where
  "give_queue proc s =
     bindR (kmalloc 1164 s) (\<lambda>(q, s).
     if q = nullptr then Inr s
     else set_proc proc (\<lambda>x. x\<lparr>msg_queue := q\<rparr>) (s\<lparr>queues := (queues s)(q \<mapsto> ipc_queue_init zero_queue)\<rparr>))"

definition start_processes :: "kernel_image \<Rightarrow> 'z shell_state_scheme \<Rightarrow> (u32 \<times> 'z shell_state_scheme) res" where
  "start_processes im s =
     bindR (process_create_kernel (im_shell_task im) s) (\<lambda>(shell_proc, s).
     if shell_proc = nullptr
     then bindR (say [line ''kernel: process creation failed''] s) (\<lambda>_. Inl Diverges)
     else
       bindR (give_queue shell_proc s) (\<lambda>s.
       bindR (process_create_kernel (im_prime_task im) s) (\<lambda>(prime_proc, s).
       bindR (process_create_kernel (im_counter_task im) s) (\<lambda>(counter_proc, s).
       bindR (if prime_proc \<noteq> nullptr then give_queue prime_proc s else Inr s) (\<lambda>s.
       bindR (if counter_proc \<noteq> nullptr then give_queue counter_proc s else Inr s) (\<lambda>s.
       bindR (if prime_proc = nullptr then say [line ''kernel: failed to create prime task''] s else Inr s) (\<lambda>s.
       bindR (if counter_proc = nullptr then say [line ''kernel: failed to create counter task''] s else Inr s) (\<lambda>s.
       bindR (say [line ''[kernel] system ready''] s) (\<lambda>s.
       process_first_enter shell_proc s)))))))))"

section \<open>kernel\_main\<close>

definition init_tables :: "kernel_image \<Rightarrow> 'z boot_state_scheme \<Rightarrow> 'z boot_state_scheme res" where
  "init_tables im s =
     bindR (gdt_init (im_gdt im) (gdt s)) (\<lambda>(p, g).
     bindR (tss_init (im_tss im) (im_stack_top im) (tss s) g) (\<lambda>(t, g).
     let s = s\<lparr>gdtr := p, gdt := g, tss := t\<rparr>
     in bindR (idt_init (im_idt im) (im_stubs im) (idt s)) (\<lambda>(p, i).
        Inr (s\<lparr>idtr := p, idt := i\<rparr>))))"

definition init_memory :: "kernel_image \<Rightarrow> 'z vmm_state_scheme \<Rightarrow> 'z vmm_state_scheme res" where
  "init_memory im s =
     bindR (pmm_init (total_memory_mb s) s) (\<lambda>s.
     bindR (paging_init (im_page_directory im) (im_boot_page_table im) s) (\<lambda>s.
     kmalloc_init (vmm_init s)))"

definition kernel_main :: "kernel_image \<Rightarrow> u32 \<Rightarrow> u32 \<Rightarrow> 'z boot_state_scheme \<Rightarrow> (u32 \<times> 'z boot_state_scheme) res" where
  "kernel_main im magic addr s =
     (let s = s\<lparr>console := term_init (console s)\<rparr>
      in if magic \<noteq> 0x2BADB002 then Inl (Panic ''Invalid multiboot magic'')
         else
           let s = multiboot_init addr s
           in if total_memory_mb s = 0 then Inl (Panic ''Memory detection failed'')
              else
                bindR (init_memory im s) (\<lambda>s.
                bindR (init_files s) (\<lambda>s.
                bindR (init_tables im s) (\<lambda>s.
                bindR (timer_init 100 (pic_remap s)) (\<lambda>s.
                bindR (user_map_pages (im_user_code_start im) (im_user_code_end im) (sleep_init s)) (\<lambda>s.
                bindR (init_disks s) (\<lambda>s.
                bindR (init_network s) (\<lambda>s.
                bindR (say [line ''NemoOS v1.0''] s) (\<lambda>s.
                bindR (shell_init s) (\<lambda>s.
                start_processes im (scheduler_init s)))))))))))"

end
