(* ===== verification/Heap_Frame.thy ===== *)
theory Heap_Frame
  imports Kmalloc_Correct
begin

text \<open>
  What the heap operations leave alone: every part of the state beyond the heap's own, whatever the
  heap looks like. The clients of \<open>kmalloc\<close> and \<open>kfree\<close> keep their own state by these facts.
\<close>

lemma pmm_alloc_heap_more:
  fixes s :: "'z heap_state_scheme"
  shows "pmm_alloc_page s = Inr (p, s') \<Longrightarrow> heap_state.more s' = heap_state.more s"
  by (auto simp: pmm_alloc_page_def bindR_eq_Inr split: option.splits)

lemma pmm_free_heap_more:
  fixes s :: "'z heap_state_scheme"
  shows "pmm_free_page p s = Inr s' \<Longrightarrow> heap_state.more s' = heap_state.more s"
  by (auto simp: pmm_free_page_def bindR_eq_Inr Let_def split: if_splits)

lemma list_append_more: "list_append h s = Inr s' \<Longrightarrow> heap_state.more s' = heap_state.more s"
  by (auto simp: list_append_def Let_def bindR_eq_Inr split: if_splits)

lemma list_remove_more: "heap_state.more (list_remove h s) = heap_state.more s"
  by (simp add: list_remove_def Let_def)

lemma grow_contiguous_more: "grow_contiguous a is s = Inr (b, s') \<Longrightarrow> heap_state.more s' = heap_state.more s"
  by (induction "is" arbitrary: s)
    (auto simp: bindR_eq_Inr split: if_splits dest!: pmm_alloc_heap_more pmm_free_heap_more)

lemma grow_single_pages_more: "grow_single_pages n s = Inr s' \<Longrightarrow> heap_state.more s' = heap_state.more s"
  by (induction n arbitrary: s)
    (auto simp: bindR_eq_Inr Let_def split: if_splits dest!: pmm_alloc_heap_more list_append_more)

lemma heap_grow_more: "heap_grow s = Inr s' \<Longrightarrow> heap_state.more s' = heap_state.more s"
  unfolding heap_grow_def Let_def
  by (auto simp: bindR_eq_Inr split: if_splits
      dest!: pmm_alloc_heap_more grow_contiguous_more grow_single_pages_more list_append_more)

lemma kmalloc_take_more: "heap_state.more (snd (kmalloc_take n h s)) = heap_state.more s"
  by (simp add: kmalloc_take_def Let_def list_remove_more)

lemma kmalloc_more: "kmalloc sz s = Inr (p, s') \<Longrightarrow> heap_state.more s' = heap_state.more s"
proof -
  have t: "heap_state.more s' = heap_state.more t" if "kmalloc_take n h t = (p, s')" for n h t
    using kmalloc_take_more[of n h t] that by simp
  assume "kmalloc sz s = Inr (p, s')"
  then show ?thesis
    unfolding kmalloc_def Let_def
    by (auto simp: bindR_eq_Inr split: if_splits dest!: heap_grow_more t)
qed

lemma kfree_more: "kfree p s = Inr s' \<Longrightarrow> heap_state.more s' = heap_state.more s"
  unfolding kfree_def Let_def by (simp only: split: if_split_asm) (auto dest!: list_append_more simp: list_remove_more)

text \<open>The heap invariant is about the heap's own part of the state.\<close>

lemma heap_inv_cong:
  fixes s :: "'z heap_state_scheme" and t :: "'y heap_state_scheme"
  assumes "bitmap t = bitmap s" "total_pages t = total_pages s" "used_pages t = used_pages s" "mem t = mem s" "free_list t = free_list s"
  shows "heap_inv t hs al \<longleftrightarrow> heap_inv s hs al"
proof -
  have "used_set t = used_set s" using assms by (simp add: used_set_def)
  then have "pmm_inv t = pmm_inv s" "used_bytes t = used_bytes s"
    using assms by (simp_all add: pmm_inv_def used_bytes_def)
  then show ?thesis using assms by (simp add: heap_inv_def)
qed

end
