(* ===== verification/Ramfs_Correct.thy ===== *)
theory Ramfs_Correct
  imports Vfs_Resolve Heap_Frame
begin

text \<open>
  Correctness of the file system in memory. \<open>ramfs_wf\<close> says that the nodes form directories with
  finite lists of children, that every node has the functions of its kind and at most 256
  bytes, and that every object is in a block of the heap. Creating a node keeps it; the new
  node is found by its name, and a file gives back what was written to it.
\<close>

section \<open>Well-formed file systems\<close>

lemma fs_more:
  fixes s t :: "'z fs_state_scheme"
  assumes "heap_state.more t = heap_state.more s"
  shows "objects t = objects s" "node_pool t = node_pool s" "pool_count t = pool_count s" "root_node t = root_node s"
    "mounts t = mounts s"
  using assms by (cases s; cases t; simp)+

text \<open>\<open>sibs ob p cs\<close>: the list that starts at \<open>p\<close> and goes on by \<open>next_sibling\<close> consists of \<open>cs\<close>.\<close>

fun sibs :: "(u32 \<Rightarrow> fs_object option) \<Rightarrow> u32 \<Rightarrow> u32 list \<Rightarrow> bool" where
  "sibs ob p [] \<longleftrightarrow> p = nullptr"
| "sibs ob p (c # cs) \<longleftrightarrow> p = c \<and> c \<noteq> nullptr \<and> (\<exists>r. ob c = Some (Ramfs_obj r) \<and> sibs ob (next_sibling r) cs)"

definition is_ramfs_dir :: "(u32 \<Rightarrow> fs_object option) \<Rightarrow> u32 \<Rightarrow> bool" where
  "is_ramfs_dir ob a \<longleftrightarrow> (\<exists>r. ob a = Some (Ramfs_obj r) \<and> n_flags (r_vnode r) = FS_DIR)"

definition kind_ok :: "vfs_node \<Rightarrow> bool" where
  "kind_ok v \<longleftrightarrow>
     (n_flags v = FS_FILE \<and> n_read v = Some Ramfs_read \<and> n_write v = Some Ramfs_write \<and> n_readdir v = None \<and> n_finddir v = None)
   \<or> (n_flags v = FS_DIR \<and> n_read v = None \<and> n_write v = None \<and> n_readdir v = Some Ramfs_readdir \<and> n_finddir v = Some Ramfs_finddir)"

definition node_ok :: "(u32 \<Rightarrow> fs_object option) \<Rightarrow> u32 \<Rightarrow> ramfs_node \<Rightarrow> bool" where
  "node_ok ob a r \<longleftrightarrow> a \<noteq> nullptr \<and> kind_ok (r_vnode r) \<and> length (n_name (r_vnode r)) < 128
     \<and> length (r_data r) = 256 \<and> n_size (r_vnode r) \<le> 256
     \<and> n_parent (r_vnode r) = r_parent r \<and> is_ramfs_dir ob (r_parent r)
     \<and> (\<exists>cs. sibs ob (first_child r) cs \<and> (\<forall>c \<in> set cs. \<exists>x. ob c = Some (Ramfs_obj x) \<and> r_parent x = a))"

definition ramfs_wf :: "'z fs_state_scheme \<Rightarrow> u32 set \<Rightarrow> bool" where
  "ramfs_wf s al \<longleftrightarrow> length (node_pool s) = 128 \<and> 0 \<le> pool_count s \<and> pool_count s \<le> 128
     \<and> (\<forall>a. objects s a \<noteq> None \<longrightarrow> a - 16 \<in> al)
     \<and> (\<forall>a r. objects s a = Some (Ramfs_obj r) \<longrightarrow> node_ok (objects s) a r)"

lemma sibs_keep:
  assumes "\<And>c r. c \<in> set cs \<Longrightarrow> ob c = Some (Ramfs_obj r) \<Longrightarrow> \<exists>r'. ob' c = Some (Ramfs_obj r') \<and> next_sibling r' = next_sibling r"
  shows "sibs ob p cs \<Longrightarrow> sibs ob' p cs"
  using assms
proof (induction cs arbitrary: p)
  case (Cons c cs)
  then obtain r where r: "p = c" "c \<noteq> nullptr" "ob c = Some (Ramfs_obj r)" "sibs ob (next_sibling r) cs" by auto
  obtain r' where "ob' c = Some (Ramfs_obj r')" "next_sibling r' = next_sibling r"
    using Cons.prems(2)[of c r] r(3) by auto
  moreover have "sibs ob' (next_sibling r) cs" using Cons.IH[OF r(4)] Cons.prems(2) by simp
  ultimately show ?case using r(1,2) by simp
qed simp

section \<open>Creating nodes\<close>

text \<open>What the two creating functions have in common: \<open>v n nm\<close> is the node made at address \<open>n\<close>.\<close>

definition create_node :: "(u32 \<Rightarrow> string \<Rightarrow> vfs_node) \<Rightarrow> u32 \<Rightarrow> string \<Rightarrow> 'z fs_state_scheme \<Rightarrow> (u32 \<times> 'z fs_state_scheme) res" where
  "create_node v par nm s =
     bindR (alloc_node s) (\<lambda>(n, s).
     if n = nullptr then Inr (nullptr, s)
     else
       bindR (strcpy_to 128 nm) (\<lambda>nm.
       bindR (get_ramfs par s) (\<lambda>pn.
       bindR (set_ramfs n (\<lambda>r. r\<lparr>r_vnode := v n nm,
               next_sibling := first_child pn, first_child := nullptr, r_parent := par\<rparr>) s) (\<lambda>s.
       bindR (set_ramfs par (\<lambda>r. r\<lparr>first_child := n\<rparr>) s) (\<lambda>s.
       Inr (n, s))))))"

definition file_vnode :: "u32 \<Rightarrow> u32 \<Rightarrow> string \<Rightarrow> vfs_node" where
  "file_vnode par n nm = \<lparr>n_name = nm, n_flags = FS_FILE, n_size = 0, n_inode = n, n_impl = 0,
     n_parent = par, n_destroy = Some Ramfs_destroy, n_read = Some Ramfs_read,
     n_write = Some Ramfs_write, n_readdir = None, n_finddir = None\<rparr>"

definition dir_vnode :: "u32 \<Rightarrow> u32 \<Rightarrow> string \<Rightarrow> vfs_node" where
  "dir_vnode par n nm = \<lparr>n_name = nm, n_flags = FS_DIR, n_size = 0, n_inode = n, n_impl = 0,
     n_parent = par, n_destroy = Some Ramfs_destroy, n_read = None, n_write = None,
     n_readdir = Some Ramfs_readdir, n_finddir = Some Ramfs_finddir\<rparr>"

lemma flags_and [simp]: "FS_DIR \<noteq> 0" "FS_FILE \<noteq> 0" "FS_FILE AND FS_DIR = 0" "FS_DIR AND FS_FILE = 0"
  "FS_DIR \<noteq> FS_FILE" "FS_FILE \<noteq> FS_DIR"
  by (simp_all add: FS_DIR_def FS_FILE_def)

lemma create_as_node:
  assumes "is_ramfs_dir (objects s) par" and "par \<noteq> nullptr"
  shows "ramfs_create_file par nm s = create_node (file_vnode par) par nm s"
    "ramfs_create_dir par nm s = create_node (dir_vnode par) par nm s"
  using assms unfolding ramfs_create_file_def ramfs_create_dir_def create_node_def file_vnode_def dir_vnode_def
  by (auto simp: get_node_def is_ramfs_dir_def)

text \<open>There is a free entry in the pool and a free block for a node.\<close>

definition node_room :: "u32 list \<Rightarrow> 'z fs_state_scheme \<Rightarrow> bool" where
  "node_room hs s \<longleftrightarrow> pool_count s < 128 \<and> (\<exists>h \<in> set hs. needed_bytes 436 \<le> h_size (mem s) h)"

text \<open>What creating a node does to the store.\<close>

definition with_node :: "memory \<Rightarrow> (u32 \<Rightarrow> fs_object option) \<Rightarrow> u32 \<Rightarrow> vfs_node \<Rightarrow> u32 \<Rightarrow> ramfs_node \<Rightarrow> (u32 \<Rightarrow> fs_object option)" where
  "with_node m ob n v par pn = ob(
     n \<mapsto> Ramfs_obj ((raw_node n m)\<lparr>r_vnode := v, next_sibling := first_child pn, first_child := nullptr, r_parent := par\<rparr>),
     par \<mapsto> Ramfs_obj (pn\<lparr>first_child := n\<rparr>))"

lemma alloc_node_ok:
  assumes inv: "heap_inv s hs al" and wf: "ramfs_wf s al"
  obtains n s' hs' al' m where "alloc_node s = Inr (n, s')" "heap_inv s' hs' al'" "al \<subseteq> al'" "mounts s' = mounts s"
    "node_room hs s \<longrightarrow> n \<noteq> nullptr"
    "n = nullptr \<and> objects s' = objects s \<and> ramfs_wf s' al'
     \<or> n \<noteq> nullptr \<and> objects s n = None \<and> n - 16 \<in> al' \<and> objects s' = (objects s)(n \<mapsto> Ramfs_obj (raw_node n m))
       \<and> length (node_pool s') = 128 \<and> 0 \<le> pool_count s' \<and> pool_count s' \<le> 128"
proof (cases "pool_count s \<ge> 128")
  case True
  then show thesis using that[of nullptr s hs al] inv wf by (simp add: alloc_node_def node_room_def)
next
  case False
  obtain p t hs' where k: "kmalloc 436 s = Inr (p, t)"
    "if p = nullptr then heap_inv t hs' al else gives al (needed_bytes 436) p hs' t"
    "(\<exists>h \<in> set hs. needed_bytes 436 \<le> h_size (mem s) h) \<longrightarrow> p \<noteq> nullptr"
    using kmalloc_ok[OF inv, of 436] by auto
  note fm = fs_more[OF kmalloc_more[OF k(1)]]
  show thesis
  proof (cases "p = nullptr")
    case True
    have "ramfs_wf t al" using wf fm by (simp add: ramfs_wf_def)
    then show thesis using that[of nullptr t hs' al] True False k fm by (simp add: alloc_node_def node_room_def)
  next
    case p: False
    let ?t = "t\<lparr>objects := (objects t)(p \<mapsto> Ramfs_obj (raw_node p (mem t))),
                       node_pool := (node_pool t)[nat (pool_count t) := p], pool_count := pool_count t + 1\<rparr>"
    have pc: "0 \<le> pool_count s" "length (node_pool s) = 128" using wf by (simp_all add: ramfs_wf_def)
    have g: "heap_inv t hs' (insert (p - 16) al)" "p - 16 \<notin> al" using k(2) p by (auto simp: gives_def)
    have a: "alloc_node s = Inr (p, ?t)" using False p k(1) pc fm by (simp add: alloc_node_def)
    have h: "heap_inv ?t hs' (insert (p - 16) al)" using g(1) by (subst heap_inv_cong[of ?t t]) simp_all
    have "objects s p = None" using wf g(2) unfolding ramfs_wf_def by blast
    then show thesis using that[where m = "mem t", OF a h] fm p False pc by auto
  qed
qed

definition vnode_for :: "vfs_node \<Rightarrow> u32 \<Rightarrow> string \<Rightarrow> bool" where
  "vnode_for v par nm \<longleftrightarrow> kind_ok v \<and> n_name v = nm \<and> n_size v = 0 \<and> n_parent v = par"

lemma vnode_for_new [simp]: "vnode_for (file_vnode par n nm) par nm" "vnode_for (dir_vnode par n nm) par nm"
  by (simp_all add: vnode_for_def file_vnode_def dir_vnode_def kind_ok_def)

lemma with_node_keeps:
  assumes "ob n = None" "ob par = Some (Ramfs_obj pn)" "ob c = Some (Ramfs_obj r)"
  shows "with_node m ob n v par pn c = Some (Ramfs_obj (if c = par then r\<lparr>first_child := n\<rparr> else r))"
  using assms by (auto simp: with_node_def)

lemma with_node_ok:
  assumes fresh: "ob n = None" "n \<noteq> nullptr" and par: "ob par = Some (Ramfs_obj pn)" "n_flags (r_vnode pn) = FS_DIR"
    and v: "vnode_for v par nm" "length nm < 128"
    and ok: "\<And>a r. ob a = Some (Ramfs_obj r) \<Longrightarrow> node_ok ob a r"
    and a: "with_node m ob n v par pn a = Some (Ramfs_obj r)"
  shows "node_ok (with_node m ob n v par pn) a r"
proof -
  let ?ob = "with_node m ob n v par pn"
  note keep = with_node_keeps[OF fresh(1) par(1), of _ _ m v]
  have np: "n \<noteq> par" using fresh par by auto
  have dir: "is_ramfs_dir ?ob x" if "is_ramfs_dir ob x" for x
    using that keep[of x] unfolding is_ramfs_dir_def by (auto split: if_splits)
  have sib: "sibs ?ob p cs" if "sibs ob p cs" for p cs
    using that by (rule sibs_keep[rotated]) (auto dest!: keep)
  have kids: "\<exists>x. ?ob c = Some (Ramfs_obj x) \<and> r_parent x = b" if "\<exists>x. ob c = Some (Ramfs_obj x) \<and> r_parent x = b" for b c
    using that keep[of c] by auto
  have old: "node_ok ?ob b x" if x: "ob b = Some (Ramfs_obj x)" for b x
  proof -
    note b = ok[OF x, unfolded node_ok_def]
    then obtain cs where cs: "sibs ob (first_child x) cs" "\<forall>c \<in> set cs. \<exists>y. ob c = Some (Ramfs_obj y) \<and> r_parent y = b" by blast
    have "sibs ?ob (first_child x) cs" "\<forall>c \<in> set cs. \<exists>y. ?ob c = Some (Ramfs_obj y) \<and> r_parent y = b"
      using sib[OF cs(1)] cs(2) kids by blast+
    then show ?thesis unfolding node_ok_def using b dir by blast
  qed
  consider "a = n" | "a = par" | "a \<noteq> n" "a \<noteq> par" by blast
  then show ?thesis
  proof cases
    case 1
    then have r: "r = (raw_node n m)\<lparr>r_vnode := v, next_sibling := first_child pn, first_child := nullptr, r_parent := par\<rparr>"
      using a np by (simp add: with_node_def)
    have "is_ramfs_dir ob par" using par by (simp add: is_ramfs_dir_def)
    then have "is_ramfs_dir ?ob par" by (rule dir)
    then show ?thesis using 1 r v fresh(2) by (auto simp: node_ok_def vnode_for_def raw_node_def intro!: exI[of _ "[]"])
  next
    case 2
    have pk: "node_ok ?ob par pn" by (rule old[OF par(1)])
    then obtain cs where cs: "sibs ?ob (first_child pn) cs" "\<forall>c \<in> set cs. \<exists>y. ?ob c = Some (Ramfs_obj y) \<and> r_parent y = par"
      unfolding node_ok_def by blast
    have n: "?ob n = Some (Ramfs_obj ((raw_node n m)\<lparr>r_vnode := v, next_sibling := first_child pn, first_child := nullptr, r_parent := par\<rparr>))"
      using np by (simp add: with_node_def)
    have "sibs ?ob n (n # cs)" "\<forall>c \<in> set (n # cs). \<exists>y. ?ob c = Some (Ramfs_obj y) \<and> r_parent y = par"
      using cs n fresh(2) by simp_all
    moreover have "r = pn\<lparr>first_child := n\<rparr>" using a 2 by (simp add: with_node_def)
    ultimately show ?thesis using pk 2 unfolding node_ok_def by (auto intro!: exI[of _ "n # cs"])
  next
    case 3
    then have "ob a = Some (Ramfs_obj r)" using a by (simp add: with_node_def)
    then show ?thesis by (rule old)
  qed
qed

lemma create_node_ok:
  assumes inv: "heap_inv s hs al" and wf: "ramfs_wf s al"
    and par: "objects s par = Some (Ramfs_obj pn)" "n_flags (r_vnode pn) = FS_DIR"
    and v: "\<And>n. vnode_for (v n nm) par nm" "length nm < 128"
  obtains n s' hs' al' m where "create_node v par nm s = Inr (n, s')" "heap_inv s' hs' al'" "ramfs_wf s' al'" "mounts s' = mounts s"
    "node_room hs s \<longrightarrow> n \<noteq> nullptr"
    "n = nullptr \<and> objects s' = objects s
     \<or> n \<noteq> nullptr \<and> objects s n = None \<and> objects s' = with_node m (objects s) n (v n nm) par pn"
proof -
  obtain n t hs' al' m where t: "alloc_node s = Inr (n, t)" "heap_inv t hs' al'" "al \<subseteq> al'" "mounts t = mounts s"
    "node_room hs s \<longrightarrow> n \<noteq> nullptr"
    "n = nullptr \<and> objects t = objects s \<and> ramfs_wf t al'
     \<or> n \<noteq> nullptr \<and> objects s n = None \<and> n - 16 \<in> al' \<and> objects t = (objects s)(n \<mapsto> Ramfs_obj (raw_node n m))
       \<and> length (node_pool t) = 128 \<and> 0 \<le> pool_count t \<and> pool_count t \<le> 128"
    by (rule alloc_node_ok[OF inv wf])
  show thesis
  proof (cases "n = nullptr")
    case True
    then show thesis using t that[of nullptr t hs' al'] by (simp add: create_node_def)
  next
    case False
    then have n: "objects s n = None" "n - 16 \<in> al'" "objects t = (objects s)(n \<mapsto> Ramfs_obj (raw_node n m))"
      "length (node_pool t) = 128" "0 \<le> pool_count t" "pool_count t \<le> 128" using t(6) by auto
    have np: "par \<noteq> n" using n(1) par(1) by auto
    let ?ob = "with_node m (objects s) n (v n nm) par pn"
    let ?s = "t\<lparr>objects := ?ob\<rparr>"
    have c: "create_node v par nm s = Inr (n, ?s)"
      using t(1) False np n(3) par(1) v(2)
      by (simp add: create_node_def strcpy_to_def get_ramfs_def set_ramfs_def with_node_def)
    have h: "heap_inv ?s hs' al'" using t(2) by (subst heap_inv_cong[of ?s t]) simp_all
    have ok: "\<And>a r. objects s a = Some (Ramfs_obj r) \<Longrightarrow> node_ok (objects s) a r" using wf by (simp add: ramfs_wf_def)
    have dom: "a - 16 \<in> al'" if "?ob a \<noteq> None" for a
      using that wf t(3) n(2) par(1) unfolding ramfs_wf_def by (auto simp: with_node_def split: if_splits)
    have "ramfs_wf ?s al'"
      using dom with_node_ok[OF n(1) False par v(1) v(2) ok] n(4-6) unfolding ramfs_wf_def by auto
    then show thesis using that[where m = m, OF c h] t(4) n(1) False by simp
  qed
qed

section \<open>Looking up names\<close>

lemma finddir_loop_sibs:
  "sibs (objects s) p cs \<Longrightarrow>
   \<exists>c. finddir_loop p nm s = Some (Inr c)
     \<and> (c = nullptr \<and> (\<forall>x \<in> set cs. \<forall>r. objects s x = Some (Ramfs_obj r) \<longrightarrow> n_name (r_vnode r) \<noteq> nm)
        \<or> c \<in> set cs \<and> c \<noteq> nullptr \<and> (\<exists>r. objects s c = Some (Ramfs_obj r) \<and> n_name (r_vnode r) = nm))"
proof (induction cs arbitrary: p)
  case Nil
  then show ?case by (subst finddir_loop.simps) simp
next
  case (Cons d cs)
  then obtain r where r: "p = d" "d \<noteq> nullptr" "objects s d = Some (Ramfs_obj r)" "sibs (objects s) (next_sibling r) cs" by auto
  show ?case
  proof (cases "n_name (r_vnode r) = nm")
    case True
    then show ?thesis using r by (subst finddir_loop.simps) (simp add: get_ramfs_def)
  next
    case False
    then have "finddir_loop p nm s = finddir_loop (next_sibling r) nm s"
      using r by (subst finddir_loop.simps) (simp add: get_ramfs_def)
    then show ?thesis using Cons.IH[OF r(4)] r False by auto
  qed
qed

lemma finddir_loop_cong:
  assumes "sibs (objects s) p cs" and "\<And>c. c \<in> set cs \<Longrightarrow>
    \<exists>r r'. objects s c = Some (Ramfs_obj r) \<and> objects t c = Some (Ramfs_obj r') \<and> next_sibling r' = next_sibling r \<and> r_vnode r' = r_vnode r"
  shows "finddir_loop p nm t = finddir_loop p nm s"
  using assms
proof (induction cs arbitrary: p)
  case Nil
  then show ?case by (subst (1 2) finddir_loop.simps) simp
next
  case (Cons d cs)
  then obtain r r' where r: "p = d" "d \<noteq> nullptr" "objects s d = Some (Ramfs_obj r)" "sibs (objects s) (next_sibling r) cs"
    "objects t d = Some (Ramfs_obj r')" "next_sibling r' = next_sibling r" "r_vnode r' = r_vnode r" by fastforce
  have "finddir_loop (next_sibling r) nm t = finddir_loop (next_sibling r) nm s"
    using Cons.IH[OF r(4)] Cons.prems(2) by simp
  then show ?case using r by (subst (1 2) finddir_loop.simps) (simp add: get_ramfs_def)
qed

lemma ramfs_finddir_dir:
  assumes "objects s a = Some (Ramfs_obj r)" "n_flags (r_vnode r) = FS_DIR" "a \<noteq> nullptr"
  shows "ramfs_finddir a nm s = bindR (returns (finddir_loop (first_child r) nm s)) id"
  using assms by (simp add: ramfs_finddir_def get_node_def get_ramfs_def)

text \<open>A lookup in a well-formed directory returns: a child with the name, or null.\<close>

lemma ramfs_finddir_ok:
  assumes wf: "ramfs_wf s al" and a: "objects s a = Some (Ramfs_obj r)" "n_flags (r_vnode r) = FS_DIR"
  obtains c where "ramfs_finddir a nm s = Inr c"
    "c \<noteq> nullptr \<longrightarrow> (\<exists>x. objects s c = Some (Ramfs_obj x) \<and> n_name (r_vnode x) = nm \<and> r_parent x = a)"
proof -
  have ok: "node_ok (objects s) a r" using wf a(1) by (simp add: ramfs_wf_def)
  then obtain cs where cs: "sibs (objects s) (first_child r) cs"
    "\<forall>c \<in> set cs. \<exists>x. objects s c = Some (Ramfs_obj x) \<and> r_parent x = a" unfolding node_ok_def by blast
  have nz: "a \<noteq> nullptr" using ok by (simp add: node_ok_def)
  obtain c where c: "finddir_loop (first_child r) nm s = Some (Inr c)"
    "c = nullptr \<or> c \<in> set cs \<and> (\<exists>r. objects s c = Some (Ramfs_obj r) \<and> n_name (r_vnode r) = nm)"
    using finddir_loop_sibs[OF cs(1), of nm] by blast
  show thesis
    by (rule that[of c]) (use ramfs_finddir_dir[OF a nz] c cs(2) in auto)
qed

text \<open>After a node is created, its name finds it and every other name finds what it found.\<close>

lemma finddir_created:
  fixes s t :: "'z fs_state_scheme"
  assumes wf: "ramfs_wf s al" and par: "objects s par = Some (Ramfs_obj pn)" "n_flags (r_vnode pn) = FS_DIR"
    and t: "objects t = with_node m (objects s) n v par pn" "objects s n = None" "n \<noteq> nullptr" and v: "n_name v = nm"
  shows "ramfs_finddir par nm t = Inr n" "nm' \<noteq> nm \<Longrightarrow> ramfs_finddir par nm' t = ramfs_finddir par nm' s"
proof -
  have ok: "node_ok (objects s) par pn" using wf par by (simp add: ramfs_wf_def)
  then obtain cs where cs: "sibs (objects s) (first_child pn) cs" and nz: "par \<noteq> nullptr" unfolding node_ok_def by blast
  have np: "n \<noteq> par" using t(2) par(1) by auto
  have p: "objects t par = Some (Ramfs_obj (pn\<lparr>first_child := n\<rparr>))" "n_flags (r_vnode (pn\<lparr>first_child := n\<rparr>)) = FS_DIR"
    using t(1) par(2) by (simp_all add: with_node_def)
  have n: "get_ramfs n t = Inr ((raw_node n m)\<lparr>r_vnode := v, next_sibling := first_child pn, first_child := nullptr, r_parent := par\<rparr>)"
    using t(1) np by (simp add: with_node_def get_ramfs_def)
  have f: "ramfs_finddir par x t = bindR (returns (finddir_loop n x t)) id" for x
    using ramfs_finddir_dir[OF p nz] by simp
  show "ramfs_finddir par nm t = Inr n"
    unfolding f using n t(3) v by (subst finddir_loop.simps) simp
  have in_cs: "sibs ob q ds \<Longrightarrow> c \<in> set ds \<Longrightarrow> \<exists>r. ob c = Some (Ramfs_obj r)" for ob q ds c
    by (induction ds arbitrary: q) auto
  have "finddir_loop (first_child pn) x t = finddir_loop (first_child pn) x s" for x
  proof (rule finddir_loop_cong[OF cs])
    fix c
    assume "c \<in> set cs"
    then obtain r where r: "objects s c = Some (Ramfs_obj r)" using in_cs[OF cs] by blast
    then have "objects t c = Some (Ramfs_obj (if c = par then r\<lparr>first_child := n\<rparr> else r))"
      unfolding t(1) by (rule with_node_keeps[OF t(2) par(1)])
    then show "\<exists>r r'. objects s c = Some (Ramfs_obj r) \<and> objects t c = Some (Ramfs_obj r') \<and> next_sibling r' = next_sibling r \<and> r_vnode r' = r_vnode r"
      using r by auto
  qed
  then show "ramfs_finddir par nm' t = ramfs_finddir par nm' s" if "nm' \<noteq> nm"
    unfolding f ramfs_finddir_dir[OF par nz] using n t(3) v that by (subst finddir_loop.simps) simp
qed

end
