(* ===== verification/Demo_States.thy ===== *)
theory Demo_States
  imports Ipc_Correct Net Heap_Frame
begin

text \<open>
  Concrete states for evaluating the properties of the file systems and the network: the machine with
  three processes of theory \<open>Ipc_Correct\<close>, with a heap that has one free page-sized block, a RAM
  file system with a root directory and one file, and one network card.
\<close>

definition demo_heap :: heap_state where
  "demo_heap = demo_free\<lparr>mem := new_block 0x4000 32 (new_block 0x3000 32 (mem demo_free))\<rparr>"

lemma demo_heap_inv: "heap_inv demo_heap [0x1000] {0x3000, 0x4000}" "h_size (mem demo_heap) 0x1000 = 4096"
proof -
  define t where "t = demo_free\<lparr>mem := new_block 0x3000 32 (mem demo_free), heap_end := heap_end demo_free\<rparr>"
  have x0: "extent (mem demo_free) 0x1000 = {4096..<8192}"
    using demo_free_inv(2) by (simp add: extent_def)
  have u: "used_set demo_free = {..<32}" using demo_used by (simp add: demo_free_def demo_machine_def used_set_def)
  have ub: "{i..<j} \<subseteq> used_bytes demo_free" if "j \<le> 131072" for i j
    using that by (auto simp: used_bytes_def u)
  have t: "heap_inv t [0x1000] {0x3000}" "used_set t = used_set demo_free"
    using new_block_inv(1,4)[OF demo_free_inv(1), of 32 "0x3000" t "heap_end demo_free"] x0 ub
    by (simp_all add: t_def)
  have nb: "h_size (new_block h 32 m) 0x1000 = h_size m 0x1000" if "h = 0x3000 \<or> h = 0x4000" for h m
    using that by (auto simp: new_block_def set_footer_def field_defs rd32_wr32_disjoint)
  have x1: "extent (mem t) 0x1000 = {4096..<8192}" "extent (mem t) 0x3000 = {12288..<12320}"
    using demo_free_inv(2) new_block_ok(3)[of 32 "0x3000" "mem demo_free"] nb by (simp_all add: t_def extent_def)
  have ut: "{i..<j} \<subseteq> used_bytes t" if "j \<le> 131072" for i j
    using that by (auto simp: used_bytes_def t(2) u)
  have e: "demo_heap = t\<lparr>mem := new_block 0x4000 32 (mem t), heap_end := heap_end t\<rparr>" by (simp add: demo_heap_def t_def)
  have "heap_inv demo_heap [0x1000] (insert 0x4000 {0x3000})"
    by (rule new_block_inv(1)[OF t(1), of 32 "0x4000", OF _ _ _ _ _ e]) (use x1 ut in auto)
  then show "heap_inv demo_heap [0x1000] {0x3000, 0x4000}" by (simp add: insert_commute)
  show "h_size (mem demo_heap) 0x1000 = 4096" using demo_free_inv(2) nb by (simp add: demo_heap_def)
qed

definition demo_hw :: hw_state where
  "demo_hw = kernel_state.extend demo_ipc (hw_state.fields (\<lambda>_. 0) [])"

definition demo_ata :: ata_state where
  "demo_ata = hw_state.extend demo_hw (ata_state.fields [] 0)"

definition demo_root :: ramfs_node where
  "demo_root = \<lparr>r_vnode = \<lparr>n_name = ''/'', n_flags = FS_DIR, n_size = 0, n_inode = 0, n_impl = 0,
       n_parent = 0x3010, n_destroy = Some Ramfs_destroy, n_read = None, n_write = None,
       n_readdir = Some Ramfs_readdir, n_finddir = Some Ramfs_finddir\<rparr>,
     next_sibling = nullptr, first_child = 0x4010, r_parent = 0x3010, r_data = replicate 256 0\<rparr>"

definition demo_file :: ramfs_node where
  "demo_file = \<lparr>r_vnode = \<lparr>n_name = ''a'', n_flags = FS_FILE, n_size = 0, n_inode = 0x4010, n_impl = 0,
       n_parent = 0x3010, n_destroy = Some Ramfs_destroy, n_read = Some Ramfs_read,
       n_write = Some Ramfs_write, n_readdir = None, n_finddir = None\<rparr>,
     next_sibling = nullptr, first_child = nullptr, r_parent = 0x3010, r_data = replicate 256 0\<rparr>"

definition demo_fs :: fs_state where
  "demo_fs = (ata_state.extend demo_ata
       (fs_state.fields [0x3010 \<mapsto> Ramfs_obj demo_root, 0x4010 \<mapsto> Ramfs_obj demo_file]
          (replicate 128 0) 2 0x3010 (\<lparr>m_path = ''/'', m_root = 0x3010, m_used = True\<rparr> # replicate 15 \<lparr>m_path = [], m_root = 0, m_used = False\<rparr>) 1))
     \<lparr>bitmap := bitmap demo_heap, total_pages := total_pages demo_heap, used_pages := used_pages demo_heap,
      mem := mem demo_heap, free_list := free_list demo_heap, heap_end := heap_end demo_heap\<rparr>"

lemmas demo_fs_defs = demo_fs_def demo_ata_def demo_hw_def kernel_state.defs hw_state.defs ata_state.defs fs_state.defs

lemma demo_fs_fields: "objects demo_fs = [0x3010 \<mapsto> Ramfs_obj demo_root, 0x4010 \<mapsto> Ramfs_obj demo_file]"
  "node_pool demo_fs = replicate 128 0" "pool_count demo_fs = 2"
  "mounts demo_fs = \<lparr>m_path = ''/'', m_root = 0x3010, m_used = True\<rparr> # replicate 15 \<lparr>m_path = [], m_root = 0, m_used = False\<rparr>"
  by (simp_all add: demo_fs_defs)

lemma demo_fs_inv: "heap_inv demo_fs [0x1000] {0x3000, 0x4000}"
proof -
  have "heap_inv demo_fs [0x1000] {0x3000, 0x4000} = heap_inv demo_heap [0x1000] {0x3000, 0x4000}"
    by (rule heap_inv_cong) (simp_all add: demo_fs_defs)
  then show ?thesis using demo_heap_inv(1) by simp
qed

definition demo_nic :: nic_state where
  "demo_nic = fs_state.extend demo_fs (nic_state.fields [] 0
     [\<lparr>io_base = 0xC000, rtl_mac = [1, 2, 3, 4, 5, 6], initialized = True\<rparr>] 1
     [0x5010 \<mapsto> \<lparr>rx_buffer = 0x6000, tx_buffer = [0x7000, 0x8000, 0x9000, 0xA000], tx_cur = 0, rx_offset = 0\<rparr>] [0x5010, 0, 0, 0])"

definition demo_net :: net_state where
  "demo_net = nic_state.extend demo_nic (net_state.fields
     (\<lparr>arp_ip = [10, 0, 2, 1], arp_mac = [9, 9, 9, 9, 9, 9], arp_valid = True\<rparr>
        # replicate 7 \<lparr>arp_ip = [0, 0, 0, 0], arp_mac = [0, 0, 0, 0, 0, 0], arp_valid = False\<rparr>)
     [1, 2, 3, 4, 5, 6] [10, 0, 2, 15] 0)"

lemma demo_net_fields: "rtl_count demo_net = 1" "our_mac demo_net = [1, 2, 3, 4, 5, 6]" "our_ip demo_net = [10, 0, 2, 15]"
  "ip_id demo_net = 0"
  "arp_cache demo_net = \<lparr>arp_ip = [10, 0, 2, 1], arp_mac = [9, 9, 9, 9, 9, 9], arp_valid = True\<rparr>
        # replicate 7 \<lparr>arp_ip = [0, 0, 0, 0], arp_mac = [0, 0, 0, 0, 0, 0], arp_valid = False\<rparr>"
  by (simp_all add: demo_net_def demo_nic_def fs_state.defs nic_state.defs net_state.defs)

end
