(* ===== verification/Ramfs_Properties.thy ===== *)
theory Ramfs_Properties
  imports Ramfs_Correct Demo_States
begin

text \<open>
  Paths and contents of the file system in memory: resolving a path is looking up its components one
  after the other, a created node resolves by its name, a file gives back what was written to
  it, and absolute paths below the root do not resolve.
\<close>

section \<open>Reading and writing\<close>

lemma read_data_ok:
  "unat off + n \<le> length data \<Longrightarrow> length data < 2 ^ 32 \<Longrightarrow> read_data n data off = Inr (take n (drop (unat off) data))"
proof (induction n arbitrary: off)
  case (Suc n)
  have o: "unat (off + 1) = unat off + 1" using Suc.prems unat_offset[of off 1] by simp
  have "read_data n data (off + 1) = Inr (take n (drop (unat off + 1) data))"
    using Suc.IH[of "off + 1"] Suc.prems o by simp
  moreover have "take (Suc n) (drop (unat off) data) = data ! unat off # take n (drop (unat off + 1) data)"
    using Suc.prems(1) by (subst Cons_nth_drop_Suc[symmetric]) simp_all
  ultimately show ?case using Suc.prems by simp
qed simp

lemma write_data_ok:
  "i + n \<le> length buf \<Longrightarrow> unat off + i + n \<le> length data \<Longrightarrow> length data < 2 ^ 32 \<Longrightarrow>
   write_data n buf i off data = Inr (take (unat off + i) data @ take n (drop i buf) @ drop (unat off + i + n) data)"
proof (induction n arbitrary: i data)
  case (Suc n)
  let ?k = "unat off + i"
  have o: "unat (off + of_nat i) = ?k" using Suc.prems by (intro unat_offset) simp
  have "write_data (Suc n) buf i off data = write_data n buf (Suc i) off (data[?k := buf ! i])"
    using Suc.prems o by simp
  also have "\<dots> = Inr (take (Suc ?k) (data[?k := buf ! i]) @ take n (drop (Suc i) buf) @ drop (Suc ?k + n) (data[?k := buf ! i]))"
    using Suc.IH[of "Suc i" "data[?k := buf ! i]"] Suc.prems by simp
  also have "take (Suc ?k) (data[?k := buf ! i]) = take ?k data @ [buf ! i]"
    using Suc.prems by (simp add: take_Suc_conv_app_nth)
  also have "drop (Suc ?k + n) (data[?k := buf ! i]) = drop (?k + Suc n) data" by simp
  finally show ?case using Suc.prems Cons_nth_drop_Suc[of i buf] by (simp add: take_Suc_Cons[symmetric])
qed simp

lemma ramfs_read_ok:
  assumes a: "objects s a = Some (Ramfs_obj r)" "a \<noteq> nullptr" "n_flags (r_vnode r) = FS_FILE"
    and len: "length (r_data r) = 256" "n_size (r_vnode r) \<le> 256" and o: "unat off + unat n \<le> unat (n_size (r_vnode r))"
  shows "ramfs_read a off n s = Inr (Some (take (unat n) (drop (unat off) (r_data r))))"
proof (cases "off \<ge> n_size (r_vnode r)")
  case True
  then have "unat n = 0" using o by (simp add: word_le_nat_alt)
  then show ?thesis using True a by (simp add: ramfs_read_def get_node_def get_ramfs_def)
next
  case False
  have "unat (n_size (r_vnode r) - off) = unat (n_size (r_vnode r)) - unat off"
    using False by (simp add: unat_sub not_le order.strict_implies_order)
  then have "\<not> n > n_size (r_vnode r) - off" using o by (simp add: word_less_nat_alt)
  moreover have "unat off + unat n \<le> length (r_data r)" using o len by (simp add: word_le_nat_alt)
  ultimately show ?thesis
    using False a len read_data_ok[of off "unat n" "r_data r"] by (simp add: ramfs_read_def get_node_def get_ramfs_def Let_def)
qed

lemma ramfs_write_ok:
  assumes a: "objects s a = Some (Ramfs_obj r)" "a \<noteq> nullptr" "n_flags (r_vnode r) = FS_FILE"
    and len: "length (r_data r) = 256" and o: "unat off + length bytes \<le> 256"
  shows "ramfs_write a off (of_nat (length bytes)) bytes s = Inr (int (length bytes), s\<lparr>objects := (objects s)(a \<mapsto> Ramfs_obj
    (r\<lparr>r_vnode := (r_vnode r)\<lparr>n_size := max (n_size (r_vnode r)) (off + of_nat (length bytes))\<rparr>,
       r_data := take (unat off) (r_data r) @ bytes @ drop (unat off + length bytes) (r_data r)\<rparr>))\<rparr>)"
proof -
  let ?n = "of_nat (length bytes) :: u32"
  have n: "unat ?n = length bytes" using o by (simp add: unat_of_nat)
  have "unat (off + ?n) = unat off + length bytes" using o by (intro unat_offset) simp
  then have "\<not> off + ?n > MAX_DATA" using o by (simp add: MAX_DATA_def word_less_nat_alt)
  moreover have "sint ?n = int (length bytes)"
  proof -
    have "length bytes < 2 ^ 31" using o by simp
    then show ?thesis by (simp add: signed_of_nat signed_take_bit_int_eq_self)
  qed
  moreover have "(if off + ?n > n_size (r_vnode r) then (r_vnode r)\<lparr>n_size := off + ?n\<rparr> else r_vnode r)
      = (r_vnode r)\<lparr>n_size := max (n_size (r_vnode r)) (off + ?n)\<rparr>" by (simp add: max_def)
  ultimately show ?thesis
    using a len n o write_data_ok[of 0 "length bytes" bytes off "r_data r"]
    by (simp add: ramfs_write_def get_node_def get_ramfs_def set_ramfs_def Let_def)
qed

section \<open>Paths\<close>

text \<open>A path as the list of its components: one step, and all of them. The result null means that
  there is no such node.\<close>

definition path_step :: "string \<Rightarrow> u32 \<Rightarrow> 'z fs_state_scheme \<Rightarrow> u32 res" where
  "path_step c a s =
     (if c = ''.'' then Inr a
      else if c = ''..'' then bindR (get_ramfs a s) (\<lambda>r. Inr (r_parent r))
      else ramfs_finddir a c s)"

fun lookup_path :: "string list \<Rightarrow> u32 \<Rightarrow> 'z fs_state_scheme \<Rightarrow> u32 res" where
  "lookup_path [] a s = Inr a"
| "lookup_path (c # cs) a s = bindR (path_step c a s) (\<lambda>b. if b = nullptr then Inr nullptr else lookup_path cs b s)"

definition name_ok :: "string \<Rightarrow> bool" where
  "name_ok c \<longleftrightarrow> c \<noteq> [] \<and> CHR ''/'' \<notin> set c \<and> length c \<le> 127"

fun tail_path :: "string list \<Rightarrow> string" where
  "tail_path [] = []"
| "tail_path (c # cs) = CHR ''/'' # c @ tail_path cs"

fun join_path :: "string list \<Rightarrow> string" where
  "join_path [] = []"
| "join_path (c # cs) = c @ tail_path cs"

lemma component_name:
  assumes "name_ok c"
  shows "component (c @ tail_path cs) = c"
proof -
  have c: "takeWhile (\<lambda>x. x \<noteq> CHR ''/'') (c @ xs) = c @ takeWhile (\<lambda>x. x \<noteq> CHR ''/'') xs" for xs
    using assms by (intro takeWhile_append2) (auto simp: name_ok_def)
  have "take 127 (c @ tail_path cs) = c @ take (127 - length c) (tail_path cs)"
    using assms by (simp add: name_ok_def)
  moreover have "takeWhile (\<lambda>x. x \<noteq> CHR ''/'') (take k (tail_path cs)) = []" for k
    by (cases cs; cases k) simp_all
  ultimately show ?thesis by (simp add: component_def c)
qed

lemma skip_name: "name_ok c \<Longrightarrow> dropWhile (\<lambda>x. x = CHR ''/'') (c @ xs) = c @ xs"
  by (cases c) (auto simp: name_ok_def)

lemma path_step_ok:
  assumes wf: "ramfs_wf s al" and a: "objects s a = Some (Ramfs_obj r)"
  obtains b where "path_step c a s = Inr b" "b \<noteq> nullptr \<longrightarrow> (\<exists>x. objects s b = Some (Ramfs_obj x))"
proof -
  have ok: "node_ok (objects s) a r" using wf a by (simp add: ramfs_wf_def)
  show thesis
  proof (cases "c = ''.'' \<or> c = ''..''")
    case True
    then show thesis
      using that[of "if c = ''.'' then a else r_parent r"] a ok
      by (auto simp: path_step_def get_ramfs_def node_ok_def is_ramfs_dir_def)
  next
    case False
    show thesis
    proof (cases "n_flags (r_vnode r) = FS_DIR")
      case True
      obtain b where "ramfs_finddir a c s = Inr b" "b \<noteq> nullptr \<longrightarrow> (\<exists>x. objects s b = Some (Ramfs_obj x) \<and> n_name (r_vnode x) = c \<and> r_parent x = a)"
        by (rule ramfs_finddir_ok[OF wf a True])
      then show thesis using that[of b] False by (auto simp: path_step_def)
    next
      case nd: False
      then have "n_flags (r_vnode r) = FS_FILE" using ok by (auto simp: node_ok_def kind_ok_def)
      then have "ramfs_finddir a c s = Inr nullptr" using a ok by (simp add: ramfs_finddir_def get_node_def node_ok_def)
      then show thesis using that[of nullptr] False by (simp add: path_step_def)
    qed
  qed
qed

lemma walk_step:
  fixes s :: "'z fs_state_scheme"
  assumes wf: "ramfs_wf s al" and a: "objects s a = Some (Ramfs_obj r)" and c: "name_ok c" and p: "p = [] \<or> p = ''/''"
  shows "walk_path (p @ c @ tail_path cs) a s
    = bindR (path_step c a s) (\<lambda>b. if b = nullptr then Inr (nullptr, s) else walk_path (tail_path cs) b s)"
proof -
  have ok: "node_ok (objects s) a r" using wf a by (simp add: ramfs_wf_def)
  have nz: "a \<noteq> nullptr" "r_parent r \<noteq> nullptr" "n_parent (r_vnode r) = r_parent r"
    using ok wf by (auto simp: node_ok_def is_ramfs_dir_def ramfs_wf_def)
  have d: "dropWhile (\<lambda>x. x = CHR ''/'') (p @ c @ tail_path cs) = c @ tail_path cs" using p skip_name[OF c] by auto
  have ne: "p @ c @ tail_path cs \<noteq> []" "c @ tail_path cs \<noteq> []" using c by (auto simp: name_ok_def)
  have g: "get_node a s = Inr (r_vnode r)" "get_ramfs a s = Inr r" using a by (simp_all add: get_node_def get_ramfs_def)
  have dr: "drop (length c) (c @ tail_path cs) = tail_path cs" by simp
  have w: "walk_path (p @ c @ tail_path cs) a s =
     (if c = ''.'' then walk_path (tail_path cs) a s
      else if c = ''..'' then walk_path (tail_path cs) (r_parent r) s
      else case n_finddir (r_vnode r) of
             None \<Rightarrow> Inr (nullptr, s)
           | Some f \<Rightarrow> bindR (call_finddir f a c s) (\<lambda>x.
               if fst x = nullptr then Inr (nullptr, snd x) else walk_path (tail_path cs) (fst x) (snd x)))"
    unfolding walk_path.simps[of "p @ c @ tail_path cs"] Let_def d component_name[OF c] dr g(1) bindR_Inr
    by (simp only: ne nz if_False not_False_eq_True if_True)
  consider "n_flags (r_vnode r) = FS_DIR" "n_finddir (r_vnode r) = Some Ramfs_finddir"
    | "n_flags (r_vnode r) = FS_FILE" "n_finddir (r_vnode r) = None"
    using ok by (auto simp: node_ok_def kind_ok_def)
  then show ?thesis
  proof cases
    case 1
    then show ?thesis
      unfolding w using nz g(2) by (cases "ramfs_finddir a c s") (auto simp: path_step_def call_finddir_def)
  next
    case 2
    then have "ramfs_finddir a c s = Inr nullptr" using a nz(1) by (simp add: ramfs_finddir_def get_node_def)
    then show ?thesis unfolding w using nz g(2) 2 by (simp add: path_step_def)
  qed
qed

lemma walk_tail_path:
  fixes s :: "'z fs_state_scheme"
  shows "ramfs_wf s al \<Longrightarrow> objects s a = Some (Ramfs_obj r) \<Longrightarrow> \<forall>c \<in> set cs. name_ok c \<Longrightarrow>
    walk_path (tail_path cs) a s = bindR (lookup_path cs a s) (\<lambda>b. Inr (b, s))"
proof (induction cs arbitrary: a r)
  case Nil
  then show ?case by (subst walk_path.simps) simp
next
  case (Cons c cs)
  obtain b where b: "path_step c a s = Inr b" "b \<noteq> nullptr \<longrightarrow> (\<exists>x. objects s b = Some (Ramfs_obj x))"
    by (rule path_step_ok[OF Cons.prems(1,2)])
  have "walk_path (tail_path (c # cs)) a s = (if b = nullptr then Inr (nullptr, s) else walk_path (tail_path cs) b s)"
    using walk_step[OF Cons.prems(1,2), of c "''/''" cs] Cons.prems(3) b(1) by simp
  then show ?case using Cons.IH[OF Cons.prems(1), of b] Cons.prems(3) b by auto
qed

lemma walk_join_path:
  fixes s :: "'z fs_state_scheme"
  assumes wf: "ramfs_wf s al" and a: "objects s a = Some (Ramfs_obj r)" and cs: "\<forall>c \<in> set cs. name_ok c"
  shows "walk_path (join_path cs) a s = bindR (lookup_path cs a s) (\<lambda>b. Inr (b, s))"
proof (cases cs)
  case Nil
  then show ?thesis by (subst walk_path.simps) simp
next
  case (Cons c ds)
  then have "walk_path (join_path cs) a s = walk_path (tail_path cs) a s"
    using walk_step[OF wf a, of c "[]" ds] walk_step[OF wf a, of c "''/''" ds] cs by simp
  then show ?thesis using walk_tail_path[OF wf a cs] by simp
qed

section \<open>Properties\<close>

text \<open>C25: Creating a file or a directory with a name of at most 127 characters keeps the file system well formed, also
  when there is no memory or no free entry in the pool: every node has the functions of its
  kind, its data and its size are within 256 bytes, its parent is a directory, the lists of
  children end, and every object is in its own block of the heap. With a free pool entry and
  a free block the node is created. A longer name is written beyond the name of the node, unless there
  is no node to write it to.\<close>

theorem ramfs_create_keeps_wf:
  fixes s :: "'z fs_state_scheme"
  assumes "heap_inv s hs al" and "ramfs_wf s al" and "is_ramfs_dir (objects s) par"
    and "create = ramfs_create_file \<or> create = ramfs_create_dir"
  shows "if length nm < 128
    then \<exists>n s' hs' al'. create par nm s = Inr (n, s') \<and> heap_inv s' hs' al' \<and> ramfs_wf s' al'
      \<and> (node_room hs s \<longrightarrow> n \<noteq> nullptr)
      \<and> (if n = nullptr then objects s' = objects s
         else objects s n = None \<and> (\<exists>x. objects s' n = Some (Ramfs_obj x) \<and> n_name (r_vnode x) = nm \<and> r_parent x = par))
    else create par nm s = Inl Out_of_bounds
      \<or> \<not> node_room hs s \<and> (\<exists>s' hs' al'. create par nm s = Inr (nullptr, s') \<and> heap_inv s' hs' al' \<and> ramfs_wf s' al' \<and> objects s' = objects s)"
proof -
  obtain pn where par: "objects s par = Some (Ramfs_obj pn)" "n_flags (r_vnode pn) = FS_DIR"
    using assms(3) by (auto simp: is_ramfs_dir_def)
  have nz: "par \<noteq> nullptr" using assms(2) par(1) by (auto simp: ramfs_wf_def node_ok_def)
  obtain v where v: "create par nm s = create_node v par nm s" "\<And>n. vnode_for (v n nm) par nm"
    using assms(4) create_as_node[OF assms(3) nz, of nm] by (metis vnode_for_new)
  show ?thesis
  proof (cases "length nm < 128")
    case True
    obtain n s' hs' al' m where c: "create_node v par nm s = Inr (n, s')" "heap_inv s' hs' al'" "ramfs_wf s' al'"
      "node_room hs s \<longrightarrow> n \<noteq> nullptr"
      "n = nullptr \<and> objects s' = objects s
       \<or> n \<noteq> nullptr \<and> objects s n = None \<and> objects s' = with_node m (objects s) n (v n nm) par pn"
      by (rule create_node_ok[where v = v, OF assms(1,2) par v(2) True])
    have "par \<noteq> n" if "objects s n = None" using that par by auto
    then have "if n = nullptr then objects s' = objects s
         else objects s n = None \<and> (\<exists>x. objects s' n = Some (Ramfs_obj x) \<and> n_name (r_vnode x) = nm \<and> r_parent x = par)"
      using c(5) v(2)[of n] by (auto simp: with_node_def vnode_for_def)
    then show ?thesis using True v(1) c(1-4) by (simp only: if_True) blast
  next
    case False
    obtain n t hs' al' where t: "alloc_node s = Inr (n, t)" "heap_inv t hs' al'" "node_room hs s \<longrightarrow> n \<noteq> nullptr"
      "n = nullptr \<longrightarrow> objects t = objects s \<and> ramfs_wf t al'"
      by (rule alloc_node_ok[OF assms(1,2)]) auto
    then have "create_node v par nm s = (if n = nullptr then Inr (nullptr, t) else Inl Out_of_bounds)"
      using False by (simp add: create_node_def strcpy_to_def)
    then show ?thesis using False v(1) t(2-4) by (cases "n = nullptr") auto
  qed
qed

text \<open>C26: A created file or directory resolves: from its directory the name leads to the new node and
  \<open>..\<close> leads back from it. Every other name leads where it led before.\<close>

theorem ramfs_created_resolves:
  fixes s :: "'z fs_state_scheme"
  assumes "heap_inv s hs al" and "ramfs_wf s al" and "is_ramfs_dir (objects s) par"
    and nm: "name_ok nm" "nm \<noteq> ''.''" "nm \<noteq> ''..''"
    and create: "create = ramfs_create_file \<or> create = ramfs_create_dir"
    and new: "create par nm s = Inr (n, s')" "n \<noteq> nullptr"
  shows "vfs_resolve_relative par (Some nm) s' = Inr (n, s')
    \<and> vfs_resolve_relative n (Some ''..'') s' = Inr (par, s')
    \<and> (\<forall>nm'. name_ok nm' \<and> nm' \<notin> {nm, ''.'', ''..''} \<longrightarrow>
        vfs_resolve_relative par (Some nm') s' = bindR (ramfs_finddir par nm' s) (\<lambda>b. Inr (b, s')))"
proof -
  obtain pn where par: "objects s par = Some (Ramfs_obj pn)" "n_flags (r_vnode pn) = FS_DIR"
    using assms(3) by (auto simp: is_ramfs_dir_def)
  have nz: "par \<noteq> nullptr" using assms(2) par(1) by (auto simp: ramfs_wf_def node_ok_def)
  have len: "length nm < 128" using nm(1) by (simp add: name_ok_def)
  obtain v where v: "create par nm s = create_node v par nm s" "\<And>n. vnode_for (v n nm) par nm"
    using create create_as_node[OF assms(3) nz, of nm] by (metis vnode_for_new)
  obtain hs' al' m where c: "ramfs_wf s' al'" "objects s n = None" "objects s' = with_node m (objects s) n (v n nm) par pn"
    by (rule create_node_ok[where v = v, OF assms(1,2) par v(2) len]) (use v(1) new in auto)
  have vn: "n_name (v n nm) = nm" using v(2) by (simp add: vnode_for_def)
  note f = finddir_created[OF assms(2) par c(3,2) new(2) vn]
  have np: "par \<noteq> n" using c(2) par(1) by auto
  have obs: "objects s' par = Some (Ramfs_obj (pn\<lparr>first_child := n\<rparr>))"
    "objects s' n = Some (Ramfs_obj ((raw_node n m)\<lparr>r_vnode := v n nm, next_sibling := first_child pn, first_child := nullptr, r_parent := par\<rparr>))"
    using c(3) np by (simp_all add: with_node_def)
  have rel: "vfs_resolve_relative b (Some x) s' = bindR (path_step x b s') (\<lambda>y. Inr (y, s'))"
    if "objects s' b = Some (Ramfs_obj y)" "b \<noteq> nullptr" "name_ok x" for b x y
  proof -
    have "char_at x 0 \<noteq> CHR ''/''" using that(3) by (cases x) (auto simp: char_at_def name_ok_def)
    then have "vfs_resolve_relative b (Some x) s' = walk_path (join_path [x]) b s'"
      using that(2) by (simp add: vfs_resolve_relative_def)
    also have "\<dots> = bindR (lookup_path [x] b s') (\<lambda>y. Inr (y, s'))"
      by (rule walk_join_path[OF c(1) that(1)]) (use that(3) in simp)
    also have "\<dots> = bindR (path_step x b s') (\<lambda>y. Inr (y, s'))"
      by (cases "path_step x b s'") auto
    finally show ?thesis .
  qed
  have 1: "vfs_resolve_relative par (Some nm) s' = Inr (n, s')"
    using rel[OF obs(1) nz nm(1)] f(1) nm(2,3) by (simp add: path_step_def)
  have 2: "vfs_resolve_relative n (Some ''..'') s' = Inr (par, s')"
    using rel[OF obs(2) new(2), of "''..''"] obs(2) by (simp add: path_step_def get_ramfs_def name_ok_def)
  have "vfs_resolve_relative par (Some nm') s' = bindR (ramfs_finddir par nm' s) (\<lambda>b. Inr (b, s'))"
    if "name_ok nm'" "nm' \<noteq> nm" "nm' \<noteq> ''.''" "nm' \<noteq> ''..''" for nm'
    using rel[OF obs(1) nz that(1)] f(2)[OF that(2)] that by (simp add: path_step_def)
  then show ?thesis using 1 2 by auto
qed

lemma ramfs_write_back:
  fixes s :: "'z fs_state_scheme"
  assumes wf: "ramfs_wf s al" and a: "objects s a = Some (Ramfs_obj r)" "n_flags (r_vnode r) = FS_FILE"
    and len: "unat off + length bytes \<le> 256"
  shows "\<exists>s' r'. ramfs_write a off (of_nat (length bytes)) bytes s = Inr (int (length bytes), s') \<and> ramfs_wf s' al
    \<and> ramfs_read a off (of_nat (length bytes)) s' = Inr (Some bytes)
    \<and> s' = s\<lparr>objects := (objects s)(a \<mapsto> Ramfs_obj r')\<rparr> \<and> next_sibling r' = next_sibling r \<and> n_name (r_vnode r') = n_name (r_vnode r) \<and> n_flags (r_vnode r') = FS_FILE \<and> n_size (r_vnode r') = max (n_size (r_vnode r)) (off + of_nat (length bytes))
    \<and> r_data r' = take (unat off) (r_data r) @ bytes @ drop (unat off + length bytes) (r_data r)"
proof -
  let ?n = "of_nat (length bytes) :: u32"
  let ?r = "r\<lparr>r_vnode := (r_vnode r)\<lparr>n_size := max (n_size (r_vnode r)) (off + ?n)\<rparr>,
       r_data := take (unat off) (r_data r) @ bytes @ drop (unat off + length bytes) (r_data r)\<rparr>"
  let ?s = "s\<lparr>objects := (objects s)(a \<mapsto> Ramfs_obj ?r)\<rparr>"
  have ok: "node_ok (objects s) a r" using wf a(1) by (simp add: ramfs_wf_def)
  then have nz: "a \<noteq> nullptr" and d: "length (r_data r) = 256" "n_size (r_vnode r) \<le> 256" by (simp_all add: node_ok_def)
  have n: "unat ?n = length bytes" using len by (simp add: unat_of_nat)
  have on: "unat (off + ?n) = unat off + length bytes" using len by (intro unat_offset) simp
  then have sz: "off + ?n \<le> 256" using len by (simp add: word_le_nat_alt)
  have w: "ramfs_write a off ?n bytes s = Inr (int (length bytes), ?s)" by (rule ramfs_write_ok[OF a(1) nz a(2) d(1) len])
  have rd: "length (r_data ?r) = 256" "n_size (r_vnode ?r) \<le> 256" using d len sz by simp_all
  have "unat off + unat ?n \<le> unat (n_size (r_vnode ?r))" using n on by (simp add: max_def word_le_nat_alt)
  then have "ramfs_read a off ?n ?s = Inr (Some (take (unat ?n) (drop (unat off) (r_data ?r))))"
    using a(2) rd nz by (intro ramfs_read_ok) simp_all
  then have rr: "ramfs_read a off ?n ?s = Inr (Some bytes)" using n d len by simp
  have keep: "node_ok ((objects s)(a \<mapsto> Ramfs_obj ?r)) b x" if h: "node_ok (objects s) b x" for b x
  proof -
    obtain cs where cs: "sibs (objects s) (first_child x) cs" "\<forall>c \<in> set cs. \<exists>y. objects s c = Some (Ramfs_obj y) \<and> r_parent y = b"
      using h unfolding node_ok_def by blast
    have "sibs ((objects s)(a \<mapsto> Ramfs_obj ?r)) (first_child x) cs"
      using cs(1) by (rule sibs_keep[rotated]) (use a(1) in auto)
    moreover have "\<forall>c \<in> set cs. \<exists>y. ((objects s)(a \<mapsto> Ramfs_obj ?r)) c = Some (Ramfs_obj y) \<and> r_parent y = b"
      using cs(2) a(1) by auto
    moreover have "is_ramfs_dir ((objects s)(a \<mapsto> Ramfs_obj ?r)) (r_parent x)"
      using h a by (auto simp: node_ok_def is_ramfs_dir_def)
    ultimately show ?thesis using h unfolding node_ok_def by blast
  qed
  have "node_ok ((objects s)(a \<mapsto> Ramfs_obj ?r)) a ?r"
    using keep[OF ok] rd unfolding node_ok_def by (simp add: kind_ok_def)
  then have "ramfs_wf ?s al" using wf keep a(1) unfolding ramfs_wf_def by auto
  then show ?thesis using w rr a(2) by (intro exI[of _ ?s] exI[of _ ?r]) simp
qed

text \<open>The copying loop reads only the bytes it copies, so a write is cut at the end of the file.\<close>

lemma write_data_take: "i + n \<le> k \<Longrightarrow> write_data n (take k buf) i off data = write_data n buf i off data"
proof (induction n arbitrary: i data)
  case (Suc n)
  have "array_get (take k buf) i = array_get buf i" using Suc.prems by (simp add: array_get_def)
  then show ?case using Suc by simp
qed simp

lemma ramfs_write_cut:
  assumes "off \<le> 256" "unat off + length bytes < 2 ^ 32"
  defines "n \<equiv> min (length bytes) (256 - unat off)"
  shows "ramfs_write a off (of_nat (length bytes)) bytes s = ramfs_write a off (of_nat n) (take n bytes) s"
proof (cases "unat off + length bytes \<le> 256")
  case False
  have o: "unat off \<le> 256" using assms(1) by (simp add: word_le_nat_alt)
  then have n: "n = 256 - unat off" "of_nat n = (256 - off :: u32)" "unat (256 - off) = n"
    using False assms(1) unfolding n_def by (simp_all add: unat_sub of_nat_diff)
  have "unat (off + of_nat (length bytes)) = unat off + length bytes" using assms(2) by (intro unat_offset) simp
  then have "(256 :: u32) < off + of_nat (length bytes)" using False by (simp add: word_less_nat_alt)
  then show ?thesis using write_data_take[of 0 n n bytes off] n
    by (simp add: ramfs_write_def MAX_DATA_def Let_def cong: if_cong)
qed (simp add: n_def)

lemma ramfs_read_cut:
  assumes "objects s a = Some (Ramfs_obj r)" "n_size (r_vnode r) \<le> 256" "unat off \<le> 256" "256 - unat off \<le> unat k"
  shows "ramfs_read a off k s = ramfs_read a off (256 - off) s"
proof (cases "off \<ge> n_size (r_vnode r)")
  case True
  then show ?thesis using assms(1) by (simp add: ramfs_read_def get_node_def get_ramfs_def)
next
  case False
  have u: "unat (n_size (r_vnode r) - off) = unat (n_size (r_vnode r)) - unat off" "unat (256 - off) = 256 - unat off"
    using False assms(3) by (simp_all add: unat_sub word_le_nat_alt)
  have "n_size (r_vnode r) - off \<le> 256 - off" "n_size (r_vnode r) - off \<le> k"
    using u assms(2,4) by (simp_all add: word_le_nat_alt)
  then have "(if k > n_size (r_vnode r) - off then n_size (r_vnode r) - off else k) = n_size (r_vnode r) - off"
    "(if 256 - off > n_size (r_vnode r) - off then n_size (r_vnode r) - off else 256 - off) = n_size (r_vnode r) - off" by auto
  then show ?thesis using assms(1) by (simp add: ramfs_read_def get_node_def get_ramfs_def Let_def)
qed

lemma ramfs_write_outside:
  assumes "objects s a = Some (Ramfs_obj r)" "a \<noteq> nullptr" "n_flags (r_vnode r) = FS_FILE" "length (r_data r) = 256"
    and "256 < off" "unat off + length bytes < 2 ^ 32"
  shows "ramfs_write a off (of_nat (length bytes)) bytes s = Inl Out_of_bounds"
proof -
  have o: "256 < unat off" using assms(5) by (simp add: word_less_nat_alt)
  have "unat (off + of_nat (length bytes)) = unat off + length bytes" using assms(6) by (intro unat_offset) simp
  then have c: "(256 :: u32) < off + of_nat (length bytes)" using o by (simp add: word_less_nat_alt)
  have "256 - off \<noteq> 0" using o by auto
  then obtain k where "unat (256 - off) = Suc k" by (metis not0_implies_Suc unat_eq_zero)
  then have "write_data (unat (256 - off)) bytes 0 off (r_data r) = Inl Out_of_bounds"
    using o assms(4) by (cases bytes) (simp_all add: array_get_def array_set_def)
  then show ?thesis using assms(1-3) c by (simp add: ramfs_write_def get_node_def get_ramfs_def MAX_DATA_def Let_def)
qed

text \<open>C27: What is written to a file is read back, up to its capacity of 256 bytes: a write that starts within
  the capacity stores as many bytes as fit and returns their number, reading the same range
  gives those bytes, the size is at least the end of the range, and the other bytes and the
  other objects are as before. A write that starts beyond the capacity leaves the data of the
  node. Offset and length add up to less than 4 GB.\<close>

theorem ramfs_write_read:
  fixes s :: "'z fs_state_scheme"
  assumes wf: "ramfs_wf s al" and a: "objects s a = Some (Ramfs_obj r)" "n_flags (r_vnode r) = FS_FILE"
    and len: "unat off + length bytes < 2 ^ 32"
  shows "if off \<le> 256
    then let n = min (length bytes) (256 - unat off)
      in \<exists>s' r'. ramfs_write a off (of_nat (length bytes)) bytes s = Inr (int n, s') \<and> ramfs_wf s' al
        \<and> ramfs_read a off (of_nat (length bytes)) s' = Inr (Some (take n bytes))
        \<and> objects s' = (objects s)(a \<mapsto> Ramfs_obj r') \<and> n_size (r_vnode r') = max (n_size (r_vnode r)) (off + of_nat n)
        \<and> r_data r' = take (unat off) (r_data r) @ take n bytes @ drop (unat off + n) (r_data r)
    else ramfs_write a off (of_nat (length bytes)) bytes s = Inl Out_of_bounds"
proof (cases "off \<le> 256")
  case True
  define n where "n = min (length bytes) (256 - unat off)"
  have o: "unat off \<le> 256" using True by (simp add: word_le_nat_alt)
  then have "unat off + length (take n bytes) \<le> 256" and ln: "length (take n bytes) = n" by (simp_all add: n_def)
  from ramfs_write_back[OF wf a this(1)] obtain s' r' where w: "ramfs_write a off (of_nat n) (take n bytes) s = Inr (int n, s')"
    "ramfs_wf s' al" "ramfs_read a off (of_nat n) s' = Inr (Some (take n bytes))" "objects s' = (objects s)(a \<mapsto> Ramfs_obj r')"
    "n_size (r_vnode r') = max (n_size (r_vnode r)) (off + of_nat n)"
    "r_data r' = take (unat off) (r_data r) @ take n bytes @ drop (unat off + n) (r_data r)" unfolding ln by fastforce
  have "ramfs_read a off (of_nat (length bytes)) s' = ramfs_read a off (of_nat n) s'"
  proof (cases "length bytes \<le> 256 - unat off")
    case False
    then have "n = 256 - unat off" "of_nat n = (256 - off :: u32)" "unat (of_nat (length bytes) :: u32) = length bytes"
      using o len by (simp_all add: n_def of_nat_diff unat_of_nat)
    moreover have ob: "objects s' a = Some (Ramfs_obj r')" using w(4) by simp
    moreover have "n_size (r_vnode r') \<le> 256" using w(2) ob unfolding ramfs_wf_def node_ok_def by blast
    ultimately show ?thesis using ramfs_read_cut[of s' a r' off "of_nat (length bytes)"] o False by simp
  qed (simp add: n_def)
  then show ?thesis using True w ramfs_write_cut[OF True len, of a s] unfolding n_def[symmetric] Let_def by (simp only: if_True) blast
next
  case False
  have "node_ok (objects s) a r" using wf a(1) by (simp add: ramfs_wf_def)
  then show ?thesis using False ramfs_write_outside[OF a(1) _ a(2) _ _ len] by (simp add: node_ok_def not_le)
qed

lemma best_mount_root:
  assumes "\<forall>m \<in> set ms. m_used m \<longrightarrow> m_path m = ''/''" and "c \<noteq> CHR 0x00"
  shows "best_mount ms (CHR ''/'' # c # rest) bl br =
    (case find (\<lambda>m. m_used m \<and> m_path m = ''/'') ms of
       Some m \<Rightarrow> if c = CHR ''/'' \<and> bl < 1 then (1, m_root m) else (bl, br)
     | None \<Rightarrow> (bl, br))"
  using assms(1)
proof (induction ms arbitrary: bl br)
  case (Cons m ms)
  have "common_len ''/'' (CHR ''/'' # c # rest) = 1" by simp
  then show ?case using Cons assms(2) by (auto simp: char_at_def Let_def split: option.splits)
qed simp

lemma walk_slashes: "walk_path (CHR ''/'' # p) a s = walk_path (dropWhile (\<lambda>c. c = CHR ''/'') p) a s"
  by (subst (1 2) walk_path.simps) (simp add: Let_def)

text \<open>C34: When only the root is mounted, an absolute path below it with one slash at the start does not
  resolve: a mount matches a path only where the path ends or goes on with a slash, and after the
  mount path \<open>/\<close> the first component starts at once. With two slashes at the start it resolves as
  the path from the root should.\<close>

theorem absolute_path_unresolved:
  assumes "\<forall>m \<in> set (mounts s). m_used m \<longrightarrow> m_path m = ''/''" and "c \<noteq> CHR 0x00"
  shows "vfs_resolve (Some (CHR ''/'' # c # rest)) s =
    (if c = CHR ''/'' then vfs_resolve_relative (vfs_get_root s) (Some (dropWhile (\<lambda>c. c = CHR ''/'') rest)) s
     else Inr (nullptr, s))"
proof -
  have "char_at (dropWhile (\<lambda>c. c = CHR ''/'') rest) 0 \<noteq> CHR ''/''"
    using hd_dropWhile[of "\<lambda>c. c = CHR ''/''" rest] by (cases "dropWhile (\<lambda>c. c = CHR ''/'') rest") (auto simp: char_at_def)
  then show ?thesis using best_mount_root[OF assms, of rest "-1" nullptr] walk_slashes[of rest]
    by (auto simp: vfs_resolve_def find_mount_root_def vfs_resolve_relative_def vfs_get_root_def split: option.splits)
qed

section \<open>Examples\<close>

lemma demo_node_ok: "node_ok (objects demo_fs) 0x3010 demo_root" "node_ok (objects demo_fs) 0x4010 demo_file"
proof -
  have o: "objects demo_fs 0x3010 = Some (Ramfs_obj demo_root)" "objects demo_fs 0x4010 = Some (Ramfs_obj demo_file)"
    by (simp_all add: demo_fs_fields)
  have d: "is_ramfs_dir (objects demo_fs) 0x3010" using o by (simp add: is_ramfs_dir_def demo_root_def)
  have "sibs (objects demo_fs) 0x4010 [0x4010]" using o by (simp add: demo_file_def)
  then show "node_ok (objects demo_fs) 0x3010 demo_root"
    unfolding node_ok_def using d o by (auto simp: demo_root_def demo_file_def kind_ok_def intro!: exI[of _ "[0x4010]"])
  show "node_ok (objects demo_fs) 0x4010 demo_file"
    unfolding node_ok_def using d by (auto simp: demo_file_def kind_ok_def intro!: exI[of _ "[]"])
qed

lemma demo_fs_wf: "ramfs_wf demo_fs {0x3000, 0x4000}" "is_ramfs_dir (objects demo_fs) 0x3010"
proof -
  have "a = 0x3010 \<and> r = demo_root \<or> a = 0x4010 \<and> r = demo_file" if "objects demo_fs a = Some (Ramfs_obj r)" for a r
    using that by (auto simp: demo_fs_fields split: if_splits)
  then have "node_ok (objects demo_fs) a r" if "objects demo_fs a = Some (Ramfs_obj r)" for a r
    using that demo_node_ok by blast
  moreover have "a - 16 \<in> {0x3000, 0x4000}" if "objects demo_fs a \<noteq> None" for a
    using that by (auto simp: demo_fs_fields split: if_splits)
  ultimately show "ramfs_wf demo_fs {0x3000, 0x4000}" unfolding ramfs_wf_def by (simp add: demo_fs_fields)
  show "is_ramfs_dir (objects demo_fs) 0x3010" by (simp add: is_ramfs_dir_def demo_fs_fields demo_root_def)
qed

lemma demo_room: "node_room [0x1000] demo_fs"
proof -
  have "needed_bytes 436 = 460" by (simp add: needed_bytes_def heap_consts Let_def)
  moreover have "h_size (mem demo_fs) 0x1000 = 4096" using demo_heap_inv(2) by (simp add: demo_fs_defs)
  ultimately show ?thesis by (simp add: node_room_def demo_fs_fields)
qed

lemma demo_mkdir:
  obtains n s' where "ramfs_create_dir 0x3010 ''tmp'' demo_fs = Inr (n, s')" "n \<noteq> nullptr"
proof -
  have par: "objects demo_fs 0x3010 = Some (Ramfs_obj demo_root)" "n_flags (r_vnode demo_root) = FS_DIR"
    by (simp_all add: demo_fs_fields demo_root_def)
  obtain n s' where "create_node (dir_vnode 0x3010) 0x3010 ''tmp'' demo_fs = Inr (n, s')" "node_room [0x1000] demo_fs \<longrightarrow> n \<noteq> nullptr"
    by (rule create_node_ok[where v = "dir_vnode 0x3010" and nm = "''tmp''", OF demo_fs_inv demo_fs_wf(1) par vnode_for_new(2)]) simp_all
  then show thesis using that create_as_node(2)[OF demo_fs_wf(2), of "''tmp''"] demo_room by simp
qed

theorem ramfs_create_keeps_wf_witness:
  "\<exists>n s' hs' al'. ramfs_create_dir 0x3010 ''tmp'' demo_fs = Inr (n, s') \<and> heap_inv s' hs' al' \<and> ramfs_wf s' al'"
  using ramfs_create_keeps_wf[OF demo_fs_inv demo_fs_wf, of ramfs_create_dir "''tmp''"] by auto

theorem ramfs_created_resolves_witness:
  "\<exists>n s'. ramfs_create_dir 0x3010 ''tmp'' demo_fs = Inr (n, s') \<and> vfs_resolve_relative 0x3010 (Some ''tmp'') s' = Inr (n, s')"
proof -
  obtain n s' where c: "ramfs_create_dir 0x3010 ''tmp'' demo_fs = Inr (n, s')" "n \<noteq> nullptr" by (rule demo_mkdir)
  then show ?thesis
    using ramfs_created_resolves[OF demo_fs_inv demo_fs_wf, of "''tmp''" ramfs_create_dir n s'] by (auto simp: name_ok_def)
qed

theorem ramfs_write_read_witness:
  "(\<exists>s'. ramfs_write 0x4010 254 4 [7, 8, 9, 10] demo_fs = Inr (2, s') \<and> ramfs_read 0x4010 254 4 s' = Inr (Some [7, 8]))
   \<and> ramfs_write 0x4010 300 1 [7] demo_fs = Inl Out_of_bounds"
proof -
  have "objects demo_fs 0x4010 = Some (Ramfs_obj demo_file)" "n_flags (r_vnode demo_file) = FS_FILE"
    by (simp_all add: demo_fs_fields demo_file_def)
  note w = ramfs_write_read[OF demo_fs_wf(1) this]
  show ?thesis using w[of 254 "[7, 8, 9, 10]"] w[of 300 "[7]"] by (auto simp: Let_def)
qed

theorem absolute_path_unresolved_witness:
  "vfs_resolve (Some ''/a'') demo_fs = Inr (nullptr, demo_fs)
   \<and> vfs_resolve (Some ''//a'') demo_fs = vfs_resolve_relative 0x3010 (Some ''a'') demo_fs"
proof -
  have m: "\<forall>m \<in> set (mounts demo_fs). m_used m \<longrightarrow> m_path m = ''/''" by (auto simp: demo_fs_fields)
  have "vfs_get_root demo_fs = 0x3010" by (simp add: vfs_get_root_def demo_fs_fields)
  then show ?thesis
    using absolute_path_unresolved[OF m, of "CHR ''a''" "[]"] absolute_path_unresolved[OF m, of "CHR ''/''" "''a''"] by simp
qed

end
