(* ===== verification/Shell_Correct.thy ===== *)
theory Shell_Correct
  imports Shell Ramfs_Properties
begin

text \<open>
  What the shell does with typed characters: the line editor against editing a list, a command
  from the keyboard buffer to the screen, and files written and shown by commands.
\<close>

section \<open>Output\<close>

definition term_ok :: "terminal \<Rightarrow> bool" where
  "term_ok t \<longleftrightarrow> term_inv t \<and> cursor_pos t = row t * 80 + col t"

text \<open>\<open>r\<close> is \<open>s\<close> with \<open>str\<close> on the terminal and nothing else changed.\<close>

definition shows_text :: "string \<Rightarrow> 'z vmm_state_scheme \<Rightarrow> 'z vmm_state_scheme res \<Rightarrow> bool" where
  "shows_text str s r \<longleftrightarrow> (\<exists>t. r = Inr (s\<lparr>console := t\<rparr>) \<and> term_ok t \<and> serial t = serial (console s) @ serial_bytes str)"

lemma serial_bytes_append [simp]: "serial_bytes (a @ b) = serial_bytes a @ serial_bytes b" "serial_bytes [] = []"
  by (simp_all add: serial_bytes_def)

lemma print_shows: "term_ok (console s) \<Longrightarrow> shows_text str s (print str s)"
  using term_write_safe[of "console s" str] by (auto simp: term_ok_def shows_text_def print_def)

lemma putchar_shows: "term_ok (console s) \<Longrightarrow> \<exists>t. putchar c (console s) = Inr t \<and> term_ok t \<and> serial t = serial (console s) @ serial_bytes [c]"
  using putchar_safe[of "console s" c] by (auto simp: term_ok_def)

definition out_text :: "out \<Rightarrow> string" where
  "out_text e = (case e of Txt t \<Rightarrow> t | Num n \<Rightarrow> projr (itoa n))"

lemma shows_bind:
  assumes "shows_text a s r" and "\<And>t. term_ok t \<Longrightarrow> shows_text b (s\<lparr>console := t\<rparr>) (f (s\<lparr>console := t\<rparr>))"
  shows "shows_text (a @ b) s (bindR r f)"
proof -
  obtain t where t: "r = Inr (s\<lparr>console := t\<rparr>)" "term_ok t" "serial t = serial (console s) @ serial_bytes a"
    using assms(1) by (auto simp: shows_text_def)
  then show ?thesis using assms(2)[OF t(2)] by (auto simp: shows_text_def)
qed

lemma say_shows: "term_ok (console s) \<Longrightarrow> shows_text (concat (map out_text os)) s (say os s)"
proof (induction os arbitrary: s)
  case Nil
  then show ?case by (auto simp: shows_text_def intro!: exI[of _ "console s"])
next
  case (Cons e os)
  have "shows_text (out_text e @ concat (map out_text os)) s (bindR (print (out_text e) s) (say os))"
    by (rule shows_bind[OF print_shows[OF Cons.prems]]) (use Cons.IH in simp)
  moreover have "say (e # os) s = bindR (print (out_text e) s) (say os)"
    using itoa_ok by (cases e) (auto simp: out_text_def, metis bindR_Inr sum.sel(2))
  ultimately show ?case by simp
qed

section \<open>The line editor\<close>

text \<open>Editing a line of at most 255 characters: a backspace removes the last one.\<close>

definition edit_key :: "string \<Rightarrow> char \<Rightarrow> string" where
  "edit_key l c = (if c = CHR 0x08 then butlast l else if length l < 255 then l @ [c] else l)"

definition key_echo :: "string \<Rightarrow> char \<Rightarrow> string" where
  "key_echo l c = (if c = CHR 0x08 then if l = [] then [] else [c] else if length l < 255 then [c] else [])"

fun keys_echo :: "string \<Rightarrow> string \<Rightarrow> string" where
  "keys_echo l [] = []"
| "keys_echo l (c # cs) = key_echo l c @ keys_echo (edit_key l c) cs"

definition line_is :: "string \<Rightarrow> string \<Rightarrow> bool" where
  "line_is cs l \<longleftrightarrow> length l \<le> 255 \<and> length cs = 256 \<and> take (length l) cs = l"

lemma key_edits:
  assumes "line_is (cmd s) l" "idx s = int (length l)" "term_ok (console s)" "c \<noteq> CHR 0x0A"
  obtains t cs where "shell_on_key a f c s = Inr (s\<lparr>console := t, cmd := cs, idx := int (length (edit_key l c))\<rparr>)"
    "line_is cs (edit_key l c)" "term_ok t" "serial t = serial (console s) @ serial_bytes (key_echo l c)"
proof -
  have len: "length l \<le> 255" "length (cmd s) = 256" "take (length l) (cmd s) = l" using assms(1) by (simp_all add: line_is_def)
  have id: "s\<lparr>console := console s, cmd := cmd s, idx := int (length l)\<rparr> = s" using assms(2) by simp
  obtain t where t: "putchar c (console s) = Inr t" "term_ok t" "serial t = serial (console s) @ serial_bytes [c]"
    using putchar_shows[OF assms(3)] by blast
  consider "c = CHR 0x08" "l = []" | "c = CHR 0x08" "l \<noteq> []" | "c \<noteq> CHR 0x08" "length l < 255" | "c \<noteq> CHR 0x08" "length l = 255"
    using len(1) by linarith
  then show thesis
  proof cases
    case 1
    then show thesis using that[where t = "console s" and cs = "cmd s"] id assms
      by (simp add: shell_on_key_def edit_key_def key_echo_def)
  next
    case 2
    have "take (length l - 1) (cmd s) = butlast l"
      using len by (metis butlast_conv_take diff_le_self min.absorb1 take_take)
    then show thesis using that[where t = t and cs = "cmd s"] 2 t len assms(2)
      by (simp add: shell_on_key_def edit_key_def key_echo_def backspace_def line_is_def Let_def of_nat_diff Suc_leI)
  next
    case 3
    have "take (length l) (cmd s) @ [c] = take (Suc (length l)) ((cmd s)[length l := c])"
      using len 3 by (simp add: take_Suc_conv_app_nth take_update_swap)
    then show thesis using that[where t = t and cs = "(cmd s)[length l := c]"] 3 t len assms
      by (simp add: shell_on_key_def edit_key_def key_echo_def line_is_def Let_def)
  next
    case 4
    then show thesis using that[where t = "console s" and cs = "cmd s"] id assms
      by (simp add: shell_on_key_def edit_key_def key_echo_def)
  qed
qed

text \<open>The keys before the first newline edit the line; the buffer keeps what comes after them.\<close>

lemma tick_edits:
  assumes "nl = CHR 0x0A" "nl \<notin> set keys" "kbd_inv (kbd_buf s)" "kbd_contents (kbd_buf s) = keys @ later"
    "line_is (cmd s) l" "idx s = int (length l)" "term_ok (console s)"
  shows "\<exists>t cs b. shell_tick_loop a f s = shell_tick_loop a f (s\<lparr>console := t, cmd := cs, idx := int (length (foldl edit_key l keys)), kbd_buf := b\<rparr>)
    \<and> line_is cs (foldl edit_key l keys) \<and> term_ok t \<and> serial t = serial (console s) @ serial_bytes (keys_echo l keys)
    \<and> kbd_inv b \<and> kbd_contents b = later"
  using assms
proof (induction keys arbitrary: s l)
  case Nil
  then have "s\<lparr>console := console s, cmd := cmd s, idx := int (length l), kbd_buf := kbd_buf s\<rparr> = s" by simp
  then show ?case using Nil by (metis append_Nil append_Nil2 foldl_Nil keys_echo.simps(1) serial_bytes_append(2))
next
  case (Cons c keys)
  obtain b where b: "keyboard_buffer_pop (kbd_buf s) = Some (c, b)" "kbd_inv b" "kbd_contents b = keys @ later"
    using kbd.pop_first[OF Cons.prems(3), of c "keys @ later"] Cons.prems(4) by auto
  let ?s = "s\<lparr>kbd_buf := b\<rparr>"
  obtain t cs where k: "shell_on_key a f c ?s = Inr (?s\<lparr>console := t, cmd := cs, idx := int (length (edit_key l c))\<rparr>)"
    "line_is cs (edit_key l c)" "term_ok t" "serial t = serial (console ?s) @ serial_bytes (key_echo l c)"
    by (rule key_edits[of ?s l c]) (use Cons.prems in auto)
  let ?s1 = "?s\<lparr>console := t, cmd := cs, idx := int (length (edit_key l c))\<rparr>"
  have "shell_tick_loop a f s = shell_tick_loop a f ?s1"
    using b(1) k(1) by (subst shell_tick_loop.simps) simp
  moreover have "nl \<notin> set keys" using Cons.prems(2) by simp
  ultimately show ?case
    using Cons.IH[OF Cons.prems(1), of ?s1 "edit_key l c"] k(2-4) b(2,3) by (simp only: keys_echo.simps foldl_Cons) simp
qed

text \<open>At a newline the edited line is in \<open>cmd\<close> when the command runs.\<close>

lemma takeWhile_stop: "\<not> P z \<Longrightarrow> takeWhile P (xs @ z # ys) = takeWhile P xs"
  by (induction xs) simp_all

lemma line_is_text:
  assumes "line_is cs l"
  shows "cstr_at (cs[length l := CHR 0x00]) 0 = Inr (takeWhile (\<lambda>c. c \<noteq> CHR 0x00) l)"
proof -
  have n: "length l < length cs" and l: "take (length l) cs = l" using assms by (simp_all add: line_is_def)
  have cs: "cs[length l := CHR 0x00] = l @ CHR 0x00 # drop (Suc (length l)) cs"
    using n l by (simp add: upd_conv_take_nth_drop)
  show ?thesis unfolding cs by (simp add: cstr_at_def takeWhile_stop)
qed

lemma tick_line:
  assumes nl: "CHR 0x0A \<notin> set keys" and kb: "kbd_inv (kbd_buf s)" "kbd_contents (kbd_buf s) = keys @ CHR 0x0A # later"
    and s: "length (cmd s) = 256" "idx s = 0" "term_ok (console s)"
  obtains t cs b where
    "shell_tick a f s =
       bindR (execute a f (s\<lparr>idx := int (length (foldl edit_key [] keys)), kbd_buf := b, console := t, cmd := cs\<rparr>))
         (\<lambda>s. bindR (print ''> '' (s\<lparr>idx := 0\<rparr>)) (shell_tick a f))"
    "cstr_at cs 0 = Inr (takeWhile (\<lambda>c. c \<noteq> CHR 0x00) (foldl edit_key [] keys))" "length cs = 256"
    "term_ok t" "serial t = serial (console s) @ serial_bytes (keys_echo [] keys @ [CHR 0x0A])"
    "kbd_inv b" "kbd_contents b = later"
proof -
  let ?l = "foldl edit_key [] keys"
  have "line_is (cmd s) []" using s by (simp add: line_is_def)
  from tick_edits[OF refl nl kb this, of a f] s obtain t cs b where e:
    "shell_tick_loop a f s = shell_tick_loop a f (s\<lparr>console := t, cmd := cs, idx := int (length ?l), kbd_buf := b\<rparr>)"
    "line_is cs ?l" "term_ok t" "serial t = serial (console s) @ serial_bytes (keys_echo [] keys)"
    "kbd_inv b" "kbd_contents b = CHR 0x0A # later" by auto
  obtain b' where b: "keyboard_buffer_pop b = Some (CHR 0x0A, b')" "kbd_inv b'" "kbd_contents b' = later"
    using kbd.pop_first[OF e(5,6)] by auto
  let ?s = "s\<lparr>console := t, cmd := cs, idx := int (length ?l), kbd_buf := b'\<rparr>"
  obtain t' where t': "print [CHR 0x0A] ?s = Inr (?s\<lparr>console := t'\<rparr>)" "term_ok t'" "serial t' = serial t @ serial_bytes [CHR 0x0A]"
    using print_shows[of ?s "[CHR 0x0A]"] e(3) by (auto simp: shows_text_def)
  let ?cs = "cs[length ?l := CHR 0x00]"
  have "length ?l < length cs" using e(2) by (simp add: line_is_def)
  then have k: "shell_on_key a f (CHR 0x0A) ?s =
      bindR (execute a f (?s\<lparr>console := t', cmd := ?cs\<rparr>)) (\<lambda>s. print ''> '' (s\<lparr>idx := 0\<rparr>))"
    using t'(1) by (simp add: shell_on_key_def)
  have "shell_tick a f s = bindR (shell_on_key a f (CHR 0x0A) ?s) (shell_tick a f)"
    unfolding shell_tick_def e(1)
    by (subst shell_tick_loop.simps) (use b(1) in \<open>auto split: sum.splits\<close>)
  then show thesis
    using that[where t = t' and cs = ?cs and b = b'] k line_is_text[OF e(2)] t' b e(2,4)
    by (simp add: bindR_assoc line_is_def)
qed

section \<open>Commands\<close>

lemma cstr_split:
  assumes "cstr_at cs 0 = Inr w"
  obtains r where "cs = w @ CHR 0x00 # r" "CHR 0x00 \<notin> set w"
proof -
  have w: "w = takeWhile (\<lambda>c. c \<noteq> CHR 0x00) cs" and z: "CHR 0x00 \<in> set cs" using assms by (auto simp: cstr_at_def split: if_splits)
  obtain ys r where "cs = ys @ CHR 0x00 # r" "CHR 0x00 \<notin> set ys" using split_list_first[OF z] by blast
  moreover from this have "w = ys" unfolding w by (auto simp: takeWhile_stop intro!: takeWhile_eq_all_conv[THEN iffD2])
  ultimately show thesis using that by blast
qed

lemma cstr_part: "CHR 0x00 \<notin> set w \<Longrightarrow> length p = k \<Longrightarrow> cstr_at (p @ w @ CHR 0x00 # r) k = Inr w"
  by (auto simp: cstr_at_def takeWhile_stop intro!: takeWhile_eq_all_conv[THEN iffD2])

lemma cstr_at_drop:
  assumes "cstr_at cs 0 = Inr w" "k \<le> length w"
  shows "cstr_at cs k = Inr (drop k w)"
proof -
  obtain r where r: "cs = w @ CHR 0x00 # r" "CHR 0x00 \<notin> set w" by (rule cstr_split[OF assms(1)])
  then have "cs = take k w @ drop k w @ CHR 0x00 # r" by simp
  moreover have "CHR 0x00 \<notin> set (drop k w)" using r(2) by (meson in_set_dropD)
  ultimately show ?thesis using cstr_part[of "drop k w" "take k w" k r] assms(2) by simp
qed

lemma arg_drop: "arg 0 s = Inr w \<Longrightarrow> k \<le> length w \<Longrightarrow> arg k s = Inr (drop k w)"
  unfolding arg_def by (rule cstr_at_drop)

text \<open>Comparisons with the names of commands.\<close>

lemma of_char_eq_iff: "(of_char x - of_char y = (0 :: int)) = (x = y)"
  by simp

lemma strcmp_cases:
  "(strcmp (x # xs) (y # ys) = 0) = (x = y \<and> strcmp xs ys = 0)" "strcmp [] [] = 0"
  "(strcmp (x # xs) [] = 0) = (x = CHR 0x00)"
  using of_char_eq_iff[of x "CHR 0x00"] by (auto simp: of_char_eq_iff)

lemma strncmp_cases:
  "(strncmp (x # xs) (y # ys) (numeral k) = 0) = (x = y \<and> strncmp xs ys (pred_numeral k) = 0)" "strncmp xs ys 0 = 0"
  "(strncmp (x # xs) (y # ys) (Suc n) = 0) = (x = y \<and> strncmp xs ys n = 0)"
  by (auto simp: numeral_eq_Suc of_char_eq_iff)

lemmas dispatch = strcmp_cases strncmp_cases

lemma execute_cmd:
  "arg 0 s = Inr (''touch '' @ w) \<Longrightarrow> execute a f s = cmd_touch s"
  "arg 0 s = Inr (''mkdir '' @ w) \<Longrightarrow> execute a f s = cmd_mkdir s"
  "arg 0 s = Inr (''cat '' @ w) \<Longrightarrow> execute a f s = cmd_cat s"
  "arg 0 s = Inr (''cd '' @ w) \<Longrightarrow> execute a f s = cmd_cd s"
  "arg 0 s = Inr (''write '' @ w) \<Longrightarrow> execute a f s = cmd_write (''write '' @ w) s"
  "arg 0 s = Inr (''wc '' @ w) \<Longrightarrow> execute a f s = cmd_wc_head_rev (''wc '' @ w) s"
  "arg 0 s = Inr (''rev '' @ w) \<Longrightarrow> execute a f s = cmd_wc_head_rev (''rev '' @ w) s"
  "arg 0 s = Inr (''echo '' @ w) \<Longrightarrow> execute a f s = say [Txt w, line []] s"
  using arg_drop[of s "''echo '' @ w" 5]
  by (simp_all add: execute_def dispatch del: strcmp.simps strncmp.simps(2-5) say.simps)

text \<open>Characters that only add themselves to the line.\<close>

definition plain :: "string \<Rightarrow> bool" where
  "plain w \<longleftrightarrow> CHR 0x0A \<notin> set w \<and> CHR 0x08 \<notin> set w \<and> CHR 0x00 \<notin> set w"

lemma edit_plain:
  "plain w \<Longrightarrow> length l + length w \<le> 255 \<Longrightarrow> foldl edit_key l w = l @ w \<and> keys_echo l w = w"
  by (induction w arbitrary: l) (auto simp: plain_def edit_key_def key_echo_def)

lemma plain_text: "plain w \<Longrightarrow> takeWhile (\<lambda>c. c \<noteq> CHR 0x00) w = w"
  by (auto simp: plain_def takeWhile_eq_all_conv)

lemma edit_line:
  assumes "plain w" "length w \<le> 255"
  shows "foldl edit_key [] w = w" "keys_echo [] w = w"
  using edit_plain[of w "[]"] assms by simp_all

text \<open>C20: The shell edits its line as a list of at most 255 characters: keys append themselves, a backspace
  removes the last character, more keys are ignored. At a newline it runs the command
  with exactly the edited line in \<open>cmd\<close>, then prints its prompt and goes on with the keys that
  are left in the keyboard buffer.\<close>

theorem shell_runs_edited_line:
  fixes s :: "'z shell_state_scheme"
  assumes "CHR 0x0A \<notin> set keys" "kbd_inv (kbd_buf s)" "kbd_contents (kbd_buf s) = keys @ CHR 0x0A # later"
    and "length (cmd s) = 256" "idx s = 0" "term_ok (console s)"
  shows "\<exists>t cs b. shell_tick a f s =
       bindR (execute a f (s\<lparr>idx := int (length (foldl edit_key [] keys)), kbd_buf := b, console := t, cmd := cs\<rparr>))
         (\<lambda>s. bindR (print ''> '' (s\<lparr>idx := 0\<rparr>)) (shell_tick a f))
    \<and> cstr_at cs 0 = Inr (takeWhile (\<lambda>c. c \<noteq> CHR 0x00) (foldl edit_key [] keys)) \<and> length cs = 256
    \<and> term_ok t \<and> serial t = serial (console s) @ serial_bytes (keys_echo [] keys @ [CHR 0x0A])
    \<and> kbd_inv b \<and> kbd_contents b = later"
  by (rule tick_line[OF assms, of a f]) blast

text \<open>C23: From the keyboard buffer to the screen: with \<open>echo\<close> and a text waiting in the buffer, \<open>shell_tick\<close>
  echoes the keys, runs the command, prints the text on a line of its own and the prompt, and
  returns with the buffer empty.\<close>

theorem shell_echo_shows:
  fixes s :: "'z shell_state_scheme"
  assumes "kbd_inv (kbd_buf s)" "kbd_contents (kbd_buf s) = ''echo '' @ w @ [CHR 0x0A]" "plain w"
    and "length (cmd s) = 256" "idx s = 0" "term_ok (console s)"
  shows "\<exists>s'. shell_tick a f s = Inr s' \<and> kbd_contents (kbd_buf s') = [] \<and> idx s' = 0 \<and> term_ok (console s')
    \<and> serial (console s') = serial (console s) @ serial_bytes (''echo '' @ w @ [CHR 0x0A] @ w @ [CHR 0x0A] @ ''> '')"
proof -
  let ?k = "''echo '' @ w"
  have p: "plain ?k" using assms(3) by (simp add: plain_def)
  have len: "length ?k \<le> 255" using kbd.contents_bound[OF assms(1)] assms(2) by simp
  have nl: "CHR 0x0A \<notin> set ?k" using p unfolding plain_def by blast
  have c: "kbd_contents (kbd_buf s) = ?k @ CHR 0x0A # []" using assms(2) by simp
  note e = edit_line[OF p len]
  obtain t cs b where t: "shell_tick a f s =
      bindR (execute a f (s\<lparr>idx := int (length ?k), kbd_buf := b, console := t, cmd := cs\<rparr>))
        (\<lambda>s. bindR (print ''> '' (s\<lparr>idx := 0\<rparr>)) (shell_tick a f))"
    "cstr_at cs 0 = Inr ?k" "term_ok t" "serial t = serial (console s) @ serial_bytes (?k @ [CHR 0x0A])"
    "kbd_inv b" "kbd_contents b = []"
    by (rule tick_line[where a = a and f = f, OF nl assms(1) c assms(4-6), unfolded e plain_text[OF p]])
  let ?s = "s\<lparr>idx := int (length ?k), kbd_buf := b, console := t, cmd := cs\<rparr>"
  have x: "execute a f ?s = say [Txt w, line ''''] ?s" by (rule execute_cmd) (simp add: arg_def t(2))
  obtain t1 where t1: "say [Txt w, line ''''] ?s = Inr (?s\<lparr>console := t1\<rparr>)" "term_ok t1"
    "serial t1 = serial t @ serial_bytes (w @ [CHR 0x0A])"
    using say_shows[of ?s "[Txt w, line '''']"] t(3) by (auto simp: shows_text_def out_text_def line_def)
  let ?s1 = "?s\<lparr>console := t1, idx := 0\<rparr>"
  obtain t2 where t2: "print ''> '' ?s1 = Inr (?s1\<lparr>console := t2\<rparr>)" "term_ok t2" "serial t2 = serial t1 @ serial_bytes ''> ''"
    using print_shows[of ?s1 "''> ''"] t1(2) by (auto simp: shows_text_def)
  have "shell_tick a f (?s1\<lparr>console := t2\<rparr>) = Inr (?s1\<lparr>console := t2\<rparr>)"
    using kbd.pop_empty[OF t(5,6)] unfolding shell_tick_def by (subst shell_tick_loop.simps) simp
  then have "shell_tick a f s = Inr (?s1\<lparr>console := t2\<rparr>)" using t(1) x t1(1) t2(1) by simp
  then show ?thesis using t(4,6) t1(3) t2(2,3) by (simp add: serial_bytes_def)
qed

section \<open>Files\<close>

lemma find_file_ok:
  assumes "is_ramfs_dir (objects s) (cwd s)" "ramfs_wf s al" "ramfs_finddir (cwd s) nm s = Inr a"
    "objects s a = Some (Ramfs_obj r)" "n_flags (r_vnode r) = FS_FILE"
  shows "find_file nm s = Inr (a, s)" "cwd s \<noteq> nullptr" "a \<noteq> nullptr"
proof -
  obtain d where d: "objects s (cwd s) = Some (Ramfs_obj d)" "n_flags (r_vnode d) = FS_DIR"
    using assms(1) by (auto simp: is_ramfs_dir_def)
  have ok: "node_ok (objects s) (cwd s) d" "node_ok (objects s) a r" using assms(2,4) d(1) by (simp_all add: ramfs_wf_def)
  then have "n_finddir (r_vnode d) = Some Ramfs_finddir" using d(2) by (auto simp: node_ok_def kind_ok_def)
  moreover show "a \<noteq> nullptr" "cwd s \<noteq> nullptr" using ok by (simp_all add: node_ok_def)
  moreover have "FS_FILE AND FS_FILE \<noteq> 0" by (simp add: FS_FILE_def)
  ultimately show "find_file nm s = Inr (a, s)"
    using d(1) assms(3-5) by (simp add: find_file_def get_node_def call_finddir_def)
qed

text \<open>The text of a file, as far as it was written.\<close>

definition file_text :: "ramfs_node \<Rightarrow> string" where
  "file_text r = map (\<lambda>b. char_of (unat b)) (take (unat (n_size (r_vnode r))) (r_data r))"

lemma char_of_byte: "char_of (unat (of_char c :: u8)) = c"
proof -
  have "unat (of_char c :: u8) = unat (of_nat (of_char c) :: u8)" by (simp only: of_nat_of_char)
  also have "\<dots> = of_char c" using nat_of_char_less_256[of c] by (simp add: unat_of_nat del: of_nat_of_char)
  finally show ?thesis by simp
qed

lemma ramfs_read_start:
  assumes "objects s a = Some (Ramfs_obj r)" "a \<noteq> nullptr" "n_flags (r_vnode r) = FS_FILE" "length (r_data r) = 256" "n_size (r_vnode r) \<le> 256"
  shows "ramfs_read a 0 n s = Inr (Some (take (min (unat n) (unat (n_size (r_vnode r)))) (r_data r)))"
proof (cases "n \<le> n_size (r_vnode r)")
  case True
  then show ?thesis using ramfs_read_ok[OF assms, of 0 n] by (simp add: word_le_nat_alt min_def)
next
  case False
  have "read_data (unat (n_size (r_vnode r))) (r_data r) 0 = Inr (take (unat (n_size (r_vnode r))) (r_data r))"
    using read_data_ok[of 0 "unat (n_size (r_vnode r))" "r_data r"] assms(4,5) by (simp add: word_le_nat_alt)
  moreover have "min (unat n) (unat (n_size (r_vnode r))) = unat (n_size (r_vnode r))"
    using False by (simp add: word_le_nat_alt)
  ultimately show ?thesis using assms(1-3) False
    by (auto simp: ramfs_read_def get_node_def get_ramfs_def Let_def word_le_nat_alt word_less_nat_alt)
qed

lemma read_buffer_ok:
  assumes "ramfs_wf s al" "objects s a = Some (Ramfs_obj r)" "n_flags (r_vnode r) = FS_FILE"
  shows "read_buffer a s = Inr (take 255 (file_text r), s)"
proof -
  have ok: "node_ok (objects s) a r" using assms(1,2) by (simp add: ramfs_wf_def)
  then have n: "a \<noteq> nullptr" "length (r_data r) = 256" "n_size (r_vnode r) \<le> 256" "n_read (r_vnode r) = Some Ramfs_read"
    using assms(3) by (auto simp: node_ok_def kind_ok_def)
  show ?thesis using ramfs_read_start[OF assms(2) n(1) assms(3) n(2,3), of 255] n(4) assms(2)
    by (simp add: read_buffer_def get_node_def call_read_def file_text_def take_map min.commute)
qed

lemma cmd_cat_shows:
  assumes wf: "ramfs_wf s al" and d: "is_ramfs_dir (objects s) (cwd s)" and a: "ramfs_finddir (cwd s) nm s = Inr a"
    "objects s a = Some (Ramfs_obj r)" "n_flags (r_vnode r) = FS_FILE"
    and c: "arg 0 s = Inr (''cat '' @ nm)" and t: "term_ok (console s)"
  shows "shows_text (takeWhile (\<lambda>c. c \<noteq> CHR 0x00) (take 255 (file_text r)) @ [CHR 0x0A]) s (execute x f s)"
proof -
  have "execute x f s = cmd_cat s" using c by (rule execute_cmd)
  moreover have "arg 4 s = Inr nm" using arg_drop[OF c, of 4] by simp
  ultimately have "execute x f s = say [Txt (takeWhile (\<lambda>c. c \<noteq> CHR 0x00) (take 255 (file_text r))), line []] s"
    using find_file_ok[OF d wf a] read_buffer_ok[OF wf a(2,3)] by (simp add: cmd_cat_def del: say.simps)
  then show ?thesis using say_shows[OF t, of "[Txt (takeWhile (\<lambda>c. c \<noteq> CHR 0x00) (take 255 (file_text r))), line []]"]
    by (simp add: out_text_def line_def)
qed

lemma find_space:
  assumes "CHR '' '' \<notin> set nm" "c = p @ nm @ CHR '' '' # w" "length p = k"
  shows "find (\<lambda>i. c ! i = CHR '' '') [k..<length c] = Some (k + length nm)"
  unfolding assms(3)[symmetric]
proof -
  have "c ! (length p + j) \<noteq> CHR '' ''" if "j < length nm" for j
    using that assms by (auto simp: nth_append in_set_conv_nth)
  then show "find (\<lambda>i. c ! i = CHR '' '') [length p..<length c] = Some (length p + length nm)"
    unfolding find_Some_iff using assms(2) by (intro exI[of _ "length nm"]) (auto simp: nth_append)
qed

lemma finddir_same:
  assumes wf: "ramfs_wf s al" and d: "objects s c = Some (Ramfs_obj d)" "n_flags (r_vnode d) = FS_DIR"
    and a: "objects s a = Some (Ramfs_obj r)" "n_flags (r_vnode r) = FS_FILE" "next_sibling r' = next_sibling r" "n_name (r_vnode r') = n_name (r_vnode r)"
    and t: "objects t = (objects s)(a \<mapsto> Ramfs_obj r')"
  shows "ramfs_finddir c nm t = ramfs_finddir c nm s"
proof -
  have "node_ok (objects s) c d" using wf d(1) by (simp add: ramfs_wf_def)
  then obtain cs where cs: "sibs (objects s) (first_child d) cs" and nz: "c \<noteq> nullptr" unfolding node_ok_def by blast
  have ac: "a \<noteq> c" using a(1,2) d by auto
  have "finddir_loop p nm t = finddir_loop p nm s" if "sibs (objects s) p cs" for p cs
    using that
  proof (induction cs arbitrary: p)
    case Nil
    then show ?case by (subst (1 2) finddir_loop.simps) simp
  next
    case (Cons x cs)
    then obtain q where q: "p = x" "x \<noteq> nullptr" "objects s x = Some (Ramfs_obj q)" "sibs (objects s) (next_sibling q) cs" by auto
    then show ?case using Cons.IH[OF q(4)] a t by (subst (1 2) finddir_loop.simps) (auto simp: get_ramfs_def)
  qed
  then show ?thesis using cs ramfs_finddir_dir[OF d nz, of nm] ramfs_finddir_dir[of t c d nm] d nz t ac by simp
qed

lemma file_text_write:
  assumes "length (r_data r) = 256" "length w \<le> 256" "n_size (r_vnode r) \<le> 256"
    "n_size (r_vnode r') = max (n_size (r_vnode r)) (of_nat (length w))"
    "r_data r' = map of_char w @ drop (length w) (r_data r)"
  shows "file_text r' = w @ drop (length w) (file_text r)"
proof -
  have l: "unat (of_nat (length w) :: u32) = length w" using assms(2) by (simp add: unat_of_nat)
  have "unat (n_size (r_vnode r')) = max (unat (n_size (r_vnode r))) (length w)"
    unfolding assms(4) using l by (simp add: max_def word_le_nat_alt)
  then show ?thesis
    by (simp add: file_text_def assms(5) take_map drop_map comp_def char_of_byte take_drop max_def)
qed

lemma write_args:
  assumes c: "arg 0 s = Inr (''write '' @ nm @ CHR '' '' # w)" "CHR '' '' \<notin> set nm"
  defines "l \<equiv> ''write '' @ nm @ CHR '' '' # w"
  obtains cs where "find (\<lambda>i. l ! i = CHR '' '') [6..<length l] = Some (6 + length nm)"
    "array_set (cmd s) (6 + length nm) (CHR 0x00) = Inr cs" "cstr_at cs 6 = Inr nm" "cstr_at cs (6 + length nm + 1) = Inr w"
proof -
  obtain rest where rest: "cmd s = l @ CHR 0x00 # rest" "CHR 0x00 \<notin> set l"
    using c(1) unfolding arg_def l_def by (rule cstr_split)
  define cs where "cs = ''write '' @ nm @ CHR 0x00 # w @ CHR 0x00 # rest"
  have "find (\<lambda>i. l ! i = CHR '' '') [6..<length l] = Some (6 + length nm)"
    by (rule find_space[where p = "''write ''", OF c(2)]) (simp_all add: l_def)
  moreover have "array_set (cmd s) (6 + length nm) (CHR 0x00) = Inr cs"
    unfolding rest(1) l_def cs_def by (simp add: list_update_append nth_append)
  moreover have "cstr_at cs 6 = Inr nm" "cstr_at cs (6 + length nm + 1) = Inr w"
    unfolding cs_def using cstr_part[of nm "''write ''" 6 "w @ CHR 0x00 # rest"] cstr_part[of w "''write '' @ nm @ [CHR 0x00]" "6 + length nm + 1" rest] rest(2)
    by (simp_all add: l_def)
  ultimately show thesis by (rule that)
qed

lemma cmd_write_ok:
  fixes s :: "'z shell_state_scheme"
  assumes wf: "ramfs_wf s al" and d: "is_ramfs_dir (objects s) (cwd s)" and a: "ramfs_finddir (cwd s) nm s = Inr a"
    "objects s a = Some (Ramfs_obj r)" "n_flags (r_vnode r) = FS_FILE"
    and c: "arg 0 s = Inr (''write '' @ nm @ CHR '' '' # w)" "CHR '' '' \<notin> set nm" "w \<noteq> []" "length w \<le> 256"
    and t: "term_ok (console s)"
  obtains t cs r' where "execute x f s = Inr (s\<lparr>cmd := cs, objects := (objects s)(a \<mapsto> Ramfs_obj r'), console := t\<rparr>)"
    "term_ok t" "serial t = serial (console s) @ serial_bytes (''OK'' @ [CHR 0x0A])"
    "ramfs_wf (s\<lparr>objects := (objects s)(a \<mapsto> Ramfs_obj r')\<rparr>) al" "file_text r' = w @ drop (length w) (file_text r)"
    "next_sibling r' = next_sibling r" "n_name (r_vnode r') = n_name (r_vnode r)" "n_flags (r_vnode r') = FS_FILE"
proof -
  define l where "l = ''write '' @ nm @ CHR '' '' # w"
  obtain cs where sp: "find (\<lambda>i. l ! i = CHR '' '') [6..<length l] = Some (6 + length nm)"
    and set: "array_set (cmd s) (6 + length nm) (CHR 0x00) = Inr cs" and args: "cstr_at cs 6 = Inr nm" "cstr_at cs (6 + length nm + 1) = Inr w"
    using write_args[OF c(1,2)] unfolding l_def by blast
  let ?s = "s\<lparr>cmd := cs\<rparr>"
  obtain dn where dn: "objects s (cwd s) = Some (Ramfs_obj dn)" "n_flags (r_vnode dn) = FS_DIR"
    using d by (auto simp: is_ramfs_dir_def)
  have wf': "ramfs_wf ?s al" using wf by (simp add: ramfs_wf_def)
  have fd: "ramfs_finddir (cwd ?s) nm ?s = Inr a"
    using finddir_same[OF wf dn a(2,3) refl refl, of ?s nm] a(1,2) by (simp add: map_upd_triv)
  have ff: "find_file nm ?s = Inr (a, ?s)" "cwd s \<noteq> nullptr" "a \<noteq> nullptr"
    using find_file_ok[of ?s al nm a r] d wf' fd a(2,3) by simp_all
  have n: "length (r_data r) = 256" "n_size (r_vnode r) \<le> 256" "n_write (r_vnode r) = Some Ramfs_write"
    using wf a(2,3) unfolding ramfs_wf_def node_ok_def kind_ok_def by fastforce+
  obtain s1 r' where w: "ramfs_write a 0 (of_nat (length w)) (map of_char w) ?s = Inr (int (length w), s1)" "ramfs_wf s1 al"
    "s1 = ?s\<lparr>objects := (objects s)(a \<mapsto> Ramfs_obj r')\<rparr>" "next_sibling r' = next_sibling r"
    "n_name (r_vnode r') = n_name (r_vnode r)" "n_flags (r_vnode r') = FS_FILE" "n_size (r_vnode r') = max (n_size (r_vnode r)) (of_nat (length w))"
    "r_data r' = map of_char w @ drop (length w) (r_data r)"
    using ramfs_write_back[of ?s al a r 0 "map of_char w"] wf' a(2,3) c(4) by auto
  have e: "execute x f s = cmd_write l s" unfolding l_def using c(1) by (rule execute_cmd)
  also have "\<dots> = say [line ''OK''] s1"
    using ff sp set args w(1) a(2) n(3) c(3) by (simp add: cmd_write_def arg_def get_node_def call_write_def del: say.simps append.simps)
  finally have x: "execute x f s = say [line ''OK''] s1" .
  obtain t' where t': "say [line ''OK''] s1 = Inr (s1\<lparr>console := t'\<rparr>)" "term_ok t'" "serial t' = serial (console s) @ serial_bytes (''OK'' @ [CHR 0x0A])"
    using say_shows[of s1 "[line ''OK'']"] t w(3) by (auto simp: shows_text_def out_text_def line_def)
  have "ramfs_wf (s\<lparr>objects := (objects s)(a \<mapsto> Ramfs_obj r')\<rparr>) al"
    using w(2) unfolding w(3) by (simp add: ramfs_wf_def)
  moreover have "execute x f s = Inr (s\<lparr>cmd := cs, objects := (objects s)(a \<mapsto> Ramfs_obj r'), console := t'\<rparr>)"
    using x t'(1)[unfolded w(3)] w(3) by simp
  ultimately show thesis
    using that t'(2,3) w(4-6) file_text_write[OF n(1) c(4) n(2) w(7,8)] by blast
qed

text \<open>C22: What \<open>write\<close> puts into a file of the current directory, \<open>cat\<close> shows: the new text, followed by
  what was in the file beyond it, up to the first NUL among the first 255 characters. (\<open>write\<close>
  starts at the beginning of the file and does not shorten it.)\<close>

theorem shell_write_cat:
  fixes s :: "'z shell_state_scheme"
  assumes wf: "ramfs_wf s al" and d: "is_ramfs_dir (objects s) (cwd s)" and a: "ramfs_finddir (cwd s) nm s = Inr a"
    "objects s a = Some (Ramfs_obj r)" "n_flags (r_vnode r) = FS_FILE"
    and c: "arg 0 s = Inr (''write '' @ nm @ CHR '' '' # w)" "CHR '' '' \<notin> set nm" "w \<noteq> []" "length w \<le> 256"
    and t: "term_ok (console s)" and cat: "cstr_at cs 0 = Inr (''cat '' @ nm)"
  shows "\<exists>s1 s2. execute x f s = Inr s1 \<and> serial (console s1) = serial (console s) @ serial_bytes (''OK'' @ [CHR 0x0A])
    \<and> execute x f (s1\<lparr>cmd := cs\<rparr>) = Inr s2
    \<and> serial (console s2) = serial (console s1)
        @ serial_bytes (takeWhile (\<lambda>c. c \<noteq> CHR 0x00) (take 255 (w @ drop (length w) (file_text r))) @ [CHR 0x0A])"
proof -
  obtain t1 cs1 r' where w: "execute x f s = Inr (s\<lparr>cmd := cs1, objects := (objects s)(a \<mapsto> Ramfs_obj r'), console := t1\<rparr>)"
    "term_ok t1" "serial t1 = serial (console s) @ serial_bytes (''OK'' @ [CHR 0x0A])"
    "ramfs_wf (s\<lparr>objects := (objects s)(a \<mapsto> Ramfs_obj r')\<rparr>) al" "file_text r' = w @ drop (length w) (file_text r)"
    "next_sibling r' = next_sibling r" "n_name (r_vnode r') = n_name (r_vnode r)" "n_flags (r_vnode r') = FS_FILE"
    by (rule cmd_write_ok[where x = x and f = f, OF wf d a c t])
  let ?s1 = "s\<lparr>cmd := cs1, objects := (objects s)(a \<mapsto> Ramfs_obj r'), console := t1\<rparr>"
  let ?s = "?s1\<lparr>cmd := cs\<rparr>"
  obtain dn where dn: "objects s (cwd s) = Some (Ramfs_obj dn)" "n_flags (r_vnode dn) = FS_DIR"
    using d by (auto simp: is_ramfs_dir_def)
  have wf': "ramfs_wf ?s al" using w(4) by (simp add: ramfs_wf_def)
  have fd: "ramfs_finddir (cwd ?s) nm ?s = Inr a"
    using finddir_same[OF wf dn a(2,3) w(6,7), of ?s nm] a(1) by simp
  have "is_ramfs_dir (objects ?s) (cwd ?s)" using dn a(2,3) by (auto simp: is_ramfs_dir_def)
  then have "shows_text (takeWhile (\<lambda>c. c \<noteq> CHR 0x00) (take 255 (file_text r')) @ [CHR 0x0A]) ?s (execute x f ?s)"
    using wf' fd w(2,8) cat by (intro cmd_cat_shows[where a = a]) (simp_all add: arg_def)
  then show ?thesis using w(1,3,5) by (auto simp: shows_text_def)
qed

text \<open>C36: \<open>wc\<close> does not count: the test for it looks at the second character of the line, which is not the
  \<open>w\<close> it compares with, so the command goes the way of \<open>rev\<close> and prints the text backwards. The
  command \<open>rev\<close> itself has the second character of \<open>head\<close> and looks for a file whose name lacks
  the first character.\<close>

theorem shell_wc_prints_reversed:
  fixes s :: "'z shell_state_scheme"
  assumes wf: "ramfs_wf s al" and d: "is_ramfs_dir (objects s) (cwd s)" and a: "ramfs_finddir (cwd s) nm s = Inr a"
    "objects s a = Some (Ramfs_obj r)" "n_flags (r_vnode r) = FS_FILE"
    and t: "term_ok (console s)" and c: "arg 0 s = Inr (if wc then ''wc '' @ nm else ''rev '' @ z # nm)"
  shows "\<exists>s'. execute x f s = Inr s' \<and> serial (console s') = serial (console s)
    @ serial_bytes ((if wc then rev else (\<lambda>txt. head_chars txt 0)) (takeWhile (\<lambda>c. c \<noteq> CHR 0x00) (take 255 (file_text r))) @ [CHR 0x0A])"
proof -
  let ?l = "if wc then ''wc '' @ nm else ''rev '' @ z # nm"
  let ?t = "(if wc then rev else (\<lambda>txt. head_chars txt 0)) (takeWhile (\<lambda>c. c \<noteq> CHR 0x00) (take 255 (file_text r)))"
  have "execute x f s = cmd_wc_head_rev ?l s"
    using c execute_cmd(6)[of s nm] execute_cmd(7)[of s "z # nm"] by (cases wc) (simp_all only: if_True if_False)
  also have "\<dots> = say [Txt ?t, line []] s"
    using find_file_ok[OF d wf a] read_buffer_ok[OF wf a(2,3)] arg_drop[OF c, of 3] arg_drop[OF c, of 5]
    by (cases wc) (simp_all add: cmd_wc_head_rev_def Let_def del: say.simps)
  finally show ?thesis using say_shows[OF t, of "[Txt ?t, line []]"] by (auto simp: shows_text_def out_text_def line_def)
qed

section \<open>Examples\<close>

definition demo_keys :: kbd_buffer where
  "demo_keys = \<lparr>kbuf = ''echo hi'' @ [CHR 0x0A] @ replicate 248 (CHR 0x00), head = 8, tail = 0\<rparr>"

lemma demo_keys_ok: "kbd_inv demo_keys" "kbd_contents demo_keys = ''echo '' @ ''hi'' @ [CHR 0x0A]"
  by (simp_all add: demo_keys_def kbd_inv_def kbd_contents_def kbd_count_def ring_list_def upt_rec)

text \<open>The shell in the root directory of the file system of \<open>Demo_States\<close>, with a line in \<open>cmd\<close>.\<close>

definition demo_shell :: "string \<Rightarrow> shell_state" where
  "demo_shell l = (net_state.extend demo_net
     (shell_state.fields (l @ replicate (256 - length l) (CHR 0x00)) 0 0x3010 0 0 2 0))\<lparr>console := demo_terminal, kbd_buf := demo_keys\<rparr>"

lemma demo_terminal_ok: "term_ok demo_terminal"
  using demo_terminal_facts term_init_cursor unfolding term_ok_def demo_terminal_def by blast

lemma demo_shell_fields: "cwd (demo_shell l) = 0x3010" "idx (demo_shell l) = 0" "console (demo_shell l) = demo_terminal"
  "kbd_buf (demo_shell l) = demo_keys" "objects (demo_shell l) = objects demo_fs" "node_pool (demo_shell l) = node_pool demo_fs"
  "pool_count (demo_shell l) = pool_count demo_fs" "cmd (demo_shell l) = l @ replicate (256 - length l) (CHR 0x00)"
  by (simp_all add: demo_shell_def demo_net_def demo_nic_def fs_state.defs nic_state.defs net_state.defs shell_state.defs)

lemma demo_shell_wf: "ramfs_wf (demo_shell l) {0x3000, 0x4000}" "is_ramfs_dir (objects (demo_shell l)) (cwd (demo_shell l))"
  "ramfs_finddir (cwd (demo_shell l)) ''a'' (demo_shell l) = Inr 0x4010" "objects (demo_shell l) 0x4010 = Some (Ramfs_obj demo_file)"
  "n_flags (r_vnode demo_file) = FS_FILE" "term_ok (console (demo_shell l))" "file_text demo_file = []"
proof -
  show "ramfs_wf (demo_shell l) {0x3000, 0x4000}" using demo_fs_wf(1) by (simp add: ramfs_wf_def demo_shell_fields)
  show "is_ramfs_dir (objects (demo_shell l)) (cwd (demo_shell l))" using demo_fs_wf(2) by (simp add: demo_shell_fields)
  show "objects (demo_shell l) 0x4010 = Some (Ramfs_obj demo_file)" by (simp add: demo_shell_fields demo_fs_fields)
  show "n_flags (r_vnode demo_file) = FS_FILE" "file_text demo_file = []" by (simp_all add: demo_file_def file_text_def)
  show "term_ok (console (demo_shell l))" by (simp add: demo_shell_fields demo_terminal_ok)
  have "finddir_loop 0x4010 ''a'' (demo_shell l) = Some (Inr 0x4010)"
    by (subst finddir_loop.simps) (simp add: get_ramfs_def demo_shell_fields demo_fs_fields demo_file_def)
  then show "ramfs_finddir (cwd (demo_shell l)) ''a'' (demo_shell l) = Inr 0x4010"
    by (simp add: ramfs_finddir_def get_node_def get_ramfs_def demo_shell_fields demo_fs_fields demo_root_def)
qed

theorem shell_runs_edited_line_witness:
  "\<exists>cs s'. shell_tick 0 0 (demo_shell []) = bindR (execute 0 0 s') (\<lambda>s. bindR (print ''> '' (s\<lparr>idx := 0\<rparr>)) (shell_tick 0 0))
     \<and> arg 0 s' = Inr ''echo hi''"
proof -
  have e: "foldl edit_key [] ''echo hi'' = ''echo hi''" by (simp add: edit_key_def)
  show ?thesis
    using shell_runs_edited_line[of "''echo hi''" "demo_shell []" "[]" 0 0] demo_keys_ok demo_shell_wf(6)[of "[]"] unfolding e
    by (fastforce simp: demo_shell_fields arg_def)
qed

theorem shell_echo_shows_witness:
  "\<exists>s'. shell_tick 0 0 (demo_shell []) = Inr s'
     \<and> serial (console s') = serial demo_terminal @ serial_bytes (''echo hi'' @ [CHR 0x0A] @ ''hi'' @ [CHR 0x0A] @ ''> '')"
  using shell_echo_shows[of "demo_shell []" "''hi''" 0 0] demo_keys_ok demo_shell_wf(6)[of "[]"]
  by (auto simp: demo_shell_fields plain_def)

theorem shell_write_cat_witness:
  "\<exists>s1 s2. execute 0 0 (demo_shell ''write a new text'') = Inr s1
     \<and> execute 0 0 (s1\<lparr>cmd := ''cat a'' @ [CHR 0x00]\<rparr>) = Inr s2
     \<and> serial (console s2) = serial (console s1) @ serial_bytes (''new text'' @ [CHR 0x0A])"
proof -
  let ?s = "demo_shell ''write a new text''"
  have "arg 0 ?s = Inr (''write '' @ ''a'' @ CHR '' '' # ''new text'')" "cstr_at (''cat a'' @ [CHR 0x00]) 0 = Inr (''cat '' @ ''a'')"
    by (simp_all add: arg_def cstr_at_def demo_shell_fields)
  then show ?thesis
    using shell_write_cat[OF demo_shell_wf(1-4)[of "''write a new text''"] demo_shell_wf(5), of "''new text''" "''cat a'' @ [CHR 0x00]" 0 0]
      demo_shell_wf(6)[of "''write a new text''"] demo_shell_wf(7) by auto
qed

theorem shell_wc_prints_reversed_witness:
  "\<exists>s'. execute 0 0 (demo_shell ''rev xa'') = Inr s' \<and> serial (console s') = serial demo_terminal @ serial_bytes [CHR 0x0A]"
proof -
  have "arg 0 (demo_shell ''rev xa'') = Inr (''rev '' @ CHR ''x'' # ''a'')" by (simp add: arg_def cstr_at_def demo_shell_fields)
  then show ?thesis
    using shell_wc_prints_reversed[OF demo_shell_wf(1-4)[of "''rev xa''"] demo_shell_wf(5) demo_shell_wf(6)[of "''rev xa''"], of False "CHR ''x''" 0 0] demo_shell_wf(7)
    by (simp add: demo_shell_fields)
qed

end
