(* ===== verification/Shell_Session.thy ===== *)
theory Shell_Session
  imports Shell_Correct
begin

text \<open>
  Sessions of file commands: from a state in which the heap and the file system are well-formed and
  the current directory is one of the RAM file system, no sequence of \<open>touch\<close>, \<open>mkdir\<close>, \<open>cd\<close>, \<open>cat\<close>
  and \<open>write\<close> lines leads to a fault, and every state on the way is again such a state.
\<close>

section \<open>The invariant\<close>

definition shell_inv :: "'z shell_state_scheme \<Rightarrow> bool" where
  "shell_inv s \<longleftrightarrow> (\<exists>hs al. heap_inv s hs al \<and> ramfs_wf s al) \<and> is_ramfs_dir (objects s) (cwd s) \<and> term_ok (console s)"

lemma shell_inv_update:
  fixes s :: "'z shell_state_scheme"
  shows "shell_inv s \<Longrightarrow> term_ok t \<Longrightarrow> shell_inv (s\<lparr>console := t\<rparr>)" "shell_inv (s\<lparr>cmd := cs\<rparr>) \<longleftrightarrow> shell_inv s"
    "shell_inv s \<Longrightarrow> is_ramfs_dir (objects s) d \<Longrightarrow> shell_inv (s\<lparr>cwd := d\<rparr>)"
proof -
  have h: "heap_inv (s\<lparr>console := t\<rparr>) hs al = heap_inv s hs al" "heap_inv (s\<lparr>cmd := cs\<rparr>) hs al = heap_inv s hs al"
    "heap_inv (s\<lparr>cwd := d\<rparr>) hs al = heap_inv s hs al" for hs al by (rule heap_inv_cong; simp)+
  show "shell_inv s \<Longrightarrow> term_ok t \<Longrightarrow> shell_inv (s\<lparr>console := t\<rparr>)" "shell_inv (s\<lparr>cmd := cs\<rparr>) \<longleftrightarrow> shell_inv s"
    "shell_inv s \<Longrightarrow> is_ramfs_dir (objects s) d \<Longrightarrow> shell_inv (s\<lparr>cwd := d\<rparr>)"
    by (simp_all add: shell_inv_def h ramfs_wf_def)
qed

text \<open>A command that returns and keeps the invariant.\<close>

definition safe :: "'z shell_state_scheme res \<Rightarrow> bool" where
  "safe r \<longleftrightarrow> (\<exists>s. r = Inr s \<and> shell_inv s)"

lemma say_safe: "shell_inv s \<Longrightarrow> safe (say os s)"
  using say_shows[of s os] shell_inv_update(1)[of s] by (auto simp: safe_def shows_text_def shell_inv_def)

section \<open>Creating nodes\<close>

lemma alloc_frame:
  fixes s t :: "'z fs_state_scheme"
  assumes "heap_state.more t = heap_state.more s"
  shows "console t = console s" "fs_state.more t = fs_state.more s"
  using assms by (cases s; cases t; simp)+

lemma shell_frame:
  fixes s t :: "'z shell_state_scheme"
  assumes "fs_state.more t = fs_state.more s"
  shows "cwd t = cwd s" "cmd t = cmd s"
  using assms by (cases s; cases t; simp)+

lemma alloc_node_frame:
  assumes "alloc_node s = Inr (n, s')"
  shows "console s' = console s" "fs_state.more s' = fs_state.more s"
proof -
  have "console s' = console s \<and> fs_state.more s' = fs_state.more s"
  proof (cases "pool_count s \<ge> 128")
    case True
    then show ?thesis using assms by (simp add: alloc_node_def)
  next
    case False
    obtain p t where k: "kmalloc 436 s = Inr (p, t)" using assms False by (cases "kmalloc 436 s") (auto simp: alloc_node_def)
    note f = alloc_frame[OF kmalloc_more[OF k]]
    show ?thesis
    proof (cases "p = nullptr")
      case True
      then show ?thesis using assms k False f by (simp add: alloc_node_def)
    next
      case p: False
      then obtain pool where "array_set (node_pool t) (nat (pool_count t)) p = Inr pool"
        using assms k False by (cases "array_set (node_pool t) (nat (pool_count t)) p") (simp_all add: alloc_node_def)
      then have "t\<lparr>objects := (objects t)(p \<mapsto> Ramfs_obj (raw_node p (mem t))), node_pool := pool, pool_count := pool_count t + 1\<rparr> = s'"
        using assms k False p by (auto simp: alloc_node_def)
      from this[symmetric] show ?thesis using f by simp
    qed
  qed
  then show "console s' = console s" "fs_state.more s' = fs_state.more s" by simp_all
qed

lemma set_ramfs_frame: "set_ramfs a f s = Inr s' \<Longrightarrow> console s' = console s \<and> fs_state.more s' = fs_state.more s"
  by (cases "get_ramfs a s") (auto simp: set_ramfs_def)

lemma create_node_frame:
  assumes "create_node v par nm s = Inr (n, s')"
  shows "console s' = console s \<and> fs_state.more s' = fs_state.more s"
proof -
  obtain p t where a: "alloc_node s = Inr (p, t)" using assms by (cases "alloc_node s") (auto simp: create_node_def)
  show ?thesis
  proof (cases "p = nullptr")
    case True
    then show ?thesis using assms a alloc_node_frame[OF a] by (simp add: create_node_def)
  next
    case False
    obtain nm' pn where b: "strcpy_to 128 nm = Inr nm'" "get_ramfs par t = Inr pn"
      using assms a False by (cases "strcpy_to 128 nm"; cases "get_ramfs par t") (auto simp: create_node_def)
    obtain t1 where c: "set_ramfs p (\<lambda>r. r\<lparr>r_vnode := v p nm', next_sibling := first_child pn, first_child := nullptr, r_parent := par\<rparr>) t = Inr t1"
      "bindR (set_ramfs par (\<lambda>r. r\<lparr>first_child := p\<rparr>) t1) (\<lambda>s. Inr (p, s)) = Inr (n, s')"
      using assms a b False unfolding create_node_def by (auto simp: bindR_eq_Inr)
    have "set_ramfs par (\<lambda>r. r\<lparr>first_child := p\<rparr>) t1 = Inr s'"
      using c(2) by (cases "set_ramfs par (\<lambda>r. r\<lparr>first_child := p\<rparr>) t1") simp_all
    then show ?thesis using set_ramfs_frame[OF c(1)] set_ramfs_frame alloc_node_frame[OF a] by fastforce
  qed
qed

lemma create_keeps:
  fixes s :: "'z fs_state_scheme"
  assumes inv: "heap_inv s hs al" "ramfs_wf s al" and d: "is_ramfs_dir (objects s) par" and nm: "length nm < 128"
    and c: "create = ramfs_create_file \<and> fl = FS_FILE \<or> create = ramfs_create_dir \<and> fl = FS_DIR"
  obtains n s' hs' al' where "create par nm s = Inr (n, s')" "heap_inv s' hs' al'" "ramfs_wf s' al'" "mounts s' = mounts s"
    "console s' = console s" "fs_state.more s' = fs_state.more s" "\<And>a. is_ramfs_dir (objects s) a \<Longrightarrow> is_ramfs_dir (objects s') a"
    "n \<noteq> nullptr \<longrightarrow> (\<exists>x. objects s' n = Some (Ramfs_obj x) \<and> n_flags (r_vnode x) = fl)"
proof -
  obtain pn where par: "objects s par = Some (Ramfs_obj pn)" "n_flags (r_vnode pn) = FS_DIR"
    using d by (auto simp: is_ramfs_dir_def)
  have nz: "par \<noteq> nullptr" using inv(2) par(1) by (auto simp: ramfs_wf_def node_ok_def)
  obtain v where v: "create par nm s = create_node v par nm s" "\<And>n. vnode_for (v n nm) par nm" "\<And>n. n_flags (v n nm) = fl"
  proof (cases "create = ramfs_create_file \<and> fl = FS_FILE")
    case True
    moreover have "n_flags (file_vnode par n nm) = FS_FILE" for n by (simp add: file_vnode_def)
    ultimately show thesis using that[of "file_vnode par"] create_as_node[OF d nz, of nm] by simp
  next
    case False
    moreover have "n_flags (dir_vnode par n nm) = FS_DIR" for n by (simp add: dir_vnode_def)
    ultimately show thesis using c that[of "dir_vnode par"] create_as_node[OF d nz, of nm] by auto
  qed
  obtain n s' hs' al' m where k: "create_node v par nm s = Inr (n, s')" "heap_inv s' hs' al'" "ramfs_wf s' al'" "mounts s' = mounts s"
    "n = nullptr \<and> objects s' = objects s
     \<or> n \<noteq> nullptr \<and> objects s n = None \<and> objects s' = with_node m (objects s) n (v n nm) par pn"
    by (rule create_node_ok[where v = v, OF inv par v(2) nm])
  have "is_ramfs_dir (objects s') a" if "is_ramfs_dir (objects s) a" for a
    using k(5) that with_node_keeps[of "objects s" n par pn a _ m "v n nm"] par by (auto simp: is_ramfs_dir_def)
  moreover have "n \<noteq> nullptr \<longrightarrow> (\<exists>x. objects s' n = Some (Ramfs_obj x) \<and> n_flags (r_vnode x) = fl)"
    using k(5) par(1) v(3) by (auto simp: with_node_def)
  ultimately show thesis using that[of n s' hs' al'] v(1) k(1-4) create_node_frame[OF k(1)] by simp
qed

lemma create_safe:
  assumes "shell_inv s" "length nm < 128" and c: "create = ramfs_create_file \<and> fl = FS_FILE \<or> create = ramfs_create_dir \<and> fl = FS_DIR"
  obtains n s' where "create (cwd s) nm s = Inr (n, s')" "shell_inv s'"
proof -
  obtain hs al where i: "heap_inv s hs al" "ramfs_wf s al" "is_ramfs_dir (objects s) (cwd s)" "term_ok (console s)"
    using assms(1) by (auto simp: shell_inv_def)
  obtain n s' hs' al' where k: "create (cwd s) nm s = Inr (n, s')" "heap_inv s' hs' al'" "ramfs_wf s' al'" "console s' = console s"
    "fs_state.more s' = fs_state.more s" "\<And>a. is_ramfs_dir (objects s) a \<Longrightarrow> is_ramfs_dir (objects s') a"
    by (rule create_keeps[OF i(1-3) assms(2) c]) blast
  then have "shell_inv s'" using i(3,4) shell_frame[of s' s] by (auto simp: shell_inv_def)
  then show thesis using that k(1) by simp
qed

section \<open>Looking up files and directories\<close>

lemma find_file_safe:
  assumes "shell_inv s"
  obtains fl where "find_file nm s = Inr (fl, s)" "cwd s \<noteq> nullptr"
    "fl \<noteq> nullptr \<longrightarrow> ramfs_finddir (cwd s) nm s = Inr fl \<and> (\<exists>r. objects s fl = Some (Ramfs_obj r) \<and> n_flags (r_vnode r) = FS_FILE)"
proof -
  obtain al where wf: "ramfs_wf s al" and d: "is_ramfs_dir (objects s) (cwd s)" using assms by (auto simp: shell_inv_def)
  obtain dn where dn: "objects s (cwd s) = Some (Ramfs_obj dn)" "n_flags (r_vnode dn) = FS_DIR"
    using d by (auto simp: is_ramfs_dir_def)
  have ok: "node_ok (objects s) (cwd s) dn" using wf dn(1) by (simp add: ramfs_wf_def)
  then have fd: "n_finddir (r_vnode dn) = Some Ramfs_finddir" and nz: "cwd s \<noteq> nullptr"
    using dn(2) by (auto simp: node_ok_def kind_ok_def)
  obtain c where c: "ramfs_finddir (cwd s) nm s = Inr c"
    "c \<noteq> nullptr \<longrightarrow> (\<exists>x. objects s c = Some (Ramfs_obj x) \<and> n_name (r_vnode x) = nm \<and> r_parent x = cwd s)"
    by (rule ramfs_finddir_ok[OF wf dn])
  have f: "find_file nm s = (if c = nullptr then Inr (nullptr, s)
      else bindR (get_node c s) (\<lambda>v. Inr (if n_flags v AND FS_FILE \<noteq> 0 then c else nullptr, s)))"
    using dn(1) fd c(1) by (simp add: find_file_def get_node_def call_finddir_def)
  show thesis
  proof (cases "c = nullptr")
    case True
    then show thesis using that[of nullptr] f nz by simp
  next
    case False
    then obtain x where x: "objects s c = Some (Ramfs_obj x)" using c(2) by blast
    have "n_flags (r_vnode x) = FS_FILE \<or> n_flags (r_vnode x) = FS_DIR"
      using wf x unfolding ramfs_wf_def node_ok_def kind_ok_def by blast
    moreover have "FS_FILE AND FS_FILE \<noteq> 0" by (simp add: FS_FILE_def)
    ultimately show thesis using that[of "if n_flags (r_vnode x) AND FS_FILE \<noteq> 0 then c else nullptr"] f False x nz c(1)
      by (auto simp: get_node_def)
  qed
qed

text \<open>In the RAM file system every path that does not start at the root can be walked.\<close>

lemma walk_path_safe:
  assumes wf: "ramfs_wf s al"
  shows "objects s a = Some (Ramfs_obj r) \<Longrightarrow> \<exists>b. walk_path p a s = Inr (b, s) \<and> (b \<noteq> nullptr \<longrightarrow> (\<exists>x. objects s b = Some (Ramfs_obj x)))"
proof (induction p arbitrary: a r rule: length_induct)
  case (1 p)
  have ok: "node_ok (objects s) a r" using wf 1(2) by (simp add: ramfs_wf_def)
  have nz: "a \<noteq> nullptr" "r_parent r \<noteq> nullptr" "n_parent (r_vnode r) = r_parent r" and par: "\<exists>x. objects s (r_parent r) = Some (Ramfs_obj x)"
    using ok wf by (auto simp: node_ok_def is_ramfs_dir_def ramfs_wf_def)
  let ?d = "dropWhile (\<lambda>c. c = CHR ''/'') p"
  let ?c = "component ?d"
  let ?r = "drop (length ?c) ?d"
  have self: "\<exists>b. Inr (a, s) = Inr (b, s) \<and> (b \<noteq> nullptr \<longrightarrow> (\<exists>x. objects s b = Some (Ramfs_obj x)))" using 1(2) by auto
  show ?case
  proof (cases "?d = []")
    case True
    then show ?thesis using self by (subst walk_path.simps) (simp add: Let_def)
  next
    case False
    then have ne: "p \<noteq> []" by auto
    have less: "length ?r < length p" using walk_decreases[OF False] by simp
    obtain b where b: "path_step ?c a s = Inr b" "b \<noteq> nullptr \<longrightarrow> (\<exists>x. objects s b = Some (Ramfs_obj x))"
      by (rule path_step_ok[OF wf 1(2)])
    have g: "get_node a s = Inr (r_vnode r)" "get_ramfs a s = Inr r" using 1(2) by (simp_all add: get_node_def get_ramfs_def)
    consider "n_flags (r_vnode r) = FS_DIR" "n_finddir (r_vnode r) = Some Ramfs_finddir"
      | "n_flags (r_vnode r) = FS_FILE" "n_finddir (r_vnode r) = None"
      using ok by (auto simp: node_ok_def kind_ok_def)
    then have w: "walk_path p a s = (if b = nullptr then Inr (nullptr, s) else walk_path ?r b s)"
    proof cases
      case 1
      then show ?thesis using ne False g nz b(1)
        by (subst walk_path.simps) (auto simp: Let_def path_step_def call_finddir_def)
    next
      case 2
      then have "ramfs_finddir a ?c s = Inr nullptr" using \<open>objects s a = Some (Ramfs_obj r)\<close> nz(1) by (simp add: ramfs_finddir_def get_node_def)
      then show ?thesis using 2 ne False g nz b(1)
        by (subst walk_path.simps) (auto simp: Let_def path_step_def)
    qed
    then show ?thesis using 1(1) less b(2) by (cases "b = nullptr") auto
  qed
qed

section \<open>The commands\<close>

lemma touch_mkdir_safe:
  assumes s: "shell_inv s" and nm: "length nm < 128"
  shows "arg 0 s = Inr (''touch '' @ nm) \<Longrightarrow> safe (execute x f s)" "arg 0 s = Inr (''mkdir '' @ nm) \<Longrightarrow> safe (execute x f s)"
proof -
  have nz: "cwd s \<noteq> nullptr" using find_file_safe[OF s, of "[]"] by blast
  show "safe (execute x f s)" if c: "arg 0 s = Inr (''touch '' @ nm)"
  proof -
    obtain n s' where k: "ramfs_create_file (cwd s) nm s = Inr (n, s')" "shell_inv s'"
      by (rule create_safe[where create = ramfs_create_file and fl = FS_FILE, OF s nm]) simp_all
    have "execute x f s = cmd_touch s" using c by (rule execute_cmd)
    then show ?thesis using say_safe[OF k(2)] k(1) nz arg_drop[OF c, of 6] by (simp add: cmd_touch_def del: say.simps)
  qed
  show "safe (execute x f s)" if c: "arg 0 s = Inr (''mkdir '' @ nm)"
  proof -
    obtain n s' where k: "ramfs_create_dir (cwd s) nm s = Inr (n, s')" "shell_inv s'"
      by (rule create_safe[where create = ramfs_create_dir and fl = FS_DIR, OF s nm]) simp_all
    have "execute x f s = cmd_mkdir s" using c by (rule execute_cmd)
    then show ?thesis using say_safe[OF k(2)] k(1) nz arg_drop[OF c, of 6] by (simp add: cmd_mkdir_def del: say.simps)
  qed
qed

lemma cat_safe:
  assumes s: "shell_inv s" and c: "arg 0 s = Inr (''cat '' @ nm)"
  shows "safe (execute x f s)"
proof -
  obtain al where wf: "ramfs_wf s al" using s by (auto simp: shell_inv_def)
  obtain fl where fl: "find_file nm s = Inr (fl, s)" "cwd s \<noteq> nullptr"
    "fl \<noteq> nullptr \<longrightarrow> ramfs_finddir (cwd s) nm s = Inr fl \<and> (\<exists>r. objects s fl = Some (Ramfs_obj r) \<and> n_flags (r_vnode r) = FS_FILE)"
    by (rule find_file_safe[OF s])
  have e: "execute x f s = cmd_cat s" using c by (rule execute_cmd)
  show ?thesis
  proof (cases "fl = nullptr")
    case True
    then show ?thesis using e fl arg_drop[OF c, of 4] say_safe[OF s] by (simp add: cmd_cat_def del: say.simps)
  next
    case False
    then obtain r where "objects s fl = Some (Ramfs_obj r)" "n_flags (r_vnode r) = FS_FILE" using fl(3) by blast
    from read_buffer_ok[OF wf this] show ?thesis
      using False e fl arg_drop[OF c, of 4] say_safe[OF s] by (simp add: cmd_cat_def del: say.simps)
  qed
qed

lemma cd_safe:
  assumes s: "shell_inv s" and c: "arg 0 s = Inr (''cd '' @ p)" "char_at p 0 \<noteq> CHR ''/''"
  shows "safe (execute x f s)"
proof -
  obtain al where wf: "ramfs_wf s al" and d: "is_ramfs_dir (objects s) (cwd s)" using s by (auto simp: shell_inv_def)
  obtain dn where dn: "objects s (cwd s) = Some (Ramfs_obj dn)" using d by (auto simp: is_ramfs_dir_def)
  have nz: "cwd s \<noteq> nullptr" using find_file_safe[OF s, of "[]"] by blast
  obtain b where b: "walk_path p (cwd s) s = Inr (b, s)" "b \<noteq> nullptr \<longrightarrow> (\<exists>r. objects s b = Some (Ramfs_obj r))"
    using walk_path_safe[OF wf dn] by blast
  have r: "vfs_resolve_relative (cwd s) (Some p) s = Inr (b, s)"
    using b(1) nz c(2) by (simp add: vfs_resolve_relative_def)
  have e: "execute x f s = cmd_cd s" using c(1) by (rule execute_cmd)
  show ?thesis
  proof (cases "b = nullptr")
    case True
    then show ?thesis using e r nz arg_drop[OF c(1), of 3] say_safe[OF s] by (simp add: cmd_cd_def del: say.simps)
  next
    case False
    then obtain x where x: "objects s b = Some (Ramfs_obj x)" using b(2) by blast
    then have "n_flags (r_vnode x) AND FS_DIR = 0 \<or> n_flags (r_vnode x) = FS_DIR"
      using wf unfolding ramfs_wf_def node_ok_def kind_ok_def by (metis flags_and(3))
    moreover have "n_flags (r_vnode x) = FS_DIR \<Longrightarrow> shell_inv (s\<lparr>cwd := b\<rparr>)"
      using shell_inv_update(3)[OF s, of b] x by (simp add: is_ramfs_dir_def)
    ultimately show ?thesis using False e r nz x arg_drop[OF c(1), of 3] say_safe[OF s, of "[line ''not found'']"]
      by (auto simp: cmd_cd_def get_node_def safe_def simp del: say.simps)
  qed
qed

lemma find_no_space: "CHR '' '' \<notin> set z \<Longrightarrow> length p = k \<Longrightarrow> find (\<lambda>i. (p @ z) ! i = CHR '' '') [k..<length (p @ z)] = None"
  by (auto simp: find_None_iff nth_append in_set_conv_nth)

lemma write_inv:
  fixes s :: "'z shell_state_scheme"
  assumes i: "shell_inv s" and a: "objects s a = Some (Ramfs_obj r)" "n_flags (r_vnode r) = FS_FILE" and n: "length bytes \<le> 256"
  obtains s' where "ramfs_write a 0 (of_nat (length bytes)) bytes s = Inr (int (length bytes), s')" "shell_inv s'"
proof -
  obtain hs al where hs: "heap_inv s hs al" "ramfs_wf s al" "is_ramfs_dir (objects s) (cwd s)" "term_ok (console s)"
    using i by (auto simp: shell_inv_def)
  obtain s' r' where w: "ramfs_write a 0 (of_nat (length bytes)) bytes s = Inr (int (length bytes), s')" "ramfs_wf s' al"
    "s' = s\<lparr>objects := (objects s)(a \<mapsto> Ramfs_obj r')\<rparr>"
    using ramfs_write_back[OF hs(2) a, of 0 bytes] n by auto
  have "heap_inv s' hs al = heap_inv s hs al" unfolding w(3) by (rule heap_inv_cong) simp_all
  moreover have "is_ramfs_dir (objects s') (cwd s')" using hs(3) a w(3) by (auto simp: is_ramfs_dir_def)
  ultimately have "shell_inv s'" using hs(1,4) w(2,3) by (auto simp: shell_inv_def)
  with w(1) show thesis by (rule that)
qed

lemma write_safe:
  assumes s: "shell_inv s" and c: "arg 0 s = Inr (''write '' @ z)" "length z \<le> 256"
  shows "safe (execute x f s)"
proof -
  have nz: "cwd s \<noteq> nullptr" using find_file_safe[OF s, of "[]"] by blast
  have e: "execute x f s = cmd_write (''write '' @ z) s" using c(1) by (rule execute_cmd)
  show ?thesis
  proof (cases "CHR '' '' \<in> set z")
    case False
    then have "find (\<lambda>i. (''write '' @ z) ! i = CHR '' '') [6..<length (''write '' @ z)] = None"
      by (rule find_no_space) simp
    then show ?thesis using e nz say_safe[OF s] by (simp add: cmd_write_def del: say.simps append.simps)
  next
    case True
    then obtain nm w where z: "z = nm @ CHR '' '' # w" "CHR '' '' \<notin> set nm" using split_list_first by metis
    obtain cs where cs: "find (\<lambda>i. (''write '' @ z) ! i = CHR '' '') [6..<length (''write '' @ z)] = Some (6 + length nm)"
      "array_set (cmd s) (6 + length nm) (CHR 0x00) = Inr cs" "cstr_at cs 6 = Inr nm" "cstr_at cs (6 + length nm + 1) = Inr w"
      using write_args[OF c(1)[unfolded z(1)] z(2)] unfolding z(1) by blast
    let ?s = "s\<lparr>cmd := cs\<rparr>"
    have i: "shell_inv ?s" using s shell_inv_update(2) by blast
    obtain fl where fl: "find_file nm ?s = Inr (fl, ?s)"
      "fl \<noteq> nullptr \<longrightarrow> (\<exists>r. objects ?s fl = Some (Ramfs_obj r) \<and> n_flags (r_vnode r) = FS_FILE)"
      using find_file_safe[OF i] by metis
    show ?thesis
    proof (cases "fl = nullptr")
      case True
      then show ?thesis using e nz cs fl(1) say_safe[OF i] by (simp add: cmd_write_def arg_def del: say.simps append.simps)
    next
      case False
      then obtain r where r: "objects ?s fl = Some (Ramfs_obj r)" "n_flags (r_vnode r) = FS_FILE" using fl(2) by blast
      obtain s' where w: "ramfs_write fl 0 (of_nat (length w)) (map of_char w) ?s = Inr (int (length w), s')" "shell_inv s'"
        using write_inv[OF i r, of "map of_char w"] c(2) z(1) by auto
      have "n_write (r_vnode r) = Some Ramfs_write"
        using i r unfolding shell_inv_def ramfs_wf_def node_ok_def kind_ok_def by fastforce
      then show ?thesis using False e nz cs fl(1) w(1) r(1) say_safe[OF w(2)]
        by (simp add: cmd_write_def arg_def get_node_def call_write_def del: say.simps append.simps)
    qed
  qed
qed

section \<open>Sessions\<close>

text \<open>
  The lines of a session, with the limits the commands do not check: a name has to fit the field
  of the node, and a path that starts at the root can leave the RAM file system.
\<close>

definition file_line :: "string \<Rightarrow> bool" where
  "file_line l \<longleftrightarrow> length l < 256 \<and>
     ((take 6 l = ''touch '' \<or> take 6 l = ''mkdir '') \<and> length l < 6 + 128
      \<or> take 4 l = ''cat '' \<or> take 3 l = ''cd '' \<and> char_at l 3 \<noteq> CHR ''/'' \<or> take 6 l = ''write '')"

text \<open>Each line is in \<open>cmd\<close> when \<open>execute\<close> runs, with whatever earlier lines left behind its NUL.\<close>

fun run_lines :: "u32 \<Rightarrow> u32 \<Rightarrow> string list \<Rightarrow> 'z shell_state_scheme \<Rightarrow> 'z shell_state_scheme res" where
  "run_lines x f [] s = Inr s"
| "run_lines x f (cs # css) s = bindR (execute x f (s\<lparr>cmd := cs\<rparr>)) (run_lines x f css)"

lemma file_line_safe:
  assumes s: "shell_inv s" and c: "arg 0 s = Inr l" "file_line l"
  shows "safe (execute x f s)"
proof -
  have l: "arg 0 s = Inr (p @ drop k l)" if "take k l = p" for k p using that c(1) append_take_drop_id[of k l] by simp
  consider "take 6 l = ''touch ''" "length l < 134" | "take 6 l = ''mkdir ''" "length l < 134" | "take 4 l = ''cat ''"
    | "take 3 l = ''cd ''" "char_at l 3 \<noteq> CHR ''/''" | "take 6 l = ''write ''" "length l < 256"
    using c(2) unfolding file_line_def by linarith
  then show ?thesis
  proof cases
    case 1
    show ?thesis by (rule touch_mkdir_safe(1)[OF s _ l[OF 1(1)]]) (use 1(2) in simp)
  next
    case 2
    show ?thesis by (rule touch_mkdir_safe(2)[OF s _ l[OF 2(1)]]) (use 2(2) in simp)
  next
    case 3
    show ?thesis by (rule cat_safe[OF s l[OF 3]])
  next
    case 4
    show ?thesis by (rule cd_safe[OF s l[OF 4(1)]]) (use 4(2) in \<open>simp add: char_at_def split: if_splits\<close>)
  next
    case 5
    show ?thesis by (rule write_safe[OF s l[OF 5(1)]]) (use 5(2) in simp)
  qed
qed

text \<open>C21: No session of file commands makes the shell fault or hang, and after every one of its lines
  the heap and the file system are well-formed and the current directory is a directory of the RAM
  file system. The lines are \<open>touch\<close> and \<open>mkdir\<close> with names that fit, \<open>cat\<close>, \<open>cd\<close> with a relative
  path, and \<open>write\<close>, all with any arguments, existing or not.\<close>

theorem shell_file_session_safe:
  fixes s :: "'z shell_state_scheme"
  assumes "heap_inv s hs al" "ramfs_wf s al" "is_ramfs_dir (objects s) (cwd s)" "term_ok (console s)"
    and lines: "\<forall>cs \<in> set css. \<exists>l. cstr_at cs 0 = Inr l \<and> file_line l"
  shows "\<exists>s' hs' al'. run_lines x f css s = Inr s' \<and> heap_inv s' hs' al' \<and> ramfs_wf s' al'
    \<and> is_ramfs_dir (objects s') (cwd s') \<and> term_ok (console s')"
proof -
  have "safe (run_lines x f css s)" if "shell_inv s" "\<forall>cs \<in> set css. \<exists>l. cstr_at cs 0 = Inr l \<and> file_line l" for s :: "'z shell_state_scheme"
    using that
  proof (induction css arbitrary: s)
    case (Cons cs css)
    obtain l where l: "cstr_at cs 0 = Inr l" "file_line l" using Cons(3) by auto
    have "safe (execute x f (s\<lparr>cmd := cs\<rparr>))"
      using file_line_safe[of "s\<lparr>cmd := cs\<rparr>" l] shell_inv_update(2) Cons(2) l by (auto simp: arg_def)
    then show ?case using Cons(1,3) by (auto simp: safe_def)
  qed (simp add: safe_def)
  moreover have "shell_inv s" using assms(1-4) by (auto simp: shell_inv_def)
  ultimately show ?thesis using lines unfolding safe_def shell_inv_def by blast
qed

lemma demo_shell_inv: "heap_inv (demo_shell l) [0x1000] {0x3000, 0x4000}"
proof -
  have "heap_inv (demo_shell l) [0x1000] {0x3000, 0x4000} = heap_inv demo_fs [0x1000] {0x3000, 0x4000}"
    by (rule heap_inv_cong)
      (simp_all add: demo_shell_def demo_net_def demo_nic_def fs_state.defs nic_state.defs net_state.defs shell_state.defs)
  then show ?thesis using demo_fs_inv by simp
qed

theorem shell_file_session_safe_witness:
  "\<exists>s' hs' al'. run_lines 0 0 (map (\<lambda>l. l @ [CHR 0x00]) [''mkdir d'', ''cd d'', ''touch f'', ''write f some text'', ''cat f'', ''cd ..'']) (demo_shell []) = Inr s'
     \<and> heap_inv s' hs' al' \<and> ramfs_wf s' al'"
proof -
  let ?c = "map (\<lambda>l. l @ [CHR 0x00]) [''mkdir d'', ''cd d'', ''touch f'', ''write f some text'', ''cat f'', ''cd ..'']"
  have "\<forall>cs \<in> set ?c. \<exists>l. cstr_at cs 0 = Inr l \<and> file_line l"
    by (simp add: cstr_at_def file_line_def char_at_def)
  from shell_file_session_safe[OF demo_shell_inv[of "[]"] demo_shell_wf(1,2,6)[of "[]"] this, of 0 0]
  show ?thesis by blast
qed

end
