(* ===== verification/Boot_Correct.thy ===== *)
theory Boot_Correct
  imports Kernel_Main Shell_Session Vmm_Properties
begin

text \<open>
  What the start-up sequence of \<open>kernel_main\<close> establishes: the page allocator, paging and the heap
  with enough pages left, then the RAM file system with its first directories and files. With
  these the invariants that the other theories assume hold from the start. The last part is the
  task that looks for prime numbers.
\<close>

section \<open>Memory\<close>

lemma kmalloc_init_frame:
  fixes s :: "'z vmm_state_scheme"
  assumes "kmalloc_init s = Inr s'"
  shows "kernel_space s' = kernel_space s" "vmm_state.more s' = vmm_state.more s"
proof -
  obtain p t where "pmm_alloc_page s = Inr (p, t)" "heap_state.more s' = heap_state.more t"
    using assms by (auto simp: kmalloc_init_def bindR_eq_Inr Let_def split: if_splits)
  then have "heap_state.more s' = heap_state.more s" using pmm_alloc_heap_more by metis
  then show "kernel_space s' = kernel_space s" "vmm_state.more s' = vmm_state.more s" by (cases s; cases s'; simp)+
qed

lemma low_page_used:
  assumes "aligned p" "unat p < 0x400000" "used_set s = {..<1024}"
  shows "p \<in> pmm_allocated s"
proof -
  obtain k where k: "unat p = 4096 * k" "k < 1048576" using aligned_page[OF assms(1)] .
  then have "p = page_addr k" by (simp add: word_unat_eq_iff unat_page_addr)
  then show ?thesis using assms(2,3) k(1) by (auto simp: pmm_allocated_def)
qed

lemma init_memory_ok:
  assumes mb: "5 \<le> total_memory_mb s" "total_memory_mb s \<le> 1024"
    and pd: "aligned (im_page_directory im)" "unat (im_page_directory im) < 0x400000"
    and pt: "aligned (im_boot_page_table im)" "unat (im_boot_page_table im) < 0x400000"
    and ne: "im_page_directory im \<noteq> im_boot_page_table im"
  shows "\<exists>s' h. init_memory im s = Inr s' \<and> heap_inv s' [h] {} \<and> h_size (mem s') h = 4096
    \<and> kernel_space s' = im_page_directory im \<and> vmm_state.more s' = vmm_state.more s"
proof -
  have u: "5 \<le> unat (total_memory_mb s)" "unat (total_memory_mb s) \<le> 1024" using mb by (simp_all add: word_le_nat_alt)
  have "1 \<le> total_memory_mb s" using u(1) by (simp add: word_le_nat_alt)
  from pmm_init_ok[OF this mb(2), of s] obtain s1 where s1: "pmm_init (total_memory_mb s) s = Inr s1" "pmm_inv s1"
    "unat (total_pages s1) = 256 * unat (total_memory_mb s)" "used_set s1 = {..<1024}" using u(1) by auto
  have f1: "total_memory_mb s1 = total_memory_mb s" "vmm_state.more s1 = vmm_state.more s"
    using s1(1) by (auto simp: pmm_init_def Let_def bindR_eq_Inr)
  have "card (pmm_allocated s1) \<le> 1024" using card_image_le[of "{..<1024 :: nat}" page_addr] s1(4) by (simp add: pmm_allocated_def)
  then have room: "(unat (total_memory_mb s1) - 1) div 4 < unat (pmm_free_pages s1)" using card_pmm(2)[OF s1(2)] s1(3) u f1(1) by simp
  have "max 4 (if total_memory_mb s1 = 0 then 32 else unat (total_memory_mb s1)) = unat (total_memory_mb s1)" using u f1(1) by auto
  with paging_init_ok[OF s1(2) pd(1) pt(1) ne low_page_used[OF pd s1(4)] low_page_used[OF pt s1(4)]] room u f1(1)
  obtain s2 where s2: "paging_init (im_page_directory im) (im_boot_page_table im) s1 = Inr s2" "cr3 s2 = im_page_directory im"
    "pmm_inv s2" "0 < unat (pmm_free_pages s2)" "vmm_state.more s2 = vmm_state.more s1"
    by (auto simp: identity_state_def)
  have i2: "pmm_inv (vmm_init s2)" "used_set (vmm_init s2) = used_set s2"
    using s2(3) by (simp_all add: vmm_init_def pmm_inv_def used_set_def)
  have "pmm_allocated s2 \<noteq> pmm_pages s2" using card_pmm(2,3)[OF s2(3)] s2(4) by auto
  then have "used_set (vmm_init s2) \<noteq> {..<unat (total_pages (vmm_init s2))}"
    using pmm_all_allocated_iff[OF s2(3)] i2(2) by (auto simp: vmm_init_def)
  from kmalloc_init_ok[OF i2(1) this] obtain s3 h where s3: "kmalloc_init (vmm_init s2) = Inr s3" "heap_inv s3 [h] {}" "h_size (mem s3) h = 4096"
    by auto
  show ?thesis using s1(1) s2(1) s3 kmalloc_init_frame[OF s3(1)] s2(2,5) f1(2) by (auto simp: init_memory_def vmm_init_def)
qed

section \<open>The first files\<close>

text \<open>The file system is in order, and directories and mounts are as before.\<close>

definition files_kept :: "'z fs_state_scheme \<Rightarrow> 'z fs_state_scheme \<Rightarrow> bool" where
  "files_kept s s' \<longleftrightarrow> (\<exists>hs al. heap_inv s' hs al \<and> ramfs_wf s' al) \<and> mounts s' = mounts s
     \<and> (\<forall>a. is_ramfs_dir (objects s) a \<longrightarrow> is_ramfs_dir (objects s') a)"

lemma files_kept_trans: "files_kept s s' \<Longrightarrow> files_kept s' s'' \<Longrightarrow> files_kept s s''"
  by (auto simp: files_kept_def)

lemma create_kept:
  fixes s :: "'z fs_state_scheme"
  assumes "files_kept s0 s" "is_ramfs_dir (objects s) par" "length nm < 128"
    and "create = ramfs_create_file \<and> fl = FS_FILE \<or> create = ramfs_create_dir \<and> fl = FS_DIR"
  obtains n s' where "create par nm s = Inr (n, s')" "files_kept s s'"
    "n \<noteq> nullptr \<longrightarrow> (\<exists>x. objects s' n = Some (Ramfs_obj x) \<and> n_flags (r_vnode x) = fl)"
proof -
  obtain hs al where "heap_inv s hs al" "ramfs_wf s al" using assms(1) by (auto simp: files_kept_def)
  then show thesis
    by (rule create_keeps[where create = create and fl = fl, OF _ _ assms(2-4)]) (rule that; auto simp: files_kept_def)
qed

lemma install_file_kept:
  fixes s :: "'z fs_state_scheme"
  assumes "files_kept s0 s" "is_ramfs_dir (objects s) dir" "length nm < 128" "length data < 2 ^ 32"
  obtains s' where "install_file dir nm data s = Inr s'" "files_kept s s'"
proof -
  obtain n s1 where c: "ramfs_create_file dir nm s = Inr (n, s1)" "files_kept s s1"
    "n \<noteq> nullptr \<longrightarrow> (\<exists>x. objects s1 n = Some (Ramfs_obj x) \<and> n_flags (r_vnode x) = FS_FILE)"
    by (rule create_kept[where create = ramfs_create_file and fl = FS_FILE, OF assms(1-3)]) simp
  show thesis
  proof (cases "n = nullptr")
    case True
    then show thesis using that[of s1] c by (simp add: install_file_def)
  next
    case False
    then obtain r where r: "objects s1 n = Some (Ramfs_obj r)" "n_flags (r_vnode r) = FS_FILE" using c(3) by blast
    obtain hs al where i: "heap_inv s1 hs al" "ramfs_wf s1 al" using c(2) by (auto simp: files_kept_def)
    have "unat 0 + length data < 2 ^ 32" using assms(4) by simp
    from ramfs_write_cut[OF _ this, of n s1]
    have cut: "ramfs_write n 0 (of_nat (length data)) data s1 = ramfs_write n 0 (of_nat (length (take 256 data))) (take 256 data) s1"
      by (cases "length data \<le> 256") (simp_all add: min_def)
    obtain s2 r' where w: "ramfs_write n 0 (of_nat (length data)) data s1 = Inr (int (length (take 256 data)), s2)" "ramfs_wf s2 al"
      "s2 = s1\<lparr>objects := (objects s1)(n \<mapsto> Ramfs_obj r')\<rparr>"
      using ramfs_write_back[OF i(2) r, of 0 "take 256 data"] unfolding cut by auto
    have "heap_inv s2 hs al = heap_inv s1 hs al" unfolding w(3) by (rule heap_inv_cong) simp_all
    then have k: "files_kept s1 s2" using i w(2,3) r by (auto simp: files_kept_def is_ramfs_dir_def)
    have "n_write (r_vnode r) = Some Ramfs_write"
      using i(2) r unfolding ramfs_wf_def node_ok_def kind_ok_def by fastforce
    then have "install_file dir nm data s = Inr s2"
      using False c(1) r(1) w(1) by (simp add: install_file_def get_node_def call_write_def)
    then show thesis using that files_kept_trans[OF c(2) k] by blast
  qed
qed

lemma create_root_kept:
  fixes s :: "'z fs_state_scheme"
  assumes inv: "heap_inv s hs al" and e: "objects s = Map.empty" "length (node_pool s) = 128" "pool_count s = 0"
    and room: "h \<in> set hs" "needed_bytes 436 \<le> h_size (mem s) h"
  obtains n s' where "ramfs_create_root s = Inr (n, s')" "n \<noteq> nullptr" "files_kept s s'" "is_ramfs_dir (objects s') n"
proof -
  have wf: "ramfs_wf s al" using e by (simp add: ramfs_wf_def)
  have nr: "node_room hs s" using e(3) room by (auto simp: node_room_def)
  obtain n t hs' al' m where t: "alloc_node s = Inr (n, t)" "heap_inv t hs' al'" "mounts t = mounts s" "n \<noteq> nullptr" "n - 16 \<in> al'"
    "objects t = (objects s)(n \<mapsto> Ramfs_obj (raw_node n m))" "length (node_pool t) = 128" "0 \<le> pool_count t" "pool_count t \<le> 128"
    by (rule alloc_node_ok[OF inv wf]) (use nr in auto)
  let ?r = "(raw_node n m)\<lparr>r_vnode := \<lparr>n_name = ''/'', n_flags = FS_DIR, n_size = 0, n_inode = 0, n_impl = 0,
      n_parent = n, n_destroy = Some Ramfs_destroy, n_read = None, n_write = None,
      n_readdir = Some Ramfs_readdir, n_finddir = Some Ramfs_finddir\<rparr>, next_sibling := nullptr, first_child := nullptr, r_parent := n\<rparr>"
  let ?t = "t\<lparr>root_node := n, objects := [n \<mapsto> Ramfs_obj ?r]\<rparr>"
  have c: "ramfs_create_root s = Inr (n, ?t)"
    using t(1,4,6) e(1) by (simp add: ramfs_create_root_def set_ramfs_def get_ramfs_def Let_def)
  have h: "heap_inv ?t hs' al' = heap_inv t hs' al'" by (rule heap_inv_cong) simp_all
  have d: "is_ramfs_dir (objects ?t) n" by (simp add: is_ramfs_dir_def)
  then have "node_ok (objects ?t) n ?r"
    using t(4) by (auto simp: node_ok_def kind_ok_def raw_node_def intro!: exI[of _ "[]"])
  then have "ramfs_wf ?t al'" using t(5,7-9) by (auto simp: ramfs_wf_def split: if_splits)
  then have "files_kept s ?t" using h t(2,3) e(1) by (auto simp: files_kept_def is_ramfs_dir_def)
  then show thesis using that c t(4) d by blast
qed

lemma mount_first:
  assumes "length (mounts s) = MAX_MOUNTS" "\<not> m_used (mounts s ! 0)" "root \<noteq> nullptr"
  shows "\<exists>ms c. vfs_mount (Some ''/'') root s = Inr (0, s\<lparr>mounts := ms, mount_count := c\<rparr>) \<and> vfs_get_root (s\<lparr>mounts := ms, mount_count := c\<rparr>) = root"
proof -
  obtain m ms where m: "mounts s = m # ms" using assms(1) by (cases "mounts s") (simp_all add: MAX_MOUNTS_def)
  have "[0..<MAX_MOUNTS] = 0 # [1..<MAX_MOUNTS]" by (simp add: MAX_MOUNTS_def upt_conv_Cons)
  then have "vfs_mount (Some ''/'') root s = Inr (0, s\<lparr>mounts := \<lparr>m_path = ''/'', m_root = root, m_used = True\<rparr> # ms, mount_count := mount_count s + 1\<rparr>)"
    using assms(2,3) m by (simp add: vfs_mount_def strcpy_to_def)
  then show ?thesis by (auto simp: vfs_get_root_def)
qed

lemma files_kept_update:
  "files_kept s0 s \<Longrightarrow> files_kept (s\<lparr>mounts := ms, mount_count := c\<rparr>) (s\<lparr>mounts := ms, mount_count := c\<rparr>)"
proof -
  have "heap_inv (s\<lparr>mounts := ms, mount_count := c\<rparr>) hs al = heap_inv s hs al" for hs al by (rule heap_inv_cong) simp_all
  then show "files_kept s0 s \<Longrightarrow> ?thesis" by (simp add: files_kept_def ramfs_wf_def)
qed

text \<open>After the root is mounted every further step of \<open>init_files\<close> keeps the file system.\<close>

lemma init_files_rest:
  fixes s :: "'z fs_state_scheme"
  assumes s: "files_kept s s" and d: "is_ramfs_dir (objects s) root"
  shows "\<exists>s'. bindR (ramfs_create_dir root ''mnt'' s) (\<lambda>(_, s).
       bindR (ramfs_create_dir root ''bin'' s) (\<lambda>(bin_dir, s).
       bindR (if bin_dir \<noteq> nullptr then install_file bin_dir ''hello.elf'' hello_elf_data s else Inr s) (\<lambda>s.
       bindR (ramfs_create_dir root ''tmp'' s) (\<lambda>(_, s).
       install_file root ''test.elf'' test_elf_data s)))) = Inr s' \<and> files_kept s s'"
proof -
  have keep: "is_ramfs_dir (objects t) root" if "files_kept s t" for t using that d by (simp add: files_kept_def)
  note mk = create_kept[where create = ramfs_create_dir and fl = FS_DIR and par = root, OF _ keep]
  obtain n1 s1 where s1: "ramfs_create_dir root ''mnt'' s = Inr (n1, s1)" "files_kept s s1"
    by (rule mk[where nm = "''mnt''", OF s s]) simp_all
  obtain n2 s2 where s2: "ramfs_create_dir root ''bin'' s1 = Inr (n2, s2)" "files_kept s1 s2"
    "n2 \<noteq> nullptr \<longrightarrow> is_ramfs_dir (objects s2) n2"
    by (rule mk[where nm = "''bin''", OF s1(2) s1(2)]) (simp_all add: is_ramfs_dir_def)
  have k2: "files_kept s s2" using files_kept_trans[OF s1(2) s2(2)] .
  have "\<exists>t. (if n2 \<noteq> nullptr then install_file n2 ''hello.elf'' hello_elf_data s2 else Inr s2) = Inr t \<and> files_kept s t"
  proof (cases "n2 = nullptr")
    case False
    then show ?thesis using install_file_kept[OF k2, of n2 "''hello.elf''" hello_elf_data] s2(3) files_kept_trans[OF k2]
      by (auto simp: hello_elf_data_def)
  qed (simp add: k2)
  then obtain s3 where s3: "(if n2 \<noteq> nullptr then install_file n2 ''hello.elf'' hello_elf_data s2 else Inr s2) = Inr s3" "files_kept s s3"
    by blast
  obtain n4 s4 where s4: "ramfs_create_dir root ''tmp'' s3 = Inr (n4, s4)" "files_kept s3 s4"
    by (rule mk[where nm = "''tmp''", OF s3(2) s3(2)]) simp_all
  have k4: "files_kept s s4" using files_kept_trans[OF s3(2) s4(2)] .
  obtain s5 where "install_file root ''test.elf'' test_elf_data s4 = Inr s5" "files_kept s4 s5"
    by (rule install_file_kept[OF k4 keep[OF k4], of "''test.elf''" test_elf_data]) (simp_all add: test_elf_data_def)
  then show ?thesis using s1(1) s2(1) s3(1) s4(1) files_kept_trans[OF k4] by simp
qed

lemma init_files_ok:
  fixes s :: "'z fs_state_scheme"
  assumes inv: "heap_inv s hs al" and e: "objects s = Map.empty" "length (node_pool s) = 128" "pool_count s = 0"
    and room: "h \<in> set hs" "needed_bytes 436 \<le> h_size (mem s) h" and m: "length (mounts s) = MAX_MOUNTS"
  obtains s' hs' al' where "init_files s = Inr s'" "heap_inv s' hs' al'" "ramfs_wf s' al'"
    "is_ramfs_dir (objects s') (vfs_get_root s')"
proof -
  let ?s = "vfs_init s"
  have "heap_inv ?s hs al = heap_inv s hs al" by (rule heap_inv_cong) (simp_all add: vfs_init_def)
  then have "heap_inv ?s hs al" using inv by simp
  then obtain root s1 where s1: "ramfs_create_root ?s = Inr (root, s1)" "root \<noteq> nullptr" "files_kept ?s s1" "is_ramfs_dir (objects s1) root"
    by (rule create_root_kept[OF _ _ _ _ room(1)]) (use e room(2) in \<open>simp_all add: vfs_init_def\<close>)
  have "mounts s1 = map (\<lambda>m. m\<lparr>m_used := False\<rparr>) (mounts s)" using s1(3) by (simp add: files_kept_def vfs_init_def)
  then have "length (mounts s1) = MAX_MOUNTS" "\<not> m_used (mounts s1 ! 0)" using m by (simp_all add: MAX_MOUNTS_def)
  then obtain ms c where mt: "vfs_mount (Some ''/'') root s1 = Inr (0, s1\<lparr>mounts := ms, mount_count := c\<rparr>)"
    "vfs_get_root (s1\<lparr>mounts := ms, mount_count := c\<rparr>) = root" using mount_first[OF _ _ s1(2)] by blast
  let ?s1 = "s1\<lparr>mounts := ms, mount_count := c\<rparr>"
  have d: "is_ramfs_dir (objects ?s1) root" using s1(4) by simp
  obtain s' where s': "init_files s = Inr s'" "files_kept ?s1 s'"
    using init_files_rest[OF files_kept_update[OF s1(3)] d] s1(1,2) mt(1) by (auto simp: init_files_def)
  then have "vfs_get_root s' = root" using mt(2) by (simp add: files_kept_def vfs_get_root_def)
  then show thesis using that[OF s'(1)] s'(2) d by (auto simp: files_kept_def)
qed

lemma boot_fields:
  fixes s t :: "'z fs_state_scheme"
  assumes "vmm_state.more t = vmm_state.more s"
  shows "objects t = objects s" "node_pool t = node_pool s" "pool_count t = pool_count s" "mounts t = mounts s"
  using assms by (cases s; cases t; simp)+

text \<open>C8: Start-up brings the kernel into the states the other properties are about. On a machine with 5 MB
  to 1 GB, with the two static page tables in different pages of the first 4 MB, the page allocator, paging
  and the heap start without running out of memory, and setting up the files then returns: the
  heap and the RAM file system are well-formed and a directory of it is mounted at \<open>/\<close>. The
  assumptions on the state are what static data of the kernel holds at the start.\<close>

theorem boot_establishes_files:
  fixes s :: "'z fs_state_scheme"
  assumes mb: "5 \<le> total_memory_mb s" "total_memory_mb s \<le> 1024"
    and pd: "aligned (im_page_directory im)" "unat (im_page_directory im) < 0x400000"
    and pt: "aligned (im_boot_page_table im)" "unat (im_boot_page_table im) < 0x400000"
    and ne: "im_page_directory im \<noteq> im_boot_page_table im"
    and static: "objects s = Map.empty" "length (node_pool s) = 128" "pool_count s = 0" "length (mounts s) = MAX_MOUNTS"
  shows "\<exists>s1 s2 hs al. init_memory im s = Inr s1 \<and> kernel_space s1 = im_page_directory im \<and> init_files s1 = Inr s2
    \<and> heap_inv s2 hs al \<and> ramfs_wf s2 al \<and> is_ramfs_dir (objects s2) (vfs_get_root s2)"
proof -
  obtain s1 h where s1: "init_memory im s = Inr s1" "heap_inv s1 [h] {}" "h_size (mem s1) h = 4096"
    "kernel_space s1 = im_page_directory im" "vmm_state.more s1 = vmm_state.more s"
    using init_memory_ok[OF mb pd pt ne] by blast
  note f = boot_fields[OF s1(5)]
  have nb: "needed_bytes 436 \<le> h_size (mem s1) h" unfolding s1(3) by (simp add: needed_bytes_def MIN_BLOCK_def HEADER_SIZE_def Let_def)
  obtain s2 hs al where "init_files s1 = Inr s2" "heap_inv s2 hs al" "ramfs_wf s2 al" "is_ramfs_dir (objects s2) (vfs_get_root s2)"
    by (rule init_files_ok[OF s1(2) _ _ _ list.set_intros(1) nb]) (use f static in simp_all)
  then show ?thesis using s1(1,4) by blast
qed

definition demo_image :: kernel_image where
  "demo_image = \<lparr>im_page_directory = 0x101000, im_boot_page_table = 0x102000, im_gdt = 0x103000, im_tss = 0x104000, im_stack_top = 0x106000,
     im_idt = 0x107000, im_stubs = demo_stubs, im_user_code_start = 0x108000, im_user_code_end = 0x108100,
     im_shell_task = 0x110000, im_prime_task = 0x110100, im_counter_task = 0x110200\<rparr>"

definition demo_start :: shell_state where
  "demo_start = (demo_shell [])\<lparr>total_memory_mb := 32, objects := Map.empty, node_pool := replicate 128 0, pool_count := 0,
     mounts := replicate 16 \<lparr>m_path = [], m_root = 0, m_used = False\<rparr>\<rparr>"

theorem boot_establishes_files_witness:
  "\<exists>s1 s2. init_memory demo_image demo_start = Inr s1 \<and> init_files s1 = Inr s2 \<and> is_ramfs_dir (objects s2) (vfs_get_root s2)"
proof -
  have "aligned (im_page_directory demo_image)" "aligned (im_boot_page_table demo_image)" by (simp_all add: demo_image_def aligned_def)
  then show ?thesis
    using boot_establishes_files[of demo_start demo_image] by (auto simp: demo_image_def demo_start_def MAX_MOUNTS_def)
qed

section \<open>The prime number task\<close>

definition is_prime :: "nat \<Rightarrow> bool" where
  "is_prime n \<longleftrightarrow> 2 \<le> n \<and> (\<forall>d \<in> {2..<n}. \<not> d dvd n)"

text \<open>It is enough to try the divisors up to the square root.\<close>

lemma is_prime_sqrt:
  assumes "2 \<le> n"
  shows "is_prime n \<longleftrightarrow> (\<forall>d. 2 \<le> d \<and> d * d \<le> n \<longrightarrow> \<not> d dvd n)"
proof
  assume p: "is_prime n"
  show "\<forall>d. 2 \<le> d \<and> d * d \<le> n \<longrightarrow> \<not> d dvd n"
  proof (intro allI impI)
    fix d :: nat assume d: "2 \<le> d \<and> d * d \<le> n"
    then have "d * 2 \<le> n" using mult_le_mono2[of 2 d d] by linarith
    then show "\<not> d dvd n" using p d by (auto simp: is_prime_def)
  qed
next
  assume q: "\<forall>d. 2 \<le> d \<and> d * d \<le> n \<longrightarrow> \<not> d dvd n"
  have "\<not> d dvd n" if d: "2 \<le> d" "d < n" for d
  proof
    assume "d dvd n"
    then obtain e where e: "n = d * e" by blast
    have "2 \<le> e" using d e by (cases e rule: nat.exhaust; cases "e = 1") auto
    moreover have "d * d \<le> n \<or> e * e \<le> n" unfolding e using mult_le_mono[of d e d d] by (cases "d \<le> e") auto
    ultimately show False using q d(1) e by (metis dvd_triv_left dvd_triv_right)
  qed
  then show "is_prime n" using assms by (simp add: is_prime_def)
qed

lemma sint_small: "unat (x :: u32) < 0x80000000 \<Longrightarrow> sint x = int (unat x)"
proof -
  assume "unat x < 0x80000000"
  then have "int (unat x) < 0x80000000" by linarith
  then have "uint x < 0x80000000" by simp
  moreover have "(-0x80000000 :: int) \<le> uint x" using uint_ge_0[of x] by linarith
  ultimately have "sint x = uint x" unfolding sint_uint by (simp add: signed_take_bit_int_eq_self)
  then show "sint x = int (unat x)" by simp
qed

text \<open>Below \<open>46340\<^sup>2\<close> the squares that are compared stay in 31 bits.\<close>

lemma prime_loop_ok:
  assumes "unat n < 46340 * 46340" "2 \<le> unat i" "unat i \<le> 46340" "\<forall>d. 2 \<le> d \<and> d < unat i \<longrightarrow> \<not> d dvd unat n"
  shows "prime_loop i n = Some (Inr (\<forall>d. 2 \<le> d \<and> d * d \<le> unat n \<longrightarrow> \<not> d dvd unat n))"
  using assms
proof (induction "46340 - unat i" arbitrary: i rule: less_induct)
  case less
  let ?P = "\<forall>d. 2 \<le> d \<and> d * d \<le> unat n \<longrightarrow> \<not> d dvd unat n"
  have sq: "unat i * unat i \<le> 46340 * 46340" using mult_le_mono[OF less.prems(3,3)] .
  then have sq2: "unat (i * i) = unat i * unat i" by (simp add: unat_mult_lem[THEN iffD1])
  have si: "sint (i * i) = int (unat i * unat i)" "sint n = int (unat n)" "sint i = int (unat i)" "i \<noteq> 0"
    using sint_small[of "i * i"] sint_small[of n] sint_small[of i] sq less.prems sq2 by auto
  have c: "sint (i * i) \<le> sint n \<longleftrightarrow> unat i * unat i \<le> unat n" "sint n mod sint i = 0 \<longleftrightarrow> unat i dvd unat n"
    unfolding si(1-3) by (simp_all only: of_nat_le_iff zmod_int[symmetric] of_nat_eq_0_iff dvd_eq_mod_eq_0)
  have step: "prime_loop i n = (if unat i * unat i \<le> unat n
      then if unat i dvd unat n then Some (Inr False) else prime_loop (i + 1) n else Some (Inr True))"
    using si(4) c by (subst prime_loop.simps) (simp only: if_False)
  show ?case
  proof (cases "unat i * unat i \<le> unat n")
    case False
    have "?P"
    proof (intro allI impI)
      fix d assume d: "2 \<le> d \<and> d * d \<le> unat n"
      then have "d < unat i" using False mult_le_mono[of "unat i" d "unat i" d] by (meson leI le_trans)
      then show "\<not> d dvd unat n" using less.prems(4) d by blast
    qed
    then show ?thesis using step False by simp
  next
    case True
    then have lt: "unat i < 46340" using less.prems(1,3) by (cases "unat i = 46340") auto
    then have u: "unat (i + 1) = unat i + 1" by (simp add: unat_add_small)
    show ?thesis
    proof (cases "unat i dvd unat n")
      case d: True
      then have "\<not> ?P" using True less.prems(2) by blast
      then show ?thesis using step True d by simp
    next
      case d: False
      have "\<forall>k. 2 \<le> k \<and> k < unat (i + 1) \<longrightarrow> \<not> k dvd unat n" using less.prems(4) d u by (auto simp: less_Suc_eq)
      then show ?thesis using less.hyps[of "i + 1"] step True d u lt less.prems by simp
    qed
  qed
qed

fun prime_rounds :: "nat \<Rightarrow> 'z shell_state_scheme \<Rightarrow> 'z shell_state_scheme res" where
  "prime_rounds 0 s = Inr s"
| "prime_rounds (Suc k) s = bindR (prime_round s) (prime_rounds k)"

lemma prime_round_ok:
  assumes n: "stress_current s = of_nat n" "2 \<le> n" "n < 46340 * 46340"
  shows "prime_round s = Inr (s\<lparr>stress_prime_count := stress_prime_count s + (if is_prime n then 1 else 0), stress_current := of_nat (Suc n)\<rparr>)"
proof -
  have u: "unat (stress_current s) = n" using n by (simp add: unat_of_nat)
  have "prime_loop 2 (stress_current s) = Some (Inr (is_prime n))"
    unfolding is_prime_sqrt[OF n(2)] using prime_loop_ok[of "stress_current s" 2] n(3) unfolding u by fastforce
  then show ?thesis using n(1) by (simp add: prime_round_def Let_def add.commute)
qed

text \<open>C38: The prime number task counts the primes: started at 2, after \<open>k\<close> rounds it has added to its counter
  the number of primes below \<open>k + 2\<close>, each round ends, and none divides by zero. This holds as
  long as the candidate is below \<open>46340\<^sup>2\<close>, so that the squares of the trial divisors are in the range
  of \<open>int\<close>.\<close>

theorem prime_task_counts:
  fixes s :: "'z shell_state_scheme"
  assumes "stress_current s = 2" and "k + 2 \<le> 46340 * 46340"
  shows "\<exists>s'. prime_rounds k s = Inr s' \<and> stress_current s' = of_nat (k + 2)
    \<and> stress_prime_count s' = stress_prime_count s + of_nat (card {p. p < k + 2 \<and> is_prime p})"
proof -
  have "\<exists>s'. prime_rounds k s = Inr s' \<and> stress_current s' = of_nat (n + k)
      \<and> stress_prime_count s' = stress_prime_count s + of_nat (card {p. n \<le> p \<and> p < n + k \<and> is_prime p})"
    if "stress_current s = of_nat n" "2 \<le> n" "n + k \<le> 46340 * 46340" for n and s :: "'z shell_state_scheme"
    using that
  proof (induction k arbitrary: n s)
    case (Suc k)
    have "{p. n \<le> p \<and> p < n + Suc k \<and> is_prime p} = (if is_prime n then {n} else {}) \<union> {p. Suc n \<le> p \<and> p < Suc n + k \<and> is_prime p}"
      by (auto simp: less_Suc_eq_le order_le_less Suc_le_eq)
    then have c: "card {p. n \<le> p \<and> p < n + Suc k \<and> is_prime p}
        = (if is_prime n then 1 else 0) + card {p. Suc n \<le> p \<and> p < Suc n + k \<and> is_prime p}"
      by (simp add: card_insert_if)
    show ?case
      using Suc.IH[of "s\<lparr>stress_prime_count := stress_prime_count s + (if is_prime n then 1 else 0), stress_current := of_nat (Suc n)\<rparr>" "Suc n"]
        prime_round_ok[OF Suc.prems(1,2)] Suc.prems unfolding c by (auto simp: add.assoc)
  next
    case 0
    have "{p. n \<le> p \<and> p < n + 0 \<and> is_prime p} = {}" by auto
    then show ?case using 0 by (simp only: card.empty) simp
  qed
  from this[of s 2] assms obtain s' where "prime_rounds k s = Inr s'" "stress_current s' = of_nat (2 + k)"
    "stress_prime_count s' = stress_prime_count s + of_nat (card {p. 2 \<le> p \<and> p < 2 + k \<and> is_prime p})" by auto
  moreover have "{p. 2 \<le> p \<and> p < 2 + k \<and> is_prime p} = {p. p < k + 2 \<and> is_prime p}" by (auto simp: is_prime_def)
  ultimately show ?thesis by (auto simp: add.commute)
qed

theorem prime_task_counts_witness:
  "\<exists>s'. prime_rounds 10 (demo_shell []) = Inr s' \<and> stress_current s' = 12 \<and> stress_prime_count s' = 5"
proof -
  have s: "stress_current (demo_shell []) = 2" "stress_prime_count (demo_shell []) = 0"
    by (simp_all add: demo_shell_def demo_net_def demo_nic_def fs_state.defs nic_state.defs net_state.defs shell_state.defs)
  have "{p. p < 10 + 2 \<and> is_prime p} = set (filter is_prime [0..<12])" by auto
  also have "filter is_prime [0..<12] = [2, 3, 5, 7, 11]" by code_simp
  finally have "card {p. p < 10 + 2 \<and> is_prime p} = 5" by simp
  then show ?thesis using prime_task_counts[of "demo_shell []" 10] s by auto
qed

end
