(* ===== verification/Net_Correct.thy ===== *)
theory Net_Correct
  imports Demo_States
begin

text \<open>
  The network code agrees with itself: a packet that \<open>ip_send\<close> builds passes the checksum test of
  \<open>net_poll\<close> and is taken apart into the parts it was built from, and a host that answered an address
  request is known afterwards.
\<close>

section \<open>Checksums\<close>

lemma fold_carry_mod: "unat (fold_carry x) < 65536 \<and> unat (fold_carry x) mod 65535 = unat x mod 65535 \<and> (x \<noteq> 0 \<longrightarrow> fold_carry x \<noteq> 0)"
proof (induction x rule: fold_carry.induct)
  case (1 x)
  let ?y = "(x AND 0xFFFF) + drop_bit 16 x"
  have d: "unat (drop_bit 16 x) = unat x div 65536" by (simp add: drop_bit_eq_div unat_div)
  show ?case
  proof (cases "drop_bit 16 x = 0")
    case True
    then have "unat x div 65536 = 0" using d by simp
    then have "unat x < 65536" by (simp add: div_eq_0_iff)
    then show ?thesis using True by (simp add: fold_carry.simps[of x])
  next
    case False
    have y: "unat ?y = unat x mod 65536 + unat x div 65536" by (rule fold_step_nat)
    have "unat x = unat x mod 65536 + unat x div 65536 * 65536" by simp
    also have "\<dots> = unat ?y + unat x div 65536 * 65535" unfolding y by simp
    finally have "unat x mod 65535 = unat ?y mod 65535" by (metis mod_mult_self1)
    moreover have "unat x div 65536 \<noteq> 0" using False d unat_eq_zero by metis
    then have "?y \<noteq> 0" using y by (metis add_is_0 unat_0)
    ultimately show ?thesis using 1 False by (simp add: fold_carry.simps[of x])
  qed
qed

text \<open>Adding the complement of the folded sum gives a sum that folds to all ones.\<close>

lemma fold_complement:
  assumes "x \<noteq> 0" and "unat (x :: u32) + 65535 < 2 ^ 32"
  shows "ucast (fold_carry (x + ucast (NOT (ucast (fold_carry x) :: u16)))) = (0xFFFF :: u16)"
proof -
  let ?f = "fold_carry x"
  let ?c = "NOT (ucast ?f :: u16)"
  have f: "unat ?f < 65536" "unat ?f mod 65535 = unat x mod 65535" "?f \<noteq> 0" using fold_carry_mod[of x] assms(1) by auto
  have u: "unat (ucast ?f :: u16) = unat ?f" using f(1) by (simp add: unsigned_ucast_eq take_bit_eq_mod)
  have c: "unat ?c = 65535 - unat ?f"
  proof -
    have "?c = 0xFFFF - ucast ?f" by (simp add: not_eq_complement)
    then show ?thesis using u f(1) by (simp add: unat_sub_if')
  qed
  have "unat ?c < 65536" using c by simp
  then have uc: "unat (ucast ?c :: u32) = unat ?c" by (simp add: unsigned_ucast_eq take_bit_nat_eq_self_iff)
  let ?y = "x + ucast ?c"
  have y: "unat ?y = unat x + (65535 - unat ?f)" using unat_add_small[of x "ucast ?c"] assms(2) uc c by simp
  have "(unat x + (65535 - unat ?f)) mod 65535 = 0"
  proof -
    have "(unat x + (65535 - unat ?f)) mod 65535 = (unat x mod 65535 + (65535 - unat ?f)) mod 65535" by (simp add: mod_add_left_eq)
    also have "\<dots> = (unat ?f mod 65535 + (65535 - unat ?f)) mod 65535" by (simp only: f(2))
    also have "\<dots> = (unat ?f + (65535 - unat ?f)) mod 65535" by (simp only: mod_add_left_eq)
    also have "\<dots> = 0" using f(1) by simp
    finally show ?thesis .
  qed
  then have m: "unat (fold_carry ?y) mod 65535 = 0" using fold_carry_mod[of ?y] y by simp
  have "unat x \<noteq> 0" using assms(1) unat_eq_zero by blast
  then have "?y \<noteq> 0" using y by (metis add_is_0 unat_0)
  then have "fold_carry ?y \<noteq> 0" "unat (fold_carry ?y) < 65536" using fold_carry_mod[of ?y] by auto
  then have "unat (fold_carry ?y) = 65535"
  proof -
    obtain k where k: "unat (fold_carry ?y) = 65535 * k" using m by auto
    have "k \<noteq> 0" using k \<open>fold_carry ?y \<noteq> 0\<close> unat_eq_zero by (metis mult_0_right)
    moreover have "k < 2" using k \<open>unat (fold_carry ?y) < 65536\<close> by simp
    ultimately have "k = 1" by simp
    then show ?thesis using k by simp
  qed
  then have "fold_carry ?y = 0xFFFF" by (intro unsigned_word_eqI[where 'a = nat]) simp
  then show ?thesis by simp
qed

section \<open>Frames\<close>

lemma join_bytes16: "(ucast (ucast w :: u8) OR push_bit 8 (ucast (ucast (drop_bit 8 w) :: u8)) :: u16) = w"
proof (rule bit_word_eqI)
  fix n
  assume n: "n < LENGTH(16)"
  then consider "n < 8" | "8 \<le> n \<and> n < 16" by fastforce
  then show "bit (ucast (ucast w :: u8) OR push_bit 8 (ucast (ucast (drop_bit 8 w) :: u8)) :: u16) n = bit w n"
    by cases (use n in \<open>auto simp: bit_simps\<close>)
qed

lemma words_of_word_bytes [simp]: "words_of (word_bytes w @ bs) = w # words_of bs"
  by (simp add: word_bytes_def join_bytes16)

lemma length_words_of: "length (words_of bs) = length bs div 2"
  by (induction bs rule: words_of.induct) auto

lemma length_word_bytes [simp]: "length (word_bytes w) = 2"
  by (simp add: word_bytes_def)

lemma sum_words_bound:
  "length ws \<le> 100 \<Longrightarrow> unat (sum_list (map ucast (ws :: u16 list)) :: u32) \<le> 65535 * length ws"
proof (induction ws)
  case (Cons w ws)
  then have IH: "unat (sum_list (map ucast ws) :: u32) \<le> 65535 * length ws" by simp
  have "unat w < 65536" using unsigned_less[of w, where 'a = nat] by simp
  then have w: "unat (ucast w :: u32) \<le> 65535" by (simp add: unsigned_ucast_eq take_bit_eq_mod)
  then have "unat (ucast w + sum_list (map ucast ws) :: u32) = unat (ucast w :: u32) + unat (sum_list (map ucast ws) :: u32)"
    using IH Cons.prems by (intro unat_add_small) simp
  then show ?case using IH w by simp
qed simp

lemma ip_hdr_words:
  assumes "length src = 4" and "length dst = 4"
  obtains ws ws' where "\<forall>c. words_of (ip_hdr n i proto c src dst) = ws @ c # ws'" "length ws + length ws' = 9"
    "(0 :: u32) < sum_list (map ucast (ws @ ws'))"
proof -
  have sd: "length (src @ dst) = 8" using assms by simp
  have w: "words_of (ip_hdr n i proto c src dst) = (0x45 # htons (of_nat (20 + n)) # htons i # 0 # words_of [64, proto]) @ c # words_of (src @ dst)" for c
    by (simp add: ip_hdr_def)
  have l: "length (words_of (src @ dst)) = 4" using sd by (simp add: length_words_of)
  let ?r = "htons (of_nat (20 + n)) # htons i # 0 # words_of [64, proto] @ words_of (src @ dst)"
  have "unat (sum_list (map ucast ?r) :: u32) \<le> 65535 * length ?r" by (rule sum_words_bound) (simp add: l)
  then have "unat (0x45 + sum_list (map ucast ?r) :: u32) = 0x45 + unat (sum_list (map ucast ?r) :: u32)"
    using unat_add_small[of "0x45" "sum_list (map ucast ?r)"] l by simp
  then have "(0 :: u32) < 0x45 + sum_list (map ucast ?r)" by (simp add: word_less_nat_alt)
  then show thesis using that[OF allI[OF w]] l by simp
qed

lemma length_ip_hdr: "length src = 4 \<Longrightarrow> length dst = 4 \<Longrightarrow> length (ip_hdr n i proto c src dst) = 20"
  by (simp add: ip_hdr_def)

lemma ip_hdr_checksum:
  assumes "length src = 4" and "length dst = 4"
  shows "ip_checksum_ok (ip_hdr n i proto (net_checksum (ip_hdr n i proto 0 src dst)) src dst @ rest)"
proof -
  obtain ws ws' where w: "\<forall>c. words_of (ip_hdr n i proto c src dst) = ws @ c # ws'" "length ws + length ws' = 9"
    "(0 :: u32) < sum_list (map ucast (ws @ ws'))" by (rule ip_hdr_words[OF assms])
  let ?x = "sum_list (map ucast (ws @ ws')) :: u32"
  have s: "sum_list (map ucast (ws @ c # ws')) = ?x + ucast c" for c by simp
  have "unat ?x \<le> 65535 * 9" using sum_words_bound[of "ws @ ws'"] w(2) by simp
  then have b: "unat ?x + 65535 < 2 ^ 32" by simp
  have "net_checksum (ip_hdr n i proto 0 src dst) = NOT (ucast (fold_carry ?x))"
    using length_ip_hdr[OF assms] unfolding net_checksum_def Let_def w(1)[rule_format] s by simp
  then show ?thesis
    using fold_complement[OF _ b] w(3) length_ip_hdr[OF assms]
    unfolding ip_checksum_ok_def by (simp add: w(1)[rule_format] s del: map_append sum_list_append)
qed

lemma nth_field16: "field16 (xs @ ys) (length xs + k) = field16 ys k"
  by (simp add: field16_def nth_append add.assoc)

lemma field16_word_bytes: "field16 (word_bytes w @ bs) 0 = w"
  by (simp add: field16_def word_bytes_def join_bytes16)

lemma htons_ip: "htons 0x0800 = 0x0008"
  by (simp add: htons_def)

section \<open>The table of known hosts\<close>

lemma update_first_none: "update_first P f xs = None \<longleftrightarrow> (\<forall>x \<in> set xs. \<not> P x)"
  by (induction xs) auto

lemma update_first_some:
  "update_first P f xs = Some ys \<Longrightarrow> \<exists>as x bs. xs = as @ x # bs \<and> ys = as @ f x # bs \<and> P x \<and> (\<forall>a \<in> set as. \<not> P a)"
proof (induction xs arbitrary: ys)
  case (Cons z zs)
  show ?case
  proof (cases "P z")
    case True
    then show ?thesis using Cons.prems by (intro exI[of _ "[]"] exI[of _ z] exI[of _ zs]) simp
  next
    case False
    then obtain ys' where "update_first P f zs = Some ys'" "ys = z # ys'" using Cons.prems by auto
    moreover from Cons.IH[OF this(1)] obtain as x bs where "zs = as @ x # bs" "ys' = as @ f x # bs" "P x" "\<forall>a \<in> set as. \<not> P a" by blast
    ultimately show ?thesis using False by (intro exI[of _ "z # as"] exI[of _ x] exI[of _ bs]) simp
  qed
qed simp

lemma find_skip: "(\<forall>a \<in> set as. \<not> P a) \<Longrightarrow> find P (as @ xs) = find P xs"
  by (induction as) auto

lemma find_replace:
  assumes "P x \<longleftrightarrow> P y" and "P x \<Longrightarrow> g x = g y"
  shows "map_option g (find P (as @ x # bs)) = map_option g (find P (as @ y # bs))"
  using assms by (induction as) auto

lemma arp_cache_add_ok:
  assumes room: "\<exists>e \<in> set (arp_cache s). \<not> arp_valid e \<or> arp_ip e = ip"
  shows "arp_cache_lookup ip (snd (arp_cache_add ip mac s)) = Some mac
    \<and> (\<forall>ip'. ip' \<noteq> ip \<longrightarrow> arp_cache_lookup ip' (snd (arp_cache_add ip mac s)) = arp_cache_lookup ip' s)"
proof (cases "update_first (arp_matches ip) (\<lambda>e. e\<lparr>arp_mac := mac\<rparr>) (arp_cache s)")
  case (Some c)
  then obtain as x bs where x: "arp_cache s = as @ x # bs" "c = as @ x\<lparr>arp_mac := mac\<rparr> # bs" "arp_matches ip x"
    "\<forall>a \<in> set as. \<not> arp_matches ip a" using update_first_some by fast
  have "arp_matches ip (x\<lparr>arp_mac := mac\<rparr>)" using x(3) by (simp add: arp_matches_def)
  moreover have "map_option arp_mac (find (arp_matches ip') c) = map_option arp_mac (find (arp_matches ip') (arp_cache s))"
    if "ip' \<noteq> ip" for ip'
    unfolding x(1,2) using that x(3) by (intro find_replace) (auto simp: arp_matches_def)
  ultimately show ?thesis using Some x find_skip[OF x(4)] by (simp add: arp_cache_add_def arp_cache_lookup_def)
next
  case None
  then have no: "\<forall>e \<in> set (arp_cache s). \<not> arp_matches ip e" by (simp add: update_first_none)
  then have free: "\<exists>e \<in> set (arp_cache s). \<not> arp_valid e" using room by (auto simp: arp_matches_def)
  let ?new = "\<lparr>arp_ip = ip, arp_mac = mac, arp_valid = True\<rparr>"
  obtain c where c: "update_first (\<lambda>e. \<not> arp_valid e) (\<lambda>e. ?new) (arp_cache s) = Some c"
    using free update_first_none[of "\<lambda>e. \<not> arp_valid e" "\<lambda>e. ?new" "arp_cache s"] by auto
  obtain as x bs where x: "arp_cache s = as @ x # bs" "c = as @ ?new # bs" "\<not> arp_valid x"
    using update_first_some[OF c] by blast
  have "\<forall>a \<in> set as. \<not> arp_matches ip a" using no x(1) by simp
  moreover have "map_option arp_mac (find (arp_matches ip') c) = map_option arp_mac (find (arp_matches ip') (arp_cache s))"
    if "ip' \<noteq> ip" for ip'
    unfolding x(1,2) using that x(3) by (intro find_replace) (auto simp: arp_matches_def)
  ultimately show ?thesis using None c x find_skip[of as "arp_matches ip"]
    by (simp add: arp_cache_add_def arp_cache_lookup_def) (simp add: arp_matches_def)
qed

section \<open>Properties\<close>

text \<open>C29: What \<open>ip_send\<close> hands to the card is a frame that the receiving code accepts: its
  checksum is right, and a host that receives it takes it for an ICMP packet from the sender
  with exactly the data that was sent.\<close>

theorem ip_send_received:
  fixes s :: "'z net_state_scheme" and r :: "'y net_state_scheme"
  assumes nic: "rtl8139_get_device 0 s = Some nic" and mac: "arp_resolve dst s = Some mac"
    and len: "length mac = 6" "length (our_mac s) = 6" "length (our_ip s) = 4" "length dst = 4"
    and data: "4 \<le> length data" "length data \<le> 1502"
  shows "\<exists>f. ip_send dst 1 data s = rtl8139_send_packet (Some nic) f (int (length f)) (s\<lparr>ip_id := ip_id s + 1\<rparr>)
    \<and> take 6 f = mac \<and> ip_checksum_ok (drop 14 f)
    \<and> net_handle f (int (length f)) r
        = bindR (icmp_handle_packet (our_ip s) data r) (\<lambda>(pkt, r). Inr (take 34 f @ pkt, r))"
proof -
  let ?c = "net_checksum (ip_hdr (length data) (ip_id s) 1 0 (our_ip s) dst)"
  let ?h = "ip_hdr (length data) (ip_id s) 1 ?c (our_ip s) dst"
  let ?e = "mac @ our_mac s"
  let ?f = "ip_frame mac dst 1 data s"
  have f: "?f = ?e @ word_bytes 0x0008 @ ?h @ data"
    by (simp add: ip_frame_def eth_hdr_def htons_ip Let_def)
  have h: "length ?h = 20" by (rule length_ip_hdr[OF len(3,4)])
  have l: "length ?f = 34 + length data" using h len by (simp add: f)
  have send: "ip_send dst 1 data s = rtl8139_send_packet (Some nic) ?f (int (length ?f)) (s\<lparr>ip_id := ip_id s + 1\<rparr>)"
    using nic mac data l by (simp add: ip_send_def)
  have d14: "drop 14 ?f = ?h @ data" using len by (simp add: f)
  have ok: "ip_checksum_ok (drop 14 ?f)" unfolding d14 by (rule ip_hdr_checksum[OF len(3,4)])
  have ty: "field16 ?f 12 = 0x0008"
    using nth_field16[of ?e "word_bytes 0x0008 @ ?h @ data" 0] len by (simp add: f field16_word_bytes)
  have "?f ! (14 + 9) = (?h @ data) ! 9" using arg_cong[OF d14, of "\<lambda>xs. xs ! 9"] l by (simp add: nth_drop)
  then have pr: "?f ! 23 = 1" by (simp add: ip_hdr_def word_bytes_def)
  have "drop 26 ?f = drop 12 (drop 14 ?f)" by simp
  then have src: "take 4 (drop 26 ?f) = our_ip s"
    unfolding d14 using len by (simp add: ip_hdr_def word_bytes_def)
  have "drop 34 ?f = drop 20 (drop 14 ?f)" by simp
  then have pay: "drop 34 ?f = data" unfolding d14 using h by simp
  have "net_handle ?f (int (length ?f)) r
      = bindR (icmp_handle_packet (our_ip s) data r) (\<lambda>(pkt, r). Inr (take 34 ?f @ pkt, r))"
    using ok ty pr src pay l data by (simp add: net_handle_def Let_def)
  then show ?thesis using send ok len by (intro exI[of _ ?f]) (simp add: f)
qed

theorem ip_send_received_witness:
  "\<exists>f. ip_send [10, 0, 2, 1] 1 [8, 0, 0, 0] demo_net = rtl8139_send_packet (Some 0) f (int (length f)) (demo_net\<lparr>ip_id := 1\<rparr>)
    \<and> take 6 f = [9, 9, 9, 9, 9, 9] \<and> ip_checksum_ok (drop 14 f)"
proof -
  have "rtl8139_get_device 0 demo_net = Some 0" "arp_resolve [10, 0, 2, 1] demo_net = Some [9, 9, 9, 9, 9, 9]"
    by (simp_all add: rtl8139_get_device_def arp_resolve_def arp_cache_lookup_def arp_matches_def demo_net_fields)
  from ip_send_received[OF this, of "[8, 0, 0, 0]" demo_net] show ?thesis by (auto simp: demo_net_fields)
qed

text \<open>C30: An answer to an address request is remembered: afterwards the address it gives for the
  sender is the one found, and what is known of the other hosts is as before. When all
  eight entries are taken by other hosts the answer is dropped.\<close>

theorem arp_reply_remembered:
  fixes s :: "'z net_state_scheme"
  assumes "length sha = 6" "length spa = 4" "length tha = 6" "length tpa = 4"
  shows "\<exists>s'. arp_handle_packet (arp_pkt 0x0200 sha spa tha tpa) s = Inr (0, s')
    \<and> (if \<exists>e \<in> set (arp_cache s). \<not> arp_valid e \<or> arp_ip e = spa
       then arp_resolve spa s' = Some sha \<and> (\<forall>ip. ip \<noteq> spa \<longrightarrow> arp_resolve ip s' = arp_resolve ip s)
       else s' = s)"
proof -
  let ?p = "arp_pkt 0x0200 sha spa tha tpa"
  have p: "?p = [0, 1, 8, 0, 6, 4, 0, 2] @ sha @ spa @ tha @ tpa" by (simp add: arp_pkt_def word_bytes_def)
  have "field16 ?p 0 = 0x0100" "field16 ?p 2 = 0x0008" "field16 ?p 6 = 0x0200"
    by (simp_all add: p field16_def)
  moreover have "take 6 (drop 8 ?p) = sha" "take 4 (drop 14 ?p) = spa" using assms by (simp_all add: p)
  ultimately have h: "arp_handle_packet ?p s = Inr (0, snd (arp_cache_add spa sha s))"
    by (simp add: arp_handle_packet_def Let_def)
  show ?thesis
  proof (cases "\<exists>e \<in> set (arp_cache s). \<not> arp_valid e \<or> arp_ip e = spa")
    case True
    then show ?thesis using h arp_cache_add_ok[OF True, of sha] by (simp add: arp_resolve_def)
  next
    case False
    then have "update_first (arp_matches spa) (\<lambda>e. e\<lparr>arp_mac := sha\<rparr>) (arp_cache s) = None"
      "update_first (\<lambda>e. \<not> arp_valid e) (\<lambda>e. \<lparr>arp_ip = spa, arp_mac = sha, arp_valid = True\<rparr>) (arp_cache s) = None"
      by (auto simp: update_first_none arp_matches_def)
    then show ?thesis using h False by (simp add: arp_cache_add_def)
  qed
qed

theorem arp_reply_remembered_witness:
  "\<exists>s'. arp_handle_packet (arp_pkt 0x0200 [5, 5, 5, 5, 5, 5] [10, 0, 2, 7] [1, 2, 3, 4, 5, 6] [10, 0, 2, 15]) demo_net = Inr (0, s')
    \<and> arp_resolve [10, 0, 2, 7] s' = Some [5, 5, 5, 5, 5, 5]"
  using arp_reply_remembered[of "[5, 5, 5, 5, 5, 5]" "[10, 0, 2, 7]" "[1, 2, 3, 4, 5, 6]" "[10, 0, 2, 15]" demo_net]
  by (auto simp: demo_net_fields)

end
