(* ===== verification/Disk_Correct.thy ===== *)
theory Disk_Correct
  imports Demo_States
begin

text \<open>
  What the disk drivers do on a disk that answers as the ATA standard says. \<open>ata_disk\<close> states the
  protocol of reading one sector (28-bit addresses, one sector at a time): the disk may be busy for any
  time, and may fail to read a sector. \<open>ata_read_sector\<close> then returns the sector, or fails when the disk
  does or takes longer than the driver waits. On a disk that answers in time \<open>fat32_read\<close> leaves its buffer for
  nearly every file.
\<close>

section \<open>Reading sectors\<close>

text \<open>The writes that select a drive and a sector and give the read command, the latest first.\<close>

definition sector_regs :: "u16 \<Rightarrow> bool \<Rightarrow> u32 \<Rightarrow> io_event list" where
  "sector_regs base master lba =
     [Out8 (base + 5) (ucast (drop_bit 16 lba)), Out8 (base + 4) (ucast (drop_bit 8 lba)), Out8 (base + 3) (ucast lba),
      Out8 (base + 2) 1,
      Out8 (base + 6) (0xE0 OR (if master then 0 else 0x10) OR (ucast (drop_bit 24 lba) AND 0x0F))]"

definition read_command :: "u16 \<Rightarrow> bool \<Rightarrow> u32 \<Rightarrow> io_event list \<Rightarrow> io_event list" where
  "read_command base master lba h = Out8 (base + 7) 0x20 # sector_regs base master lba @ h"

text \<open>The history after \<open>n\<close> more reads of the status register, and what one more read gives.\<close>

definition polled :: "u16 \<Rightarrow> nat \<Rightarrow> io_event list \<Rightarrow> io_event list" where
  "polled base n h = replicate n (In8 (base + 7)) @ h"

definition status :: "u16 \<Rightarrow> (io_event list \<Rightarrow> u32) \<Rightarrow> io_event list \<Rightarrow> u8" where
  "status base dev h = ucast (dev (In8 (base + 7) # h))"

text \<open>
  A disk with the contents \<open>img\<close>, of which the sectors \<open>bad\<close> cannot be read. After the history \<open>h\<close> it is
  busy for \<open>busy h\<close> reads of the status. A read command takes it \<open>delay\<close> reads of the status, with
  neither DRQ nor ERR set; then the status has DRQ and the data register gives the words of the
  sector one after the other, or the status has ERR. The address has 28 bits.
\<close>

definition ata_disk ::
    "u16 \<Rightarrow> bool \<Rightarrow> (u32 \<Rightarrow> u16 list) \<Rightarrow> (u32 \<Rightarrow> bool) \<Rightarrow> (io_event list \<Rightarrow> nat) \<Rightarrow> (io_event list \<Rightarrow> nat) \<Rightarrow> (io_event list \<Rightarrow> u32) \<Rightarrow> bool" where
  "ata_disk base master img bad busy delay dev \<longleftrightarrow>
     (\<forall>h n. status base dev (polled base n h) AND 0x80 \<noteq> 0 \<longleftrightarrow> n < busy h)
   \<and> (\<forall>h lba n. let c = read_command base master lba h; a = lba AND 0x0FFFFFFF
        in status base dev (polled base n c) AND 0x09 = (if n < delay c then 0 else if bad a then 0x01 else 0x08)
         \<and> (\<not> bad a \<and> delay c < n \<longrightarrow> (\<forall>k < 256. ucast (dev (replicate (Suc k) (In16 base) @ polled base n c)) = img a ! k)))
   \<and> (\<forall>lba. length (img lba) = 256)"

lemma polled_simps [simp]: "polled base 0 h = h" "polled base m (polled base n h) = polled base (m + n) h"
  "In8 (base + 7) # polled base n h = polled base (Suc n) h"
  by (simp_all add: polled_def replicate_add)

lemma inb_status: "inb (base + ATA_REG_STATUS) s = (status base (device s) (io_log s), s\<lparr>io_log := polled base 1 (io_log s)\<rparr>)"
  by (simp add: inb_def status_def polled_def ATA_REG_STATUS_def)

lemma wait_bsy_loop_ok:
  assumes "0 < t" "\<And>n. status base (device s) (polled base n (io_log s)) AND 0x80 \<noteq> 0 \<longleftrightarrow> n < b"
  shows "wait_bsy_loop t base s = (if b < t then (0, s\<lparr>io_log := polled base (Suc b) (io_log s)\<rparr>)
    else (-1, s\<lparr>io_log := polled base t (io_log s)\<rparr>))"
  using assms
proof (induction t arbitrary: s b)
  case (Suc t)
  show ?case
  proof (cases b)
    case 0
    then show ?thesis using Suc.prems(2)[of 0] by (subst wait_bsy_loop.simps) (simp add: inb_status ATA_STATUS_BSY_def)
  next
    case b: (Suc b')
    let ?s = "s\<lparr>io_log := polled base 1 (io_log s)\<rparr>"
    have w: "wait_bsy_loop (Suc t) base s = (if t = 0 then (-1, ?s) else wait_bsy_loop t base ?s)"
      using Suc.prems(2)[of 0] b by (subst wait_bsy_loop.simps) (simp add: inb_status ATA_STATUS_BSY_def)
    have "status base (device ?s) (polled base n (io_log ?s)) AND 0x80 \<noteq> 0 \<longleftrightarrow> n < b'" for n
      using Suc.prems(2)[of "Suc n"] b by simp
    from Suc.IH[OF _ this] show ?thesis using w b by auto
  qed
qed simp

lemma and_part:
  fixes x :: u8
  shows "x AND 0x09 = 0 \<Longrightarrow> x AND 0x08 = 0 \<and> x AND 0x01 = 0" "x AND 0x09 = 0x08 \<Longrightarrow> x AND 0x08 \<noteq> 0 \<and> x AND 0x01 = 0"
    "x AND 0x09 = 0x01 \<Longrightarrow> x AND 0x08 = 0 \<and> x AND 0x01 \<noteq> 0"
proof -
  have "x AND 0x08 = (x AND 0x09) AND 0x08" "x AND 0x01 = (x AND 0x09) AND 0x01" by (simp_all add: and.assoc)
  then show "x AND 0x09 = 0 \<Longrightarrow> x AND 0x08 = 0 \<and> x AND 0x01 = 0" "x AND 0x09 = 0x08 \<Longrightarrow> x AND 0x08 \<noteq> 0 \<and> x AND 0x01 = 0"
    "x AND 0x09 = 0x01 \<Longrightarrow> x AND 0x08 = 0 \<and> x AND 0x01 \<noteq> 0" by simp_all
qed

text \<open>\<open>ata_wait_drq\<close> reads the status twice in each round, so it sees a delay of twice its limit.\<close>

lemma wait_drq_loop_ok:
  assumes "0 < t" "\<And>n. status base (device s) (polled base n (io_log s)) AND 0x09 = (if n < d then 0 else if err then 0x01 else 0x08)"
  shows "\<exists>m. wait_drq_loop t base s = (if \<not> err \<and> d \<le> 2 * (t - 1) then 0 else -1, s\<lparr>io_log := polled base m (io_log s)\<rparr>)
    \<and> (\<not> err \<and> d \<le> 2 * (t - 1) \<longrightarrow> d < m)"
  using assms
proof (induction t arbitrary: s d)
  case (Suc t)
  let ?s1 = "s\<lparr>io_log := polled base 1 (io_log s)\<rparr>" and ?s2 = "s\<lparr>io_log := polled base 2 (io_log s)\<rparr>"
  note st = Suc.prems(2)
  show ?case
  proof (cases "d = 0 \<and> \<not> err")
    case True
    then have "wait_drq_loop (Suc t) base s = (0, ?s1)"
      using and_part(2)[of "status base (device s) (io_log s)"] st[of 0] by (subst wait_drq_loop.simps) (simp add: inb_status ATA_STATUS_DRQ_def)
    then show ?thesis using True by (intro exI[of _ 1]) simp
  next
    case False
    then have "status base (device s) (io_log s) AND 0x08 = 0"
      using st[of 0] and_part[of "status base (device s) (io_log s)"] by (auto split: if_splits)
    then have w: "wait_drq_loop (Suc t) base s = (if t = 0 then (-1, ?s1)
        else if status base (device s) (polled base 1 (io_log s)) AND 0x01 \<noteq> 0 then (-1, ?s2) else wait_drq_loop t base ?s2)"
      by (subst wait_drq_loop.simps) (simp add: inb_status ATA_STATUS_DRQ_def ATA_STATUS_ERR_def numeral_2_eq_2)
    have e: "status base (device s) (polled base 1 (io_log s)) AND 0x01 \<noteq> 0 \<longleftrightarrow> err \<and> d \<le> 1"
      using st[of 1] and_part[of "status base (device s) (polled base 1 (io_log s))"] by (auto split: if_splits)
    have "status base (device ?s2) (polled base n (io_log ?s2)) AND 0x09 = (if n < d - 2 then 0 else if err then 0x01 else 0x08)" for n
      using st[of "n + 2"] by (simp add: less_diff_conv)
    note ih = Suc.IH[OF _ this]
    consider "t = 0" | "t \<noteq> 0" "err \<and> d \<le> 1" | "t \<noteq> 0" "\<not> (err \<and> d \<le> 1)" by blast
    then show ?thesis
    proof cases
      case 1
      then have "wait_drq_loop (Suc t) base s = (-1, ?s1)" "\<not> (\<not> err \<and> d \<le> 2 * (Suc t - 1))" using w False by (simp, auto)
      then show ?thesis by (intro exI[of _ 1]) (simp only: if_False simp_thms)
    next
      case 2
      then have "wait_drq_loop (Suc t) base s = (-1, ?s2)" using w e by simp
      then show ?thesis using 2 by (intro exI[of _ 2]) simp
    next
      case 3
      obtain m where m: "wait_drq_loop t base ?s2 = (if \<not> err \<and> d - 2 \<le> 2 * (t - 1) then 0 else -1, ?s2\<lparr>io_log := polled base m (io_log ?s2)\<rparr>)"
        "\<not> err \<and> d - 2 \<le> 2 * (t - 1) \<longrightarrow> d - 2 < m" using ih 3(1) by blast
      have "wait_drq_loop (Suc t) base s = wait_drq_loop t base ?s2" using 3 unfolding w e by (simp only: if_False)
      moreover have "d - 2 \<le> 2 * (t - 1) \<longleftrightarrow> d \<le> 2 * t" using 3(1) by (cases t) auto
      moreover have "d - 2 < m \<Longrightarrow> d < m + 2" by linarith
      ultimately show ?thesis using m by (intro exI[of _ "m + 2"]) simp
    qed
  qed
qed simp

lemma read_words_ok:
  "read_words n port s = (map (\<lambda>k. ucast (device s (replicate (Suc k) (In16 port) @ io_log s))) [0..<n],
     s\<lparr>io_log := replicate n (In16 port) @ io_log s\<rparr>)"
proof (induction n arbitrary: s)
  case (Suc n)
  have "[0..<Suc n] = 0 # map Suc [0..<n]" by (simp add: upt_conv_Cons map_Suc_upt)
  then show ?case by (simp add: Suc.IH inw_def o_def replicate_app_Cons_same del: upt_Suc)
qed simp

lemma low_byte: "ucast (x AND 0xFF :: u32) = (ucast x :: u8)"
proof (rule bit_word_eqI)
  fix n
  assume n: "n < LENGTH(8)"
  have "(0xFF :: u32) = mask 8" by (simp add: mask_eq_exp_minus_1)
  then have "bit (0xFF :: u32) n" using n by (simp only: bit_mask_iff) simp
  then show "bit (ucast (x AND 0xFF :: u32) :: u8) n = bit (ucast x :: u8) n"
    using n by (simp add: bit_simps)
qed

lemma select_sector_log:
  "select_sector d lba s = s\<lparr>io_log := sector_regs (a_base d) (a_is_master d) lba @ io_log s\<rparr>"
  by (simp add: select_sector_def sector_regs_def outb_def low_byte ATA_REG_DRIVE_def ATA_REG_SECTORS_def ATA_REG_LBA_LOW_def
      ATA_REG_LBA_MID_def ATA_REG_LBA_HIGH_def Let_def)

lemma ata_read_ok:
  fixes s :: "'z ata_state_scheme" and lba :: u32
  assumes dev: "0 \<le> dev" "dev < device_count s" "device_count s \<le> int (length (ata_devices s))"
    and d: "ata_devices s ! nat dev = d" and disk: "ata_disk (a_base d) (a_is_master d) img bad busy delay (device s)"
  defines "a \<equiv> lba AND 0x0FFFFFFF" and "c \<equiv> read_command (a_base d) (a_is_master d) lba (polled (a_base d) (Suc (busy (io_log s))) (io_log s))"
  shows "\<exists>log. ata_read_sector dev lba s = Inr (if busy (io_log s) < ATA_TIMEOUT \<and> delay c \<le> 2 * (ATA_TIMEOUT - 1) \<and> \<not> bad a
    then Some (concat (map word_bytes (img a))) else None, s\<lparr>io_log := log\<rparr>)"
proof -
  let ?b = "a_base d" and ?ok = "\<not> bad a \<and> delay c \<le> 2 * (ATA_TIMEOUT - 1)"
  let ?s1 = "s\<lparr>io_log := polled ?b (Suc (busy (io_log s))) (io_log s)\<rparr>" and ?s2 = "s\<lparr>io_log := c\<rparr>"
  note p = disk[unfolded ata_disk_def Let_def]
  have n: "nat dev < length (ata_devices s)" "\<not> (dev < 0 \<or> device_count s \<le> dev)" using dev by linarith+
  have t: "0 < ATA_TIMEOUT" by (simp add: ATA_TIMEOUT_def)
  have w1: "ata_wait_bsy ?b s = (if busy (io_log s) < ATA_TIMEOUT then (0, ?s1) else (-1, s\<lparr>io_log := polled ?b ATA_TIMEOUT (io_log s)\<rparr>))"
    unfolding ata_wait_bsy_def using p by (intro wait_bsy_loop_ok[OF t]) blast
  have sel: "outb (?b + ATA_REG_COMMAND) ATA_CMD_READ (select_sector d lba ?s1) = ?s2"
    by (simp add: select_sector_log outb_def ATA_REG_COMMAND_def ATA_CMD_READ_def c_def read_command_def)
  have "status ?b (device ?s2) (polled ?b n (io_log ?s2)) AND 0x09 = (if n < delay c then 0 else if bad a then 0x01 else 0x08)" for n
    using p by (simp add: c_def a_def)
  from wait_drq_loop_ok[OF t this] obtain m where w2: "ata_wait_drq ?b ?s2 = (if ?ok then 0 else -1, ?s2\<lparr>io_log := polled ?b m c\<rparr>)"
    "?ok \<longrightarrow> delay c < m" by (auto simp: ata_wait_drq_def)
  define s3 where "s3 = s\<lparr>io_log := polled ?b m c\<rparr>"
  define s4 where "s4 = s\<lparr>io_log := replicate 256 (In16 ?b) @ polled ?b m c\<rparr>"
  have rw: "read_words 256 (?b + ATA_REG_DATA) s3 = (img a, s4)" if ?ok
  proof -
    have "map (\<lambda>k. ucast (device s3 (replicate (Suc k) (In16 ?b) @ io_log s3))) [0..<256] = img a"
      using p that w2(2) by (intro nth_equalityI) (simp_all add: a_def c_def s3_def del: upt_rec_numeral replicate_Suc)
    then show ?thesis unfolding read_words_ok ATA_REG_DATA_def add_0_right by (simp add: s3_def s4_def)
  qed
  define ok where "ok = ?ok"
  have w3: "ata_wait_drq ?b ?s2 = (if ok then 0 else -1, s3)" using w2(1) by (simp add: s3_def ok_def)
  have rw: "ok \<Longrightarrow> read_words 256 (?b + ATA_REG_DATA) s3 = (img a, s4)" using rw unfolding ok_def .
  show ?thesis
  proof (cases "busy (io_log s) < ATA_TIMEOUT")
    case True
    then have "ata_read_sector dev lba s = Inr (if ok then (Some (concat (map word_bytes (img a))), s4) else (None, s3))"
      using n d w1 sel w3 rw by (cases ok) (simp_all add: ata_read_sector_def Let_def)
    then have "ata_read_sector dev lba s = Inr (if ok then Some (concat (map word_bytes (img a))) else None,
        s\<lparr>io_log := if ok then replicate 256 (In16 ?b) @ polled ?b m c else polled ?b m c\<rparr>)"
      by (cases ok) (simp_all only: if_True if_False s3_def s4_def)
    moreover have "busy (io_log s) < ATA_TIMEOUT \<and> delay c \<le> 2 * (ATA_TIMEOUT - 1) \<and> \<not> bad a \<longleftrightarrow> ok" using True ok_def by blast
    ultimately show ?thesis by (intro exI) (simp only:)
  next
    case False
    then have "ata_read_sector dev lba s = Inr (None, s\<lparr>io_log := polled ?b ATA_TIMEOUT (io_log s)\<rparr>)"
      using n d w1 by (simp add: ata_read_sector_def Let_def)
    then show ?thesis using False by (intro exI) (simp only: simp_thms if_False)
  qed
qed

text \<open>C28: On a disk that follows the protocol \<open>ata_read_sector\<close> returns the 512 bytes of the sector, low byte
  of each word first, when the disk stops being busy and answers the command within the
  driver's limits and can read the sector, and otherwise reports failure. In all cases nothing but the
  history of the ports changes. The address counts modulo 2 to the 28: a sector beyond is taken
  for one below.\<close>

theorem ata_read_sector_reads:
  fixes s :: "'z ata_state_scheme"
  assumes dev: "0 \<le> dev" "dev < device_count s" "device_count s \<le> int (length (ata_devices s))"
    and d: "ata_devices s ! nat dev = d" and disk: "ata_disk (a_base d) (a_is_master d) img bad busy delay (device s)"
  shows "let a = lba AND 0x0FFFFFFF; b = busy (io_log s);
      c = read_command (a_base d) (a_is_master d) lba (polled (a_base d) (Suc b) (io_log s))
    in \<exists>log. ata_read_sector dev lba s = Inr (if b < ATA_TIMEOUT \<and> delay c \<le> 2 * (ATA_TIMEOUT - 1) \<and> \<not> bad a
      then Some (concat (map word_bytes (img a))) else None, s\<lparr>io_log := log\<rparr>)"
  unfolding Let_def by (rule ata_read_ok[OF assms])

text \<open>
  A disk of \<open>cap\<close> sectors on the first channel. It is busy for two reads of the status after power-up and for three
  after a command, and finds the sector and the word it has to give in the history; the words of
  sector \<open>a\<close> are \<open>a\<close>, \<open>a + 1\<close> and so on.
\<close>

primrec demo_busy :: "io_event list \<Rightarrow> nat" where
  "demo_busy [] = 2"
| "demo_busy (e # h) =
     (case e of In8 p \<Rightarrow> demo_busy h - 1 | Out8 p v \<Rightarrow> (if p = 0x1F7 then 3 else demo_busy h) | _ \<Rightarrow> demo_busy h)"

primrec demo_reg :: "u16 \<Rightarrow> io_event list \<Rightarrow> u8" where
  "demo_reg p [] = 0"
| "demo_reg p (e # h) = (case e of Out8 q v \<Rightarrow> (if q = p then v else demo_reg p h) | _ \<Rightarrow> demo_reg p h)"

definition demo_lba :: "io_event list \<Rightarrow> u32" where
  "demo_lba h = ucast (demo_reg 0x1F3 h) OR push_bit 8 (ucast (demo_reg 0x1F4 h)) OR push_bit 16 (ucast (demo_reg 0x1F5 h))
     OR push_bit 24 (ucast (demo_reg 0x1F6 h AND 0x0F))"

definition demo_word :: "u32 \<Rightarrow> nat \<Rightarrow> u16" where
  "demo_word a k = ucast a + of_nat k"

definition demo_disk :: "u32 \<Rightarrow> io_event list \<Rightarrow> u32" where
  "demo_disk cap h =
     (case h of
        In8 p # g \<Rightarrow> (if demo_busy g > 0 then 0x80 else if demo_lba g < cap then 0x48 else 0x41)
      | In16 p # g \<Rightarrow> ucast (demo_word (demo_lba g) (length (takeWhile (\<lambda>e. e = In16 p) g)))
      | _ \<Rightarrow> 0)"

definition demo_sectors :: "u32 \<Rightarrow> u16 list" where
  "demo_sectors a = map (demo_word a) [0..<256]"

definition demo_drive :: ata_device where
  "demo_drive = \<lparr>a_base = 0x1F0, a_ctrl = 0x3F6, a_present = True, a_is_master = True,
     a_model = replicate 40 (CHR 0x00), a_sectors = 0x1000\<rparr>"

definition demo_disk_state :: "u32 \<Rightarrow> fs_state" where
  "demo_disk_state cap = demo_fs\<lparr>device := demo_disk cap, ata_devices := [demo_drive], device_count := 1\<rparr>"

lemma demo_history:
  "demo_busy (polled base n h) = demo_busy h - n" "demo_reg p (polled base n h) = demo_reg p h"
  "demo_reg p (replicate k (In16 q) @ h) = demo_reg p h"
proof -
  show "demo_busy (polled base n h) = demo_busy h - n" by (induction n) (simp_all add: polled_def)
  show "demo_reg p (polled base n h) = demo_reg p h" by (induction n) (simp_all add: polled_def)
  show "demo_reg p (replicate k (In16 q) @ h) = demo_reg p h" by (induction k) simp_all
qed

lemma demo_busy_less: "demo_busy h < 10000000"
proof -
  have "demo_busy h \<le> 3" by (induction h) (auto split: io_event.splits)
  then show ?thesis by simp
qed

lemma demo_lba_command: "demo_lba (read_command 0x1F0 m lba h) = lba AND 0x0FFFFFFF"
proof -
  have mask: "(0x0FFFFFFF :: u32) = mask 28" "(0x0F :: u8) = mask 4" by (simp_all add: mask_eq_exp_minus_1)
  have "(0xE0 OR (if m then 0 else 0x10) OR (x AND 0x0F)) AND 0x0F = x AND (0x0F :: u8)" for x
    by (cases m) (simp_all add: bit.conj_disj_distrib2 and.assoc)
  then have "demo_lba (read_command 0x1F0 m lba h) = ucast (ucast lba :: u8) OR push_bit 8 (ucast (ucast (drop_bit 8 lba) :: u8))
      OR push_bit 16 (ucast (ucast (drop_bit 16 lba) :: u8)) OR push_bit 24 (ucast (ucast (drop_bit 24 lba) AND 0x0F :: u8))"
    by (simp add: demo_lba_def read_command_def sector_regs_def)
  also have "\<dots> = lba AND 0x0FFFFFFF"
    unfolding mask by (rule bit_word_eqI) (auto simp: bit_simps)
  finally show ?thesis .
qed

lemma demo_disk_ok: "ata_disk 0x1F0 True demo_sectors (\<lambda>a. cap \<le> a) demo_busy (\<lambda>_. 3) (demo_disk cap)"
proof -
  have st: "status 0x1F0 (demo_disk cap) (polled 0x1F0 n h) = (if n < demo_busy h then 0x80 else if demo_lba h < cap then 0x48 else 0x41)" for n h
    by (simp add: status_def demo_disk_def demo_history demo_lba_def)
  have b: "demo_busy (read_command 0x1F0 True lba h) = 3" for lba h by (simp add: read_command_def)
  have w: "ucast (demo_disk cap (replicate (Suc k) (In16 0x1F0) @ polled 0x1F0 n (read_command 0x1F0 True lba h))) = demo_sectors (lba AND 0x0FFFFFFF) ! k"
    if "3 < n" "k < 256" for k n lba h
  proof -
    have "takeWhile (\<lambda>e. e = In16 0x1F0) (replicate k (In16 0x1F0) @ polled 0x1F0 n (read_command 0x1F0 True lba h)) = replicate k (In16 0x1F0)"
      using that(1) by (cases n) (simp_all add: polled_def takeWhile_append)
    moreover have "demo_lba (replicate k (In16 0x1F0) @ polled 0x1F0 n (read_command 0x1F0 True lba h)) = lba AND 0x0FFFFFFF"
      using demo_lba_command[of True lba h] by (simp add: demo_lba_def demo_history)
    moreover have "ucast (ucast x :: u32) = x" for x :: u16 by (rule bit_word_eqI) (simp add: bit_simps)
    ultimately show ?thesis using that(2) by (simp add: demo_disk_def demo_sectors_def del: upt_rec_numeral)
  qed
  show ?thesis unfolding ata_disk_def Let_def
    using st b w demo_lba_command by (auto simp: demo_sectors_def simp del: upt_rec_numeral)
qed

theorem ata_read_sector_reads_witness:
  "(\<exists>log. ata_read_sector 0 0x10000005 (demo_disk_state 0x1000) = Inr (Some (concat (map (\<lambda>k. word_bytes (5 + of_nat k)) [0..<256])), (demo_disk_state 0x1000)\<lparr>io_log := log\<rparr>))
   \<and> (\<exists>log. ata_read_sector 0 0x2000 (demo_disk_state 0x1000) = Inr (None, (demo_disk_state 0x1000)\<lparr>io_log := log\<rparr>))"
proof -
  let ?s = "demo_disk_state 0x1000"
  have d: "(0 :: int) \<le> 0" "0 < device_count ?s" "device_count ?s \<le> int (length (ata_devices ?s))" "ata_devices ?s ! nat 0 = demo_drive"
    by (simp_all add: demo_disk_state_def)
  have "ata_disk (a_base demo_drive) (a_is_master demo_drive) demo_sectors (\<lambda>a. 0x1000 \<le> a) demo_busy (\<lambda>_. 3) (device ?s)"
    using demo_disk_ok by (simp add: demo_drive_def demo_disk_state_def)
  note r = ata_read_sector_reads[OF d(1-4) this]
  have t: "demo_busy (io_log ?s) < ATA_TIMEOUT" "3 \<le> 2 * (ATA_TIMEOUT - 1)" using demo_busy_less by (simp_all add: ATA_TIMEOUT_def)
  have i: "demo_sectors 5 = map (\<lambda>k. 5 + of_nat k) [0..<256]" by (simp add: demo_sectors_def demo_word_def del: upt_rec_numeral)
  have "\<exists>log. ata_read_sector 0 0x10000005 ?s = Inr (Some (concat (map (\<lambda>k. word_bytes (5 + of_nat k)) [0..<256])), ?s\<lparr>io_log := log\<rparr>)"
    using r[of "0x10000005"] t i by (simp add: Let_def o_def del: upt_rec_numeral)
  moreover have "\<exists>log. ata_read_sector 0 0x2000 ?s = Inr (None, ?s\<lparr>io_log := log\<rparr>)"
    using r[of "0x2000"] by (simp add: Let_def)
  ultimately show ?thesis by blast
qed

section \<open>Reading files from FAT32\<close>

text \<open>Every sector can be read, whatever was done to the disk before.\<close>

definition disk_readable :: "int \<Rightarrow> 'z ata_state_scheme \<Rightarrow> bool" where
  "disk_readable dev s \<longleftrightarrow>
     (\<forall>lba es. \<exists>bs es'. ata_read_sector dev lba (s\<lparr>io_log := es\<rparr>) = Inr (Some bs, s\<lparr>io_log := es'\<rparr>) \<and> length bs = 512)"

lemma length_concat_words: "length (concat (map word_bytes ws)) = 2 * length ws"
  by (induction ws) (simp_all add: word_bytes_def)

lemma ata_disk_readable:
  fixes s :: "'z ata_state_scheme"
  assumes dev: "0 \<le> dev" "dev < device_count s" "device_count s \<le> int (length (ata_devices s))"
    and d: "ata_devices s ! nat dev = d" and disk: "ata_disk (a_base d) (a_is_master d) img bad busy delay (device s)"
    and quick: "\<And>h. busy h < ATA_TIMEOUT" "\<And>h. delay h \<le> 2 * (ATA_TIMEOUT - 1)" and good: "\<And>a. \<not> bad (a AND 0x0FFFFFFF)"
  shows "disk_readable dev s"
  unfolding disk_readable_def
proof (intro allI)
  fix lba es
  let ?s = "s\<lparr>io_log := es\<rparr>"
  have "\<exists>log. ata_read_sector dev lba ?s = Inr (Some (concat (map word_bytes (img (lba AND 0x0FFFFFFF)))), ?s\<lparr>io_log := log\<rparr>)"
    using ata_read_ok[of dev ?s d img bad busy delay lba] dev d disk quick good by simp
  moreover have "length (concat (map word_bytes (img (lba AND 0x0FFFFFFF)))) = 512"
    using disk by (simp add: length_concat_words ata_disk_def)
  ultimately show "\<exists>bs es'. ata_read_sector dev lba ?s = Inr (Some bs, s\<lparr>io_log := es'\<rparr>) \<and> length bs = 512" by auto
qed

lemma read_sectors_ok:
  fixes s :: "'z ata_state_scheme"
  shows "disk_readable (f_ata_dev fs) s \<Longrightarrow> i + n \<le> 8 \<Longrightarrow>
    \<exists>bs es'. read_sectors n fs sector i acc (s\<lparr>io_log := es\<rparr>) = Inr (Some bs, s\<lparr>io_log := es'\<rparr>) \<and> length bs = length acc + 512 * n"
proof (induction n arbitrary: i acc es)
  case 0
  then show ?case by auto
next
  case (Suc n)
  obtain b es1 where "ata_read_sector (f_ata_dev fs) (partition_start fs + (sector + of_nat i)) (s\<lparr>io_log := es\<rparr>)
      = Inr (Some b, s\<lparr>io_log := es1\<rparr>)" "length b = 512"
    using Suc.prems(1) unfolding disk_readable_def by blast
  then show ?case using Suc.IH[OF Suc.prems(1), of "Suc i" "acc @ b" es1] Suc.prems(2)
    by (auto simp: fat32_read_sector_def)
qed

lemma copy_bytes_outside: "length b \<le> unat off \<Longrightarrow> 0 < n \<Longrightarrow> copy_bytes n b off = Inl Out_of_bounds"
  by (cases n) auto

lemma cluster_start_nat:
  assumes "2 < c" "c \<le> 0x80000" and "1 \<le> spc" "spc \<le> 8"
  shows "unat ((c - 2) * (spc * 512) :: u32) = (unat c - 2) * (unat spc * 512)"
    "512 \<le> (unat c - 2) * (unat spc * 512)" "(unat c - 2) * (unat spc * 512) \<le> 2 ^ 31" "unat (spc * 512) = unat spc * 512"
proof -
  have c: "2 < unat c" "unat c \<le> 0x80000" and s: "1 \<le> unat spc" "unat spc \<le> 8"
    using assms by (simp_all add: word_less_nat_alt word_le_nat_alt)
  have c2: "unat (c - 2) = unat c - 2" using c by (simp add: unat_sub word_le_nat_alt)
  show b: "unat (spc * 512) = unat spc * 512" using s by (simp add: unat_word_ariths)
  have "(unat c - 2) * (unat spc * 512) \<le> 0x80000 * (8 * 512)" using c s by (intro mult_mono) simp_all
  then show le: "(unat c - 2) * (unat spc * 512) \<le> 2 ^ 31" by simp
  show "unat ((c - 2) * (spc * 512)) = (unat c - 2) * (unat spc * 512)"
    unfolding unat_word_ariths(2)[of "c - 2"] c2 b using le by (intro mod_less) simp
  have "1 * (1 * 512) \<le> (unat c - 2) * (unat spc * 512)" using c s by (intro mult_le_mono) simp_all
  then show "512 \<le> (unat c - 2) * (unat spc * 512)" by simp
qed

lemma read_loop_outside:
  assumes "cluster < FAT32_EOC" "0 < z" and st: "(cluster - 2) * bpc = st" "sectors_per_cluster fs * ATA_SECTOR_SIZE = bpc" "0 < bpc + st"
    and rc: "fat32_read_cluster fs cluster s = Inr (Some bs, s')" and cp: "\<And>n :: u32. 0 < n \<Longrightarrow> copy_bytes (unat n) bs (- st) = Inl Out_of_bounds"
  shows "fat32_read_loop fs cluster 0 z [] s = Some (Inl Out_of_bounds)"
proof -
  have "0 < st + bpc" using st(3) by (simp add: add.commute)
  then show ?thesis
    using assms(1,2) rc cp[OF assms(2)] cp[OF st(3)]
    by (subst fat32_read_loop.simps) (simp add: Let_def st(1,2))
qed

text \<open>C35: \<open>fat32_read\<close> takes the place of a cluster on the disk for its place in the file: for a file that does
  not start in cluster 2, where the root directory usually is, reading from the start of the
  file goes wrong with the first byte. The position in the buffer is computed as a negative
  number, and the access is outside the buffer.\<close>

theorem fat32_read_outside_buffer:
  fixes s :: "'z fs_state_scheme"
  assumes fn: "objects s a = Some (Fat32_obj fn)" "\<not> is_dir fn" and fs: "objects s (f_fs fn) = Some (Fat32_fs_obj fs)"
    and size: "0 < n_size (f_vnode fn)" "0 < sz"
    and geo: "1 \<le> sectors_per_cluster fs" "sectors_per_cluster fs \<le> 8" "2 < first_cluster fn" "first_cluster fn \<le> 0x80000"
    and disk: "disk_readable (f_ata_dev fs) s"
  shows "fat32_read a 0 sz s = Inl Out_of_bounds"
proof -
  let ?c = "first_cluster fn"
  let ?bpc = "sectors_per_cluster fs * ATA_SECTOR_SIZE"
  let ?st = "(?c - 2) * ?bpc"
  let ?sz = "if sz > n_size (f_vnode fn) then n_size (f_vnode fn) else sz"
  note n = cluster_start_nat[OF geo(3,4,1,2), folded ATA_SECTOR_SIZE_def]
  have b8: "unat ?bpc \<le> 4096" using n(4) geo(2) by (simp add: word_le_nat_alt ATA_SECTOR_SIZE_def)
  have st: "512 \<le> unat ?st" "unat ?st \<le> 2 ^ 31" unfolding n(1) by (rule n(2), rule n(3))
  have eoc: "?c < FAT32_EOC" using geo(4) by (simp add: FAT32_EOC_def word_le_nat_alt word_less_nat_alt)
  have szp: "0 < ?sz" using size by simp
  have "unat (?st + ?bpc) = unat ?st + unat ?bpc" using st(2) b8 by (intro unat_add_small) simp
  then have lt: "0 < ?st + ?bpc" using st(1) by (simp add: word_less_nat_alt)
  have off: "unat (0 - ?st) = 2 ^ 32 - unat ?st" unfolding unat_sub_if'[of 0 ?st] using st(1) by simp
  obtain bs es where rc: "fat32_read_cluster fs ?c s = Inr (Some bs, s\<lparr>io_log := es\<rparr>)" "length bs = 512 * unat (sectors_per_cluster fs)"
    using read_sectors_ok[OF disk, of 0 "unat (sectors_per_cluster fs)" "data_start fs + (?c - 2) * sectors_per_cluster fs" "[]" "io_log s"] geo(2)
    by (auto simp: fat32_read_cluster_def fat32_cluster_to_lba_def word_le_nat_alt)
  have "length bs \<le> 4096" using rc(2) geo(2) by (simp add: word_le_nat_alt)
  then have "length bs \<le> unat (0 - ?st)" using off st(2) by simp
  then have cp: "copy_bytes (unat n) bs (- ?st) = Inl Out_of_bounds" if "0 < n" for n :: u32
    using that by (intro copy_bytes_outside) (simp_all add: word_less_nat_alt)
  have "0 < ?bpc + ?st" using lt by (simp add: add.commute)
  then have "fat32_read_loop fs ?c 0 ?sz [] s = Some (Inl Out_of_bounds)"
    by (rule read_loop_outside[OF eoc szp refl refl _ rc(1) cp])
  moreover have "\<not> n_size (f_vnode fn) \<le> 0" using size(1) by simp
  ultimately show ?thesis using fn fs by (auto simp: fat32_read_def get_fat32_def get_fs_def Let_def split: if_splits)
qed

text \<open>A file of 100 bytes in cluster 3.\<close>

definition demo_fat_fs :: fat32_fs where
  "demo_fat_fs = \<lparr>f_ata_dev = 0, partition_start = 63, bytes_per_sector = 512, sectors_per_cluster = 1,
     reserved_sectors = 32, fat_count = 2, sectors_per_fat = 100, root_cluster = 2, data_start = 232\<rparr>"

definition demo_fat_file :: fat32_node where
  "demo_fat_file = \<lparr>f_vnode = zero_node\<lparr>n_name := ''a.txt'', n_flags := FS_FILE, n_size := 100, n_read := Some Fat32_read\<rparr>,
     f_fs = 0x3010, first_cluster = 3, is_dir = False\<rparr>"

definition demo_fat :: fs_state where
  "demo_fat = (demo_disk_state 0x10000000)\<lparr>objects := [0x3010 \<mapsto> Fat32_fs_obj demo_fat_fs, 0x4010 \<mapsto> Fat32_obj demo_fat_file]\<rparr>"

theorem fat32_read_outside_buffer_witness: "fat32_read 0x4010 0 10 demo_fat = Inl Out_of_bounds"
proof -
  have d: "device_count demo_fat = 1" "ata_devices demo_fat ! nat 0 = demo_drive"
    "device_count demo_fat \<le> int (length (ata_devices demo_fat))"
    by (simp_all add: demo_fat_def demo_disk_state_def)
  have disk: "ata_disk (a_base demo_drive) (a_is_master demo_drive) demo_sectors (\<lambda>a. 0x10000000 \<le> a) demo_busy (\<lambda>_. 3) (device demo_fat)"
    using demo_disk_ok by (simp add: demo_drive_def demo_fat_def demo_disk_state_def)
  have "a AND 0x0FFFFFFF < (0x10000000 :: u32)" for a by (rule le_less_trans[OF word_and_le1]) simp
  then have "disk_readable (f_ata_dev demo_fat_fs) demo_fat"
    using ata_disk_readable[OF _ _ d(3,2) disk] d(1) demo_busy_less by (simp add: demo_fat_fs_def ATA_TIMEOUT_def not_le)
  then show ?thesis
    by (intro fat32_read_outside_buffer[where fn = demo_fat_file and fs = demo_fat_fs])
      (simp_all add: demo_fat_def demo_fat_file_def demo_fat_fs_def zero_node_def)
qed

end
