(* ===== verification/Spec2Isabelle.thy ===== *)
theory Spec2Isabelle
  imports Kmalloc_Correct Ipc_Correct Boot_Correct Net_Correct Ramfs_Properties Disk_Correct
begin

text \<open>
  A verification development of NemoOS, an x86 (i386) kernel written in C++. The
  sources are under \<open>src/src\<close>; every theory below names the files it models.

  \<^bold>\<open>The program.\<close> After boot the kernel reads the memory size from the multiboot
  information, sets up the page allocator, the segment and interrupt tables, paging, the
  kernel heap, the address space manager and the RAM file system, starts the drivers and runs
  processes that a timer interrupt switches between; one of them is the shell, which reads
  lines from the keyboard buffer and calls all the other parts. The parts call each other downwards: system calls
  and interrupts use the scheduler, the message queues, the terminal and the
  keyboard buffer; processes use address spaces, the heap and the page allocator; address
  spaces and the heap use the page allocator.

  \<^bold>\<open>Conventions.\<close> Theory \<open>Nemo_Prelude\<close> has the types of the model: machine integers as
  words of their width, byte memory as a function from 32-bit addresses, and results of
  fallible code as \<open>fault + 'a\<close>. A fault is a kernel panic, an access outside an array or
  object, a page fault, or code that does not return. The state grows along the calls as a
  chain of extensible records, \<open>pmm_state\<close>, \<open>machine\<close>, \<open>heap_state\<close>, \<open>vmm_state\<close>,
  \<open>proc_state\<close>, \<open>kernel_state\<close>, \<open>hw_state\<close>, \<open>ata_state\<close>, \<open>fs_state\<close>, \<open>nic_state\<close>,
  \<open>net_state\<close>, \<open>shell_state\<close>, \<open>boot_state\<close>, and an operation works on every extension of the
  state it needs. A \<open>for\<close> loop is recursion over the values of its counter; a loop whose end is not
  evident is a \<open>partial_function (option)\<close>, whose value \<open>None\<close> says that it does not
  return, so there is no fuel to choose.

  \<^bold>\<open>Theories, code, and what is shown.\<close>

  \<^item> \<open>Pmm\<close> (\<open>memory/pmm_bitmap.cpp\<close>): the bitmap of pages. Allocation returns the lowest free
    page, freeing gives it back, the counter agrees with the bitmap. The locale
    \<open>page_allocator\<close> is the contract the other parts use.
  \<^item> \<open>Libk\<close> (\<open>libk/\<close>): memory, string and number routines against their mathematical
    meaning, on byte memory.
  \<^item> \<open>Fifo\<close>, \<open>Keyboard\<close> (\<open>drivers/keyboard.cpp\<close>, \<open>drivers/keyboard_buffer.cpp\<close>,
    \<open>interrupts/keyboard_irq.cpp\<close>): the contract of a bounded queue and the ring buffer that
    meets it; what the translation of scan codes gives.
  \<^item> \<open>Kmalloc\<close>, \<open>Dll\<close>, \<open>Heap_Blocks\<close>, \<open>Kmalloc_Correct\<close> (\<open>memory/kmalloc.cpp\<close>): the heap with
    its headers, footers and free list in byte memory. \<open>Dll\<close> is the doubly linked free list,
    \<open>Heap_Blocks\<close> the tiling of the heap by blocks, \<open>Kmalloc_Correct\<close> the behaviour of
    allocation and the faults of freeing.
  \<^item> \<open>Terminal\<close> (\<open>terminal.cpp\<close>, \<open>kernel/panic.cpp\<close>): the text screen, scrolling, the panic
    screen.
  \<^item> \<open>Vmm\<close>, \<open>Vmm_Correct\<close>, \<open>Vmm_Properties\<close> (\<open>memory/vmm.cpp\<close>, \<open>memory/paging.cpp\<close>,
    \<open>boot/multiboot.cpp\<close>, \<open>user/user_mode.cpp\<close>): page directories and tables as bytes, and the
    processor's walk through them as the meaning of a mapping.
  \<^item> \<open>Descriptors\<close> (\<open>interrupts/gdt.cpp\<close>, \<open>idt.cpp\<close>, \<open>tss.cpp\<close> and the exception handlers):
    the descriptor tables and what their entries decode to.
  \<^item> \<open>Process\<close> (\<open>process/process.cpp\<close>, \<open>scheduler/scheduler.cpp\<close>, \<open>scheduler/task.cpp\<close>) with
    \<open>Sched_Correct\<close> and \<open>Sched_Properties\<close>: round robin scheduling, bounded waiting, the
    frames a process starts from, kernel stacks, destruction of processes.
  \<^item> \<open>Syscall\<close> (\<open>ipc/\<close>, \<open>syscalls/syscall.cpp\<close> and the interrupt stubs): messages, sleeping,
    the timer and keyboard interrupts and all the system calls, with user buffers reached
    through the page tables.

  \<^item> \<open>Ipc_Correct\<close>: the message queue of a process as a second instance of the bounded queue
    of \<open>Fifo\<close>, and the system calls 7 and 8 as its operations.
  \<^item> \<open>Port_Io\<close>, \<open>Ata\<close> (\<open>arch/x86/ports.cpp\<close>, \<open>drivers/ata.cpp\<close>): the port instructions as a
    history of accesses, the disk driver on top of it. What a device answers is a function of
    the history, fixed by the field \<open>device\<close>; theorems about a disk say what it answers.
  \<^item> \<open>Vfs\<close>, \<open>Ramfs\<close>, \<open>Fat32\<close>, \<open>Vfs_Resolve\<close> (\<open>fs/vfs.cpp\<close>, \<open>fs/ramfs.cpp\<close>, \<open>fs/fat32.cpp\<close>): the
    nodes of both file systems in one typed store, with function pointers as values of
    datatypes; mounts, path resolution, reading and writing. \<open>Heap_Frame\<close>,
    \<open>Ramfs_Correct\<close> and \<open>Ramfs_Properties\<close> show that the RAM file system stays well-formed,
    that paths find what was created and that files hold what was written; \<open>Disk_Correct\<close>
    that a sector read returns the sector of a disk that answers in time and fails otherwise, and
    that FAT32 reads go wrong.
  \<^item> \<open>Elf\<close> (\<open>fs/elf.cpp\<close>): loading a program, with every access through the page tables.
  \<^item> \<open>Rtl8139\<close> (\<open>drivers/pci.cpp\<close>, \<open>drivers/rtl8139.cpp\<close>) and \<open>Net\<close> (\<open>net/\<close>): the bus, the
    network card, ARP, IP and ICMP. \<open>Net_Correct\<close> shows that checksums agree between sender
    and receiver and that the ARP cache remembers replies.
  \<^item> \<open>Shell\<close> (\<open>shell/shell.cpp\<close>): the line editor and every command. \<open>Shell_Correct\<close> shows that the
    editor hands over exactly the edited line, what \<open>echo\<close>, \<open>write\<close> and \<open>cat\<close> show, and that
    \<open>wc\<close> and \<open>rev\<close> take each other's place; \<open>Shell_Session\<close> that sessions of file commands never
    fault and keep the heap and the file system well-formed.
  \<^item> \<open>Kernel_Main\<close> (\<open>kernel.cpp\<close>, \<open>interrupts/pic.cpp\<close>, \<open>drivers/timer.cpp\<close>, the two programs in
    \<open>fs/\<close>): the start-up sequence and the tasks. \<open>Boot_Correct\<close> shows that start-up, from the
    memory size to the first files, succeeds with enough memory and establishes the invariants
    of the heap and the file system, and that the prime number task counts primes.
  \<^item> \<open>Demo_States\<close>: concrete states of the machine on which the theorems about several parts
    are applied.

  \<^bold>\<open>Not modelled.\<close> The assembly that sets up the first stack, and that saves and restores
  registers around interrupts and switches between stacks: it has no counterpart in the C++
  code, and what the C++ code relies on, the layout of the frames, is in \<open>Process\<close> and
  \<open>Syscall\<close>. The instructions that load processor tables (\<open>lgdt\<close>, \<open>lidt\<close>, \<open>ltr\<close>, \<open>invlpg\<close>) have
  no state in the kernel beyond the tables. Delays, the polling of the serial port and the
  acknowledgement of interrupts do not appear in the results. The interleaving of a
  command with interrupts is not modelled: an interrupt handler is one step, and a task is
  modelled between two halts. Some files of the sources are empty.
\<close>

end
